(* ===== verification/Prelude.thy ===== *)
theory Prelude
  imports Main "HOL-Library.Char_ord" "HOL-Library.List_Lexorder"
    "HOL-Library.Signed_Division" "HOL-Library.Word"
begin

text \<open>
  Shared vocabulary of the development: the Go run-time notions the sources use (errors and
  panics as values, 64-bit signed addition, byte strings and the few functions of the package
  strings that matter here, insertion-ordered maps), and the generic lemmas about them.
  Everything a component proof needs repeatedly is declared \<open>[simp]\<close> or collected in one of
  the named collections below.
\<close>

named_theorems result_simps \<open>inversion of the error-passing combinators\<close>

named_theorems map_simps \<open>look-up after an update of an insertion-ordered map\<close>

section \<open>Errors, panics and results\<close>

text \<open>
  A Go function that returns an \<open>error\<close> returns a sum. The three kinds of failure are kept
  apart: the \<open>NotAllowed\<close> error of the authorisation rules, any other error value, and a
  run-time panic (nil dereference, index out of range, division by zero, explicit panic).
\<close>

datatype go_error = NotAllowed string | Error string | Panic string

type_synonym 'a result = "go_error + 'a"

definition bindR :: "'a result \<Rightarrow> ('a \<Rightarrow> 'b result) \<Rightarrow> 'b result" where
  "bindR m f = (case m of Inl e \<Rightarrow> Inl e | Inr x \<Rightarrow> f x)"

definition ensure :: "bool \<Rightarrow> go_error \<Rightarrow> unit result" where
  "ensure b e = (if b then Inr () else Inl e)"

text \<open>A counting loop whose body can fail.\<close>

fun foldR :: "('a \<Rightarrow> 's \<Rightarrow> 's result) \<Rightarrow> 'a list \<Rightarrow> 's \<Rightarrow> 's result" where
  "foldR f [] s = Inr s"
| "foldR f (x # xs) s = bindR (f x s) (foldR f xs)"

text \<open>The error of a query without a result row.\<close>

abbreviation ErrNoRows :: go_error where "ErrNoRows \<equiv> Error ''sql: no rows in result set''"

definition is_panic :: "'a result \<Rightarrow> bool" where
  "is_panic r = (case r of Inl (Panic _) \<Rightarrow> True | _ \<Rightarrow> False)"

section \<open>Machine arithmetic\<close>

text \<open>An \<open>int64\<close> is kept as an integer; an addition wraps around as the hardware does.\<close>

definition wrap64 :: "int \<Rightarrow> int" where
  "wrap64 x = (x + 2 ^ 63) mod 2 ^ 64 - 2 ^ 63"

definition in_int64 :: "int \<Rightarrow> bool" where
  "in_int64 x \<longleftrightarrow> - (2 ^ 63) \<le> x \<and> x < 2 ^ 63"

section \<open>Strings\<close>

text \<open>\<open>strings.SplitN(s, c, 2)\<close>: at most two pieces, cut at the first separator.\<close>

definition splitN2 :: "char \<Rightarrow> string \<Rightarrow> string list" where
  "splitN2 c s = (case dropWhile (\<lambda>x. x \<noteq> c) s of
       [] \<Rightarrow> [s]
     | _ # r \<Rightarrow> [takeWhile (\<lambda>x. x \<noteq> c) s, r])"

text \<open>\<open>strings.HasPrefix\<close> and \<open>strings.Contains\<close>.\<close>

fun has_prefix :: "string \<Rightarrow> string \<Rightarrow> bool" where
  "has_prefix [] s = True"
| "has_prefix (p # ps) [] = False"
| "has_prefix (p # ps) (x # xs) = (p = x \<and> has_prefix ps xs)"

fun str_contains :: "string \<Rightarrow> string \<Rightarrow> bool" where
  "str_contains [] sub = has_prefix sub []"
| "str_contains (x # xs) sub = (has_prefix sub (x # xs) \<or> str_contains xs sub)"

section \<open>Maps with an iteration order\<close>

text \<open>
  A Go map that the code iterates over is an association list: its keys are read through
  \<open>map_of\<close> and the list order is the (unspecified) iteration order of one \<open>range\<close> loop.
  Storing keeps the position of an existing key; deleting removes the key.
\<close>

type_synonym 'v smap = "(string \<times> 'v) list"

fun store :: "string \<Rightarrow> 'v \<Rightarrow> 'v smap \<Rightarrow> 'v smap" where
  "store k v [] = [(k, v)]"
| "store k v ((k', v') # m) = (if k = k' then (k, v) # m else (k', v') # store k v m)"

definition remove :: "string \<Rightarrow> 'v smap \<Rightarrow> 'v smap" where
  "remove k m = filter (\<lambda>p. fst p \<noteq> k) m"

definition smap_ok :: "'v smap \<Rightarrow> bool" where
  "smap_ok m \<longleftrightarrow> distinct (map fst m)"

section \<open>Lemmas\<close>

lemma bindR_simps [simp]:
  "bindR (Inl e) f = Inl e"
  "bindR (Inr x) f = f x"
  by (simp_all add: bindR_def)

lemma bindR_Inr_iff [result_simps]:
  "bindR m f = Inr y \<longleftrightarrow> (\<exists>x. m = Inr x \<and> f x = Inr y)"
  by (cases m) auto

lemma bindR_unit_iff: "bindR (m :: unit result) f = Inr y \<longleftrightarrow> m = Inr () \<and> f () = Inr y"
  by (cases m) auto

lemma bindR_Inl_iff [result_simps]:
  "bindR m f = Inl e \<longleftrightarrow> m = Inl e \<or> (\<exists>x. m = Inr x \<and> f x = Inl e)"
  by (cases m) auto

lemma ensure_Inr_iff [result_simps]: "ensure b e = Inr u \<longleftrightarrow> b"
  by (simp add: ensure_def)

lemma ensure_Inl_iff [result_simps]: "ensure b e = Inl e' \<longleftrightarrow> \<not> b \<and> e' = e"
  by (auto simp: ensure_def)

lemma option_case_Inr_iff [result_simps]:
  "(case x of None \<Rightarrow> Inl err | Some v \<Rightarrow> f v) = Inr y \<longleftrightarrow> (\<exists>v. x = Some v \<and> f v = Inr y)"
  by (cases x) auto

lemma ensure_simps [simp]: "ensure True e = Inr ()" "ensure False e = Inl e"
  by (simp_all add: ensure_def)

lemma is_panic_bindR: "is_panic (bindR m f) \<longleftrightarrow> is_panic m \<or> (\<exists>x. m = Inr x \<and> is_panic (f x))"
  by (cases m) (auto simp: is_panic_def)

lemma is_panic_simps [simp]:
  "\<not> is_panic (Inr x)" "\<not> is_panic (Inl (NotAllowed s))" "\<not> is_panic (Inl (Error s))"
  "is_panic (Inl (Panic s))" "is_panic (ensure b err) \<longleftrightarrow> \<not> b \<and> (\<exists>s. err = Panic s)"
  by (auto simp: is_panic_def ensure_def split: go_error.splits)

lemma bindR_assoc: "bindR (bindR m f) g = bindR m (\<lambda>x. bindR (f x) g)"
  by (cases m) auto

lemma foldR_append: "foldR f (xs @ ys) s = bindR (foldR f xs s) (foldR f ys)"
  by (induction xs arbitrary: s) (simp_all add: bindR_def split: sum.split)

lemma foldR_refine:
  "(\<And>x s. x \<in> set xs \<Longrightarrow> P s \<Longrightarrow> \<exists>s'. f x s = Inr s' \<and> P s' \<and> ab s' = g x (ab s)) \<Longrightarrow> P s \<Longrightarrow>
    \<exists>s'. foldR f xs s = Inr s' \<and> P s' \<and> ab s' = fold g xs (ab s)"
proof (induction xs arbitrary: s)
  case (Cons x xs)
  then obtain s1 where "f x s = Inr s1" "P s1" "ab s1 = g x (ab s)" by (metis list.set_intros(1))
  with Cons.IH [of s1] Cons.prems(1) show ?case by simp
qed simp

lemma wrap64_id [simp]: "in_int64 x \<Longrightarrow> wrap64 x = x"
  by (simp add: wrap64_def in_int64_def)

lemma wrap64_range: "in_int64 (wrap64 x)"
  by (simp add: wrap64_def in_int64_def)

lemma splitN2_two_iff:
  "splitN2 c s = [l, r] \<longleftrightarrow> s = l @ c # r \<and> c \<notin> set l"
proof
  assume two: "splitN2 c s = [l, r]"
  then obtain x where dw: "dropWhile (\<lambda>x. x \<noteq> c) s = x # r"
    and tw: "l = takeWhile (\<lambda>x. x \<noteq> c) s"
    by (auto simp: splitN2_def split: list.splits)
  from dw have "x = c" using hd_dropWhile [of "\<lambda>x. x \<noteq> c" s] by simp
  moreover have "s = l @ x # r"
    using takeWhile_dropWhile_id [of "\<lambda>x. x \<noteq> c" s] dw tw by simp
  moreover have "c \<notin> set l" using tw by (auto dest: set_takeWhileD)
  ultimately show "s = l @ c # r \<and> c \<notin> set l" by simp
next
  assume s: "s = l @ c # r \<and> c \<notin> set l"
  then have "dropWhile (\<lambda>x. x \<noteq> c) s = c # r"
    and "takeWhile (\<lambda>x. x \<noteq> c) s = l"
    by (auto simp: dropWhile_append takeWhile_append)
  then show "splitN2 c s = [l, r]" by (simp add: splitN2_def)
qed

lemma splitN2_length: "length (splitN2 c s) = 1 \<or> length (splitN2 c s) = 2"
  by (simp add: splitN2_def split: list.splits)

lemma map_of_store [map_simps, simp]:
  "map_of (store k v m) k' = (if k' = k then Some v else map_of m k')"
  by (induction k v m rule: store.induct) auto

lemma map_of_remove [map_simps, simp]:
  "map_of (remove k m) k' = (if k' = k then None else map_of m k')"
  by (induction m) (auto simp: remove_def)

lemma set_fst_store: "fst ` set (store k v m) = insert k (fst ` set m)"
  by (induction k v m rule: store.induct) auto

lemma set_fst_remove: "fst ` set (remove k m) = fst ` set m - {k}"
  by (auto simp: remove_def)

lemma smap_ok_Nil [simp]: "smap_ok []"
  by (simp add: smap_ok_def)

lemma smap_ok_store [simp, intro]: "smap_ok m \<Longrightarrow> smap_ok (store k v m)"
proof (induction k v m rule: store.induct)
  case (1 k v)
  then show ?case by (simp add: smap_ok_def)
next
  case (2 k v k' v' m)
  then show ?case using set_fst_store [of k v m] by (auto simp: smap_ok_def)
qed

lemma smap_ok_remove [simp, intro]: "smap_ok m \<Longrightarrow> smap_ok (remove k m)"
  by (simp add: smap_ok_def remove_def distinct_map_filter)

lemma remove_absent [simp]: "map_of m k = None \<Longrightarrow> remove k m = m"
  by (auto simp: remove_def map_of_eq_None_iff filter_id_conv)

lemma store_absent: "map_of m k = None \<Longrightarrow> store k v m = m @ [(k, v)]"
  by (induction k v m rule: store.induct) (auto split: if_splits)

end
