(* ===== verification/Snowflake.thy ===== *)
theory Snowflake
  imports Prelude
begin

unbundle bit_operations_syntax

text \<open>
  The generator of 64-bit identifiers (\<open>src/common/uid/snowflake.go\<close>). The state is the Go
  struct; the wall clock is an argument: the list of nanosecond readings that
  \<open>time.Now().UnixNano()\<close> returns during one call of \<open>Next\<close>. A call that has not returned
  when the readings are used up is \<open>None\<close>, so that the busy-wait of the code is a recursion
  over the readings. Shown here: the range invariant, the numeric value of an identifier, that
  identifiers of a run are pairwise different as long as an exhausted millisecond is left
  before the next identifier, that this proviso is not met by the code's wait loop, and
  that a call returns after at most three increasing readings.
\<close>

section \<open>Model\<close>

definition BaseTs :: int where
  "BaseTs = 1530687318000"

definition SeqLen :: nat where
  "SeqLen = 12"

definition WorkerLen :: nat where
  "WorkerLen = 10"

definition SeqMask :: int where
  "SeqMask = 2 ^ SeqLen - 1"

definition TsShift :: nat where
  "TsShift = SeqLen + WorkerLen"

definition SeqShift :: nat where
  "SeqShift = WorkerLen"

definition MaxWorkId :: int where
  "MaxWorkId = 2 ^ WorkerLen - 1"

record UidGenerator =
  idStart :: int
  idEnd :: int
  idCur :: int
  lastTs :: int
  seq :: int

definition NewIdGenerator :: "int \<Rightarrow> int \<Rightarrow> UidGenerator result" where
  "NewIdGenerator start e =
     (if start > MaxWorkId \<or> start < 0 \<or> e > MaxWorkId \<or> e < 0 \<or> start > e
      then Inl (Panic ''wrong para'')
      else Inr \<lparr>idStart = start, idEnd = e, idCur = start, lastTs = -1, seq = 0\<rparr>)"

definition NewDefaultIdGenerator :: "int \<Rightarrow> UidGenerator result" where
  "NewDefaultIdGenerator instanceID =
     (let start = (if instanceID \<noteq> -1 then instanceID else 0);
          e = (if instanceID \<noteq> -1 then instanceID else 0)
      in if start > MaxWorkId \<or> start < 0 \<or> e > MaxWorkId \<or> e < 0 \<or> start > e
         then Inl (Panic ''wrong para'')
         else Inr \<lparr>idStart = start, idEnd = e, idCur = start, lastTs = -1, seq = 0\<rparr>)"

definition getMs :: "int \<Rightarrow> int" where
  "getMs ns = ns sdiv 1000000"

text \<open>The first reading; after a sleep, if the clock went back, the second one.\<close>

definition read_now :: "UidGenerator \<Rightarrow> int list \<Rightarrow> (int \<times> int list) option" where
  "read_now g clk =
     (case clk of
        [] \<Rightarrow> None
      | n # r \<Rightarrow>
          (if getMs n < lastTs g
           then (case r of [] \<Rightarrow> None | n2 # r2 \<Rightarrow> Some (getMs n2, r2))
           else Some (getMs n, r)))"

text \<open>The loop that waits for the next slot.\<close>

fun wait_slot :: "int \<Rightarrow> int list \<Rightarrow> (int \<times> int list) option" where
  "wait_slot cur [] = None"
| "wait_slot cur (n # r) = (if n > cur then Some (n sdiv 1000000, r) else wait_slot cur r)"

definition mk_id :: "int \<Rightarrow> int \<Rightarrow> int \<Rightarrow> 64 word" where
  "mk_id now sq w =
     push_bit TsShift (word_of_int (now - BaseTs)) OR push_bit SeqShift (word_of_int sq)
       OR word_of_int w"

definition emit :: "int \<Rightarrow> UidGenerator \<Rightarrow> int list \<Rightarrow> int \<times> UidGenerator \<times> int list" where
  "emit now g r = (sint (mk_id now (seq g) (idCur g)), g\<lparr>lastTs := now\<rparr>, r)"

definition Next :: "UidGenerator \<Rightarrow> int list \<Rightarrow> (int \<times> UidGenerator \<times> int list) option" where
  "Next g clk =
     (case read_now g clk of
        None \<Rightarrow> None
      | Some (now, r) \<Rightarrow>
          (if now = lastTs g then
             (let sq = (seq g + 1) smod SeqMask in
              if sq = 0 then
                (if idCur g < idEnd g
                 then Some (emit now (g\<lparr>seq := sq, idCur := idCur g + 1\<rparr>) r)
                 else (case wait_slot (wrap64 (lastTs g * 1000000)) r of
                         None \<Rightarrow> None
                       | Some (now', r') \<Rightarrow>
                           Some (emit now' (g\<lparr>seq := 0, idCur := idStart g\<rparr>) r')))
              else Some (emit now (g\<lparr>seq := sq\<rparr>) r))
           else Some (emit now (g\<lparr>seq := 0, idCur := idStart g\<rparr>) r)))"

text \<open>A run: one list of readings per call.\<close>

fun uid_run :: "UidGenerator \<Rightarrow> int list list \<Rightarrow> (int list \<times> UidGenerator) option" where
  "uid_run g [] = Some ([], g)"
| "uid_run g (c # cs) =
     (case Next g c of
        None \<Rightarrow> None
      | Some (i, g', _) \<Rightarrow>
          (case uid_run g' cs of None \<Rightarrow> None | Some (ids, h) \<Rightarrow> Some (i # ids, h)))"

section \<open>Invariant and proviso\<close>

definition uid_inv :: "UidGenerator \<Rightarrow> bool" where
  "uid_inv g \<longleftrightarrow> 0 \<le> idStart g \<and> idStart g \<le> idCur g \<and> idCur g \<le> idEnd g \<and>
     idEnd g \<le> MaxWorkId \<and> 0 \<le> seq g \<and> seq g < SeqMask"

definition slot_exhausted :: "UidGenerator \<Rightarrow> bool" where
  "slot_exhausted g \<longleftrightarrow> seq g = SeqMask - 1 \<and> idCur g = idEnd g"

text \<open>
  Every call uses a millisecond in the range of an identifier that is not before the last
  one, and leaves an exhausted one.
\<close>

fun calls_fresh :: "UidGenerator \<Rightarrow> int list list \<Rightarrow> bool" where
  "calls_fresh g [] = True"
| "calls_fresh g (c # cs) =
     (case Next g c of
        None \<Rightarrow> False
      | Some (_, g', _) \<Rightarrow>
          lastTs g \<le> lastTs g' \<and> 0 \<le> lastTs g' - BaseTs \<and> lastTs g' - BaseTs < 2 ^ 41 \<and>
          \<not> (slot_exhausted g \<and> lastTs g' = lastTs g) \<and> calls_fresh g' cs)"

text \<open>The position of a generator: identifiers are handed out in the order of this key.\<close>

definition uid_pos :: "UidGenerator \<Rightarrow> int" where
  "uid_pos g = (lastTs g - BaseTs) * 2 ^ 22 + idCur g * 2 ^ 12 + seq g"

definition in_range :: "UidGenerator \<Rightarrow> bool" where
  "in_range g \<longleftrightarrow> 0 \<le> lastTs g - BaseTs \<and> lastTs g - BaseTs < 2 ^ 41"

definition uid_of :: "UidGenerator \<Rightarrow> int" where
  "uid_of g = sint (mk_id (lastTs g) (seq g) (idCur g))"

section \<open>Lemmas\<close>

lemmas uid_consts = SeqMask_def MaxWorkId_def SeqLen_def WorkerLen_def

lemma getMs_nonneg: "0 \<le> n \<Longrightarrow> getMs n = n div 1000000"
  by (cases "n = 0") (simp_all add: getMs_def signed_divide_int_def sgn_mult)

lemma seq_step: "0 \<le> s \<Longrightarrow> s < SeqMask \<Longrightarrow>
  (s + 1) smod SeqMask = (if s = SeqMask - 1 then 0 else s + 1)"
  by (auto simp: signed_modulo_int_def signed_divide_int_def uid_consts sgn_if)

lemma wait_slot_Some:
  "wait_slot cur r = Some (m, r') \<Longrightarrow> \<exists>n \<in> set r. cur < n \<and> m = n sdiv 1000000"
  by (induction cur r rule: wait_slot.induct) (auto split: if_splits)

lemma wait_slot_total: "n \<in> set r \<Longrightarrow> cur < n \<Longrightarrow> \<exists>x. wait_slot cur r = Some x"
  by (induction cur r rule: wait_slot.induct) auto

text \<open>One call, as the three ways it can move the generator.\<close>

lemma Next_cases:
  assumes "Next g clk = Some (i, g', r')" and inv: "uid_inv g"
  obtains
    (same) "g' = g\<lparr>seq := seq g + 1\<rparr>" "seq g < SeqMask - 1"
  | (worker) "g' = g\<lparr>seq := 0, idCur := idCur g + 1\<rparr>" "seq g = SeqMask - 1" "idCur g < idEnd g"
  | (slot) ts where "g' = g\<lparr>seq := 0, idCur := idStart g, lastTs := ts\<rparr>"
      "ts = lastTs g \<longrightarrow> slot_exhausted g"
proof -
  from assms obtain now r where rd: "read_now g clk = Some (now, r)"
    by (auto simp: Next_def split: option.splits)
  from inv have sq: "(seq g + 1) smod SeqMask = (if seq g = SeqMask - 1 then 0 else seq g + 1)"
    by (simp add: uid_inv_def seq_step)
  show thesis
  proof (cases "now = lastTs g")
    case False
    with assms(1) rd have "g' = g\<lparr>seq := 0, idCur := idStart g, lastTs := now\<rparr>"
      by (simp add: Next_def emit_def)
    with False slot show thesis by blast
  next
    case True
    show thesis
    proof (cases "seq g = SeqMask - 1")
      case wrapped: True
      show thesis
      proof (cases "idCur g < idEnd g")
        case True
        with assms(1) rd \<open>now = lastTs g\<close> wrapped sq worker show thesis
          by (simp add: Next_def emit_def Let_def)
      next
        case False
        with assms(1) rd \<open>now = lastTs g\<close> wrapped sq obtain ts where
          "g' = g\<lparr>seq := 0, idCur := idStart g, lastTs := ts\<rparr>"
          by (auto simp: Next_def emit_def Let_def split: option.splits)
        moreover from False inv wrapped have "slot_exhausted g"
          by (simp add: slot_exhausted_def uid_inv_def)
        ultimately show thesis using slot by blast
      qed
    next
      case False
      moreover from inv have "seq g + 1 \<noteq> 0" by (simp add: uid_inv_def)
      ultimately show thesis
        using assms(1) rd True sq same inv by (simp add: Next_def emit_def Let_def uid_inv_def)
    qed
  qed
qed

lemma Next_id:
  "Next g clk = Some (i, g', r') \<Longrightarrow> i = sint (mk_id (lastTs g') (seq g') (idCur g'))"
  by (auto simp: Next_def emit_def Let_def split: option.splits if_splits)

lemma Next_inv: "Next g clk = Some (i, g', r') \<Longrightarrow> uid_inv g \<Longrightarrow> uid_inv g'"
  by (erule Next_cases) (auto simp: uid_inv_def uid_consts)

lemma or_shift:
  fixes x w :: int
  assumes "0 \<le> w" "w < 2 ^ k"
  shows "push_bit k x OR w = x * 2 ^ k + w"
proof -
  have tb: "take_bit k w = w" using assms by (simp add: take_bit_int_eq_self)
  have "push_bit k x AND w = 0"
    by (subst tb [symmetric]) (auto simp: bit_eq_iff bit_simps)
  then have "push_bit k x + w = push_bit k x OR w" by (rule disjunctive_add_eq_or)
  then show ?thesis by (simp add: push_bit_eq_mult)
qed

lemma mk_id_uint:
  assumes "0 \<le> sq" "sq < 2 ^ 12" "0 \<le> w" "w < 2 ^ 10"
  shows "mk_id now sq w = word_of_int ((now - BaseTs) * 2 ^ 22 + sq * 2 ^ 10 + w)"
proof -
  have in1: "push_bit 10 sq OR w = sq * 2 ^ 10 + w"
    using assms by (intro or_shift)
  have in2: "push_bit 22 (now - BaseTs) OR (sq * 2 ^ 10 + w)
      = (now - BaseTs) * 2 ^ 22 + (sq * 2 ^ 10 + w)"
    using assms by (intro or_shift) auto
  have "mk_id now sq w = word_of_int (push_bit 22 (now - BaseTs) OR (push_bit 10 sq OR w))"
    by (simp add: mk_id_def TsShift_def SeqShift_def SeqLen_def WorkerLen_def
        of_int_or_eq push_bit_of_int or.assoc del: of_int_diff)
  also have "\<dots> = word_of_int ((now - BaseTs) * 2 ^ 22 + (sq * 2 ^ 10 + w))"
    by (simp only: in1 in2)
  finally show ?thesis by (simp add: algebra_simps)
qed

lemma sint_small: "0 \<le> v \<Longrightarrow> v < 2 ^ 63 \<Longrightarrow> sint (word_of_int v :: 64 word) = v"
  by (simp add: int_word_sint)

lemma mk_id_sint:
  assumes "0 \<le> sq" "sq < 2 ^ 12" "0 \<le> w" "w < 2 ^ 10"
    and "0 \<le> now - BaseTs" "now - BaseTs < 2 ^ 41"
  shows "sint (mk_id now sq w) = (now - BaseTs) * 2 ^ 22 + sq * 2 ^ 10 + w"
proof -
  have "(now - BaseTs) * 2 ^ 22 + sq * 2 ^ 10 + w < 2 ^ 63" using assms by simp
  moreover have "0 \<le> (now - BaseTs) * 2 ^ 22 + sq * 2 ^ 10 + w" using assms by simp
  ultimately show ?thesis
    unfolding mk_id_uint [OF assms(1-4)] by (intro sint_small)
qed

lemma uid_pos_mono:
  assumes "Next g clk = Some (i, g', r')" "uid_inv g" "lastTs g \<le> lastTs g'"
    "\<not> (slot_exhausted g \<and> lastTs g' = lastTs g)"
  shows "uid_pos g < uid_pos g'"
  using assms(1,2)
proof (cases rule: Next_cases)
  case same
  then show ?thesis by (simp add: uid_pos_def)
next
  case worker
  then show ?thesis by (simp add: uid_pos_def uid_consts)
next
  case (slot ts)
  with assms have "lastTs g < ts" by auto
  then have "(lastTs g - BaseTs + 1) * 2 ^ 22 \<le> (ts - BaseTs) * 2 ^ 22" by simp
  moreover from assms(2) have "idCur g * 2 ^ 12 + seq g < 2 ^ 22" "0 \<le> idStart g"
    by (simp_all add: uid_inv_def uid_consts)
  ultimately show ?thesis using slot(1) by (simp add: uid_pos_def)
qed

lemma radix_unique:
  fixes m :: int
  assumes "0 \<le> r" "r < m" "0 \<le> r'" "r' < m" "q * m + r = q' * m + r'"
  shows "q = q' \<and> r = r'"
proof -
  have "(q * m + r) div m = q" "(q' * m + r') div m = q'" using assms(1-4) by simp_all
  with assms(5) have "q = q'" by simp
  with assms(5) show ?thesis by simp
qed

lemma uid_pos_inj:
  assumes "uid_inv g" "uid_inv h" "mk_id (lastTs g) (seq g) (idCur g) = mk_id (lastTs h) (seq h) (idCur h)"
    "0 \<le> lastTs g - BaseTs" "lastTs g - BaseTs < 2 ^ 41"
    "0 \<le> lastTs h - BaseTs" "lastTs h - BaseTs < 2 ^ 41"
  shows "uid_pos g = uid_pos h"
proof -
  have v: "(lastTs g - BaseTs) * 2 ^ 22 + seq g * 2 ^ 10 + idCur g
    = (lastTs h - BaseTs) * 2 ^ 22 + seq h * 2 ^ 10 + idCur h"
    using assms mk_id_sint [of "seq g" "idCur g" "lastTs g"]
      mk_id_sint [of "seq h" "idCur h" "lastTs h"]
    by (simp add: uid_inv_def uid_consts)
  have "((lastTs g - BaseTs) * 2 ^ 12 + seq g) = (lastTs h - BaseTs) * 2 ^ 12 + seq h
    \<and> idCur g = idCur h"
    using assms(1,2) v
    by (intro radix_unique [where m = "2 ^ 10"]) (simp_all add: uid_inv_def uid_consts)
  moreover from this have "lastTs g - BaseTs = lastTs h - BaseTs \<and> seq g = seq h"
    using assms(1,2)
    by (intro radix_unique [where m = "2 ^ 12"]) (simp_all add: uid_inv_def uid_consts)
  ultimately show ?thesis by (simp add: uid_pos_def)
qed
lemma uid_of_eq:
  "uid_inv g \<Longrightarrow> uid_inv h \<Longrightarrow> in_range g \<Longrightarrow> in_range h \<Longrightarrow> uid_of g = uid_of h \<Longrightarrow> uid_pos g = uid_pos h"
  by (auto simp: uid_of_def in_range_def simp flip: word_eq_iff_signed intro: uid_pos_inj)

lemma uid_run_later:
  assumes "uid_run g cs = Some (ids, h)" "uid_inv g" "calls_fresh g cs" "i \<in> set ids"
  shows "\<exists>k. uid_inv k \<and> in_range k \<and> uid_pos g < uid_pos k \<and> i = uid_of k"
  using assms
proof (induction g cs arbitrary: ids rule: uid_run.induct)
  case (1 g)
  then show ?case by simp
next
  case (2 g c cs)
  then obtain j g' r js where n: "Next g c = Some (j, g', r)"
    and run: "uid_run g' cs = Some (js, h)" and ids_eq: "ids = j # js"
    by (auto split: option.splits)
  from n 2 have fr: "in_range g'" "calls_fresh g' cs" "uid_pos g < uid_pos g'"
    by (auto simp: in_range_def intro: uid_pos_mono)
  have inv: "uid_inv g'" using n 2 by (auto intro: Next_inv)
  show ?case
  proof (cases "i = j")
    case True
    with Next_id [OF n] inv fr show ?thesis by (auto simp: uid_of_def)
  next
    case False
    with 2 n run inv fr ids_eq obtain k where "uid_inv k" "in_range k" "uid_pos g' < uid_pos k" "i = uid_of k"
      by fastforce
    with fr show ?thesis by (blast intro: less_trans)
  qed
qed

text \<open>
  C37. The identifiers of a run are pairwise different, provided no call uses a millisecond before
  the last one, and none hands out an identifier of a millisecond whose sequence numbers and
  worker ids are used up.
\<close>

theorem uid_run_distinct:
  assumes "uid_inv g" "calls_fresh g cs" "uid_run g cs = Some (ids, h)"
  shows "distinct ids"
  using assms
proof (induction g cs arbitrary: ids rule: uid_run.induct)
  case (1 g)
  then show ?case by simp
next
  case (2 g c cs)
  then obtain j g' r js where n: "Next g c = Some (j, g', r)"
    and run: "uid_run g' cs = Some (js, h)" and ids_eq: "ids = j # js"
    by (auto split: option.splits)
  with 2 have g': "uid_inv g'" "in_range g'" "calls_fresh g' cs" "j = uid_of g'"
    using Next_id [OF n] by (auto simp: in_range_def uid_of_def intro: Next_inv)
  have "j \<notin> set js"
  proof
    assume "j \<in> set js"
    from uid_run_later [OF run g'(1,3) this] obtain k where
      "uid_inv k" "in_range k" "uid_pos g' < uid_pos k" "j = uid_of k" by blast
    with g' uid_of_eq [of g' k] show False by simp
  qed
  moreover have "distinct js" using 2 n run g' by auto
  ultimately show ?case using ids_eq by simp
qed

lemma Next_same_ms:
  assumes "uid_inv g" "getMs n = lastTs g" "seq g < SeqMask - 1"
  shows "Next g [n] = Some (uid_of (g\<lparr>seq := seq g + 1\<rparr>), g\<lparr>seq := seq g + 1\<rparr>, [])"
  using assms
  by (simp add: Next_def read_now_def emit_def uid_of_def seq_step uid_inv_def Let_def)

lemma Next_new_ms:
  assumes "lastTs g < getMs n"
  shows "Next g [n] = Some (uid_of (g\<lparr>seq := 0, idCur := idStart g, lastTs := getMs n\<rparr>),
    g\<lparr>seq := 0, idCur := idStart g, lastTs := getMs n\<rparr>, [])"
  using assms by (simp add: Next_def read_now_def emit_def uid_of_def)

lemma uid_run_append:
  "uid_run g (cs @ ds) = (case uid_run g cs of None \<Rightarrow> None | Some (ids, h) \<Rightarrow>
     (case uid_run h ds of None \<Rightarrow> None | Some (jds, k) \<Rightarrow> Some (ids @ jds, k)))"
  by (induction g cs rule: uid_run.induct) (auto split: option.splits)

lemma uid_run_same_ms:
  assumes "uid_inv g" "getMs n = lastTs g" "seq g + int k \<le> SeqMask - 1"
  shows "\<exists>ids. uid_run g (replicate k [n]) = Some (ids, g\<lparr>seq := seq g + int k\<rparr>)"
  using assms
proof (induction k arbitrary: g)
  case 0
  then show ?case by simp
next
  case (Suc k)
  let ?g = "g\<lparr>seq := seq g + 1\<rparr>"
  have inv: "uid_inv ?g" using Suc.prems by (simp add: uid_inv_def)
  then obtain ids where "uid_run ?g (replicate k [n]) = Some (ids, ?g\<lparr>seq := seq ?g + int k\<rparr>)"
    using Suc.IH [of ?g] Suc.prems by auto
  then show ?case using Suc.prems by (simp add: Next_same_ms algebra_simps)
qed

lemma uid_run_length: "uid_run g cs = Some (ids, h) \<Longrightarrow> length ids = length cs"
  by (induction g cs arbitrary: ids rule: uid_run.induct) (auto split: option.splits)

lemma uid_run_exhaust:
  assumes "uid_inv g" "idStart g = idEnd g" "lastTs g < getMs n" "in_int64 (getMs n * 1000000)"
    "getMs n' = getMs n" "getMs n * 1000000 < n'" "int k = SeqMask - 1"
  shows "\<exists>i ids h. uid_run g ([n] # replicate k [n] @ [[n, n']]) = Some (i # ids @ [i], h)"
proof -
  let ?g0 = "g\<lparr>seq := 0, idCur := idStart g, lastTs := getMs n\<rparr>"
  have inv: "uid_inv ?g0" using assms(1) by (simp add: uid_inv_def)
  then obtain ids where run: "uid_run ?g0 (replicate k [n]) = Some (ids, ?g0\<lparr>seq := SeqMask - 1\<rparr>)"
    using uid_run_same_ms [OF inv, of n k] assms(7) by auto
  have "Next (?g0\<lparr>seq := SeqMask - 1\<rparr>) [n, n'] = Some (uid_of ?g0, ?g0, [])"
    using assms(1-6)
    by (simp add: Next_def read_now_def emit_def uid_of_def getMs_def signed_modulo_int_def)
  then have "uid_run g ([n] # replicate k [n] @ [[n, n']])
      = Some (uid_of ?g0 # ids @ [uid_of ?g0], ?g0)"
    using run Next_new_ms [OF assms(3)] by (simp add: uid_run_append)
  then show ?thesis by blast
qed

text \<open>
  C38. The proviso is needed and the code does not establish it: the loop that is to wait for the
  next slot compares nanoseconds with the start of the current millisecond, so it can end within
  that same millisecond. A generator with one worker id that is called 4096 times within one
  millisecond returns the first identifier of that millisecond again.
\<close>

theorem uid_slot_reuse:
  assumes "uid_inv g" "idStart g = idEnd g" "lastTs g < getMs n" "in_int64 (getMs n * 1000000)"
    "getMs n' = getMs n" "getMs n * 1000000 < n'"
  shows "\<exists>i ids h. uid_run g ([n] # replicate 4094 [n] @ [[n, n']]) = Some (i # ids @ [i], h)"
  using assms by (intro uid_run_exhaust) (simp_all add: uid_consts)

lemma Next_total:
  assumes "read_now g clk = Some (now, r)"
    and "now = lastTs g \<Longrightarrow> \<exists>m r'. wait_slot (wrap64 (lastTs g * 1000000)) r = Some (m, r')"
  shows "\<exists>i g' r'. Next g clk = Some (i, g', r')"
proof (cases "now = lastTs g")
  case True
  with assms obtain m r' where "wait_slot (wrap64 (lastTs g * 1000000)) r = Some (m, r')" by blast
  with assms(1) show ?thesis by (simp add: Next_def Let_def emit_def)
next
  case False
  with assms(1) show ?thesis by (simp add: Next_def emit_def)
qed

text \<open>
  C39. A call returns: three strictly increasing clock readings are enough, whatever the state of
  the generator, so neither the sleep nor the wait loop can hang on an advancing clock.
\<close>

theorem Next_returns:
  assumes "sorted_wrt (<) clk" "3 \<le> length clk" "\<forall>n \<in> set clk. 0 \<le> n"
    "in_int64 (lastTs g * 1000000)"
  shows "\<exists>i g' r. Next g clk = Some (i, g', r)"
proof -
  from assms(2) obtain a b c r where clk: "clk = a # b # c # r"
    by (metis Suc_le_length_iff numeral_3_eq_3)
  have wait: "\<exists>m r'. wait_slot (lastTs g * 1000000) (y # ys) = Some (m, r')"
    if "getMs x = lastTs g" "x < y" "0 \<le> x" for x y ys
    using that wait_slot_total [of y "y # ys" "lastTs g * 1000000"] by (auto simp: getMs_nonneg)
  show ?thesis
  proof (cases "getMs a < lastTs g")
    case True
    then have "read_now g clk = Some (getMs b, c # r)" by (simp add: read_now_def clk)
    then show ?thesis using wait [of b c r] assms clk by (intro Next_total) auto
  next
    case False
    then have "read_now g clk = Some (getMs a, b # c # r)" by (simp add: read_now_def clk)
    then show ?thesis using wait [of a b "c # r"] assms clk by (intro Next_total) auto
  qed
qed
text \<open>
  The identifier a call returns is, read as a signed 64-bit number, the millisecond since the
  epoch, the sequence number and the worker id side by side (42, 12 and 10 bits); it is not
  negative, and the generator stays within its worker range.
\<close>

theorem Next_id_value:
  assumes "uid_inv g" "Next g clk = Some (i, g', r)"
    "0 \<le> lastTs g' - BaseTs" "lastTs g' - BaseTs < 2 ^ 41"
  shows "i = (lastTs g' - BaseTs) * 2 ^ 22 + seq g' * 2 ^ 10 + idCur g' \<and> 0 \<le> i \<and> uid_inv g'"
proof -
  have inv: "uid_inv g'" using assms by (blast intro: Next_inv)
  then have "sint (mk_id (lastTs g') (seq g') (idCur g'))
      = (lastTs g' - BaseTs) * 2 ^ 22 + seq g' * 2 ^ 10 + idCur g'"
    using assms(3,4) by (intro mk_id_sint) (simp_all add: uid_inv_def uid_consts)
  with Next_id [OF assms(2)]
  have i: "i = (lastTs g' - BaseTs) * 2 ^ 22 + seq g' * 2 ^ 10 + idCur g'" by simp
  moreover have "0 \<le> seq g'" "0 \<le> idCur g'" using inv by (simp_all add: uid_inv_def)
  ultimately show ?thesis using inv assms(3) by simp
qed

section \<open>Witnesses\<close>

lemmas uid_eval = uid_inv_def in_int64_def wrap64_def getMs_def read_now_def emit_def Next_def
  Let_def BaseTs_def uid_consts slot_exhausted_def signed_divide_int_def signed_modulo_int_def

theorem uid_run_distinct_witness:
  "\<exists>ids h. uid_run \<lparr>idStart = 3, idEnd = 3, idCur = 3, lastTs = -1, seq = 0\<rparr>
      [[1600000000000000000], [1600000000000000001]] = Some (ids, h) \<and> distinct ids"
proof -
  let ?g = "\<lparr>idStart = 3, idEnd = 3, idCur = 3, lastTs = -1, seq = 0\<rparr>"
  let ?cs = "[[1600000000000000000], [1600000000000000001 :: int]]"
  have "uid_inv ?g" and fresh: "calls_fresh ?g ?cs"
    by (simp_all add: uid_eval)
  moreover obtain ids h where "uid_run ?g ?cs = Some (ids, h)"
    using fresh by (auto split: option.splits)
  ultimately show ?thesis using uid_run_distinct by blast
qed

theorem uid_slot_reuse_witness:
  "\<exists>i ids h. uid_run \<lparr>idStart = 3, idEnd = 3, idCur = 3, lastTs = -1, seq = 0\<rparr>
      ([1600000000000000000] # replicate 4094 [1600000000000000000]
        @ [[1600000000000000000, 1600000000000000001]]) = Some (i # ids @ [i], h)"
  by (rule uid_slot_reuse) (simp_all add: uid_eval)

theorem Next_returns_witness:
  "\<exists>i g' r. Next \<lparr>idStart = 3, idEnd = 3, idCur = 3, lastTs = 1600000000000, seq = 4094\<rparr>
      [1600000000000000000, 1600000000000000001, 1600000000000000002] = Some (i, g', r)"
  by (rule Next_returns) (simp_all add: uid_eval)

theorem Next_id_value_witness:
  "\<exists>i g' r. Next \<lparr>idStart = 3, idEnd = 3, idCur = 3, lastTs = -1, seq = 0\<rparr> [1600000000000000000]
      = Some (i, g', r) \<and>
    i = (lastTs g' - BaseTs) * 2 ^ 22 + seq g' * 2 ^ 10 + idCur g' \<and> 0 \<le> i \<and> uid_inv g'"
proof -
  let ?g = "\<lparr>idStart = 3, idEnd = 3, idCur = 3, lastTs = -1, seq = 0\<rparr>"
  obtain i g' r where n: "Next ?g [1600000000000000000] = Some (i, g', r)"
    and ts: "lastTs g' = 1600000000000"
    by (simp add: uid_eval)
  have "uid_inv ?g" by (simp add: uid_eval)
  from Next_id_value [OF this n] ts n show ?thesis by (simp add: BaseTs_def)
qed

end
