(* ===== verification/Compact_JSON.thy ===== *)
theory Compact_JSON
  imports Prelude
begin

text \<open>
  The first half of canonical JSON (\<open>skunkworks/gomatrixserverlib/json.go\<close>): removing whitespace
  and unneeded escapes from a text. Bytes are characters. The reading of four hexadecimal digits
  with word-wide bit operations is proved equal to the value of the digits; the two nested loops of
  \<open>CompactJSON\<close> are compared with a tokeniser that says what a JSON text means.
\<close>

unbundle bit_operations_syntax

section \<open>Specification\<close>

subsection \<open>Four hexadecimal digits\<close>

text \<open>\<open>binary.BigEndian.Uint32\<close> of the first four bytes of a slice.\<close>

definition BigEndian_Uint32 :: "string \<Rightarrow> 32 word" where
  "BigEndian_Uint32 b =
     of_char (b ! 3) OR push_bit 8 (of_char (b ! 2)) OR push_bit 16 (of_char (b ! 1))
       OR push_bit 24 (of_char (b ! 0))"

text \<open>Read 4 hex digits from the input slice, all of them at once.\<close>

definition readHexDigits :: "string \<Rightarrow> 32 word" where
  "readHexDigits input =
     (let hex = BigEndian_Uint32 input;
          hex = hex - 0x30303030;
          hex = hex AND 0x1F1F1F1F;
          mask = hex AND 0x10101010;
          hex = hex - drop_bit 1 mask;
          hex = hex + drop_bit 4 mask;
          hex = hex OR drop_bit 4 hex;
          hex = hex AND 0xFF00FF;
          hex = hex OR drop_bit 8 hex
      in hex AND 0xFFFF)"

text \<open>The reference: the value of one digit, and of four.\<close>

definition hex_digit :: "char \<Rightarrow> nat option" where
  "hex_digit c = (let n = of_char c in
     if 0x30 \<le> n \<and> n \<le> 0x39 then Some (n - 0x30)
     else if 0x41 \<le> n \<and> n \<le> 0x46 then Some (n - 0x37)
     else if 0x61 \<le> n \<and> n \<le> 0x66 then Some (n - 0x57)
     else None)"

definition hex_value :: "char \<Rightarrow> char \<Rightarrow> char \<Rightarrow> char \<Rightarrow> nat option" where
  "hex_value b0 b1 b2 b3 =
     (case (hex_digit b0, hex_digit b1, hex_digit b2, hex_digit b3) of
        (Some d0, Some d1, Some d2, Some d3) \<Rightarrow> Some (((d0 * 16 + d1) * 16 + d2) * 16 + d3)
      | _ \<Rightarrow> None)"

text \<open>Four bytes side by side in a word.\<close>

definition pack :: "8 word \<Rightarrow> 8 word \<Rightarrow> 8 word \<Rightarrow> 8 word \<Rightarrow> 32 word" where
  "pack a b c d = ucast d OR push_bit 8 (ucast c) OR push_bit 16 (ucast b) OR push_bit 24 (ucast a)"

subsection \<open>Compact JSON\<close>

text \<open>The bytes with a special meaning.\<close>

abbreviation quote :: char where "quote \<equiv> CHR 0x22"

abbreviation backslash :: char where "backslash \<equiv> CHR 0x5C"

text \<open>\<open>utf8.EncodeRune\<close>, the bytes it writes.\<close>

definition EncodeRune :: "32 word \<Rightarrow> string" where
  "EncodeRune c = (let n = unat c;
       n = (if n > 0x10FFFF \<or> (0xD800 \<le> n \<and> n \<le> 0xDFFF) then 0xFFFD else n)
     in if n \<le> 0x7F then [char_of n]
        else if n \<le> 0x7FF then [char_of (0xC0 + n div 64), char_of (0x80 + n mod 64)]
        else if n \<le> 0xFFFF then
          [char_of (0xE0 + n div 4096), char_of (0x80 + n div 64 mod 64), char_of (0x80 + n mod 64)]
        else [char_of (0xF0 + n div 262144), char_of (0x80 + n div 4096 mod 64),
          char_of (0x80 + n div 64 mod 64), char_of (0x80 + n mod 64)])"

definition ESCAPES :: string where
  "ESCAPES = ''uuuuuuuubtnufruuuuuuuuuuuuuuuuuu''"

definition HEX :: string where
  "HEX = ''0123456789ABCDEF''"

text \<open>
  The pair of the slice \<open>input\<close> and an index into it is the rest of the input from that index.
\<close>

definition compactUnicodeEscape :: "string \<Rightarrow> string \<Rightarrow> string \<times> string" where
  "compactUnicodeEscape input output =
     (if length input < 4 then (output, [])
      else
        let c = readHexDigits input; input = drop 4 input in
        if c < 0x20 then
          let escape = ESCAPES ! unat c; output = output @ [backslash, escape] in
          (if escape = CHR ''u''
           then output @ [CHR ''0'', CHR ''0'', char_of (unat (0x30 + drop_bit 4 c)), HEX ! unat (c AND 0xF)]
           else output, input)
        else if c = 0x5C \<or> c = 0x22 then (output @ [backslash, char_of (unat c)], input)
        else if c < 0xD800 \<or> c \<ge> 0xE000 then (output @ EncodeRune c, input)
        else if length input < 6 then (output, [])
        else
          let surrogate = readHexDigits (drop 2 input);
              input = drop 6 input;
              codepoint = 0x10000 + (push_bit 10 (c AND 0x3FF) OR (surrogate AND 0x3FF))
          in (output @ EncodeRune codepoint, input))"

lemma compactUnicodeEscape_length:
  "(output', input') = compactUnicodeEscape input output \<Longrightarrow> length input' \<le> length input"
  by (auto simp: compactUnicodeEscape_def Let_def split: if_splits)

text \<open>
  The two nested loops: \<open>CompactJSON\<close> outside a string and \<open>CompactJSON_string\<close> inside one.
  Reading the byte after a backslash at the end of the input panics.
\<close>

function CompactJSON :: "string \<Rightarrow> string \<Rightarrow> string result"
  and CompactJSON_string :: "string \<Rightarrow> string \<Rightarrow> string result" where
  "CompactJSON [] output = Inr output"
| "CompactJSON (c # input) output =
     (if c \<le> CHR '' '' then CompactJSON input output
      else if c = quote then CompactJSON_string input (output @ [c])
      else CompactJSON input (output @ [c]))"
| "CompactJSON_string [] output = Inr output"
| "CompactJSON_string (c # input) output =
     (if c = backslash then
        (case input of
           [] \<Rightarrow> Inl (Panic ''index out of range'')
         | escape # input \<Rightarrow>
             if escape = CHR ''u'' then
               (case compactUnicodeEscape input output of
                  (output, input) \<Rightarrow> CompactJSON_string input output)
             else if escape = CHR ''/'' then CompactJSON_string input (output @ [escape])
             else CompactJSON_string input (output @ [backslash, escape]))
      else if c = quote then CompactJSON input (output @ [c])
      else CompactJSON_string input (output @ [c]))"
  by pat_completeness auto

termination
  by (relation "measure (case_sum (length \<circ> fst) (length \<circ> fst))")
    (auto dest: compactUnicodeEscape_length)

subsection \<open>What a JSON text says\<close>

text \<open>
  The tokens of a text: strings by the bytes they stand for, everything else byte by byte
  without the whitespace. Texts that no JSON reader accepts have no tokens: control characters,
  unknown escapes, and escapes of one half of a surrogate pair.
\<close>

datatype token = Punct char | Str string

definition unescape :: "char \<Rightarrow> char option" where
  "unescape = map_of [(quote, quote), (backslash, backslash), (CHR ''/'', CHR ''/''),
     (CHR ''b'', CHR 0x08), (CHR ''f'', CHR 0x0C), (CHR ''n'', CHR 0x0A),
     (CHR ''r'', CHR 0x0D), (CHR ''t'', CHR 0x09)]"

fun lex_unicode :: "string \<Rightarrow> (string \<times> string) option" where
  "lex_unicode (b0 # b1 # b2 # b3 # s) =
     (case hex_value b0 b1 b2 b3 of
        None \<Rightarrow> None
      | Some n \<Rightarrow>
          if n < 0xD800 \<or> 0xE000 \<le> n then Some (EncodeRune (of_nat n), s)
          else (case s of
              x # u # c0 # c1 # c2 # c3 # s' \<Rightarrow>
                (case hex_value c0 c1 c2 c3 of
                   None \<Rightarrow> None
                 | Some m \<Rightarrow>
                     if x = backslash \<and> u = CHR ''u'' \<and> n < 0xDC00 \<and> 0xDC00 \<le> m \<and> m < 0xE000
                     then Some (EncodeRune (of_nat (0x10000 + (n - 0xD800) * 0x400 + (m - 0xDC00))), s')
                     else None)
            | _ \<Rightarrow> None))"
| "lex_unicode _ = None"

lemma lex_unicode_length: "lex_unicode s = Some (t, r) \<Longrightarrow> length r < length s"
  by (induction s rule: lex_unicode.induct) (auto split: option.splits if_splits list.splits)

text \<open>What follows a backslash.\<close>

definition lex_escape :: "char \<Rightarrow> string \<Rightarrow> (string \<times> string) option" where
  "lex_escape e s = (if e = CHR ''u'' then lex_unicode s else map_option (\<lambda>b. ([b], s)) (unescape e))"

lemma lex_escape_length: "lex_escape e s = Some (t, r) \<Longrightarrow> length r \<le> length s"
  by (auto simp: lex_escape_def split: if_splits dest: lex_unicode_length)

function lex_string :: "string \<Rightarrow> (string \<times> string) option" where
  "lex_string [] = None"
| "lex_string (c # s) =
     (if c = quote then Some ([], s)
      else if c < CHR '' '' then None
      else if c = backslash then
        (case s of
           [] \<Rightarrow> None
         | e # s \<Rightarrow>
             (case lex_escape e s of
                None \<Rightarrow> None
              | Some (t, s) \<Rightarrow> map_option (\<lambda>(t', r). (t @ t', r)) (lex_string s)))
      else map_option (\<lambda>(t, r). (c # t, r)) (lex_string s))"
  by pat_completeness auto
termination
  by (relation "measure length") (auto dest: lex_escape_length)

lemma lex_string_length: "lex_string s = Some (t, r) \<Longrightarrow> length r < length s"
  by (induction s arbitrary: t r rule: lex_string.induct)
    (fastforce split: option.splits if_splits list.splits dest: lex_escape_length)+

function lex :: "string \<Rightarrow> token list option" where
  "lex [] = Some []"
| "lex (c # s) =
     (if c \<in> {CHR '' '', CHR 0x09, CHR 0x0A, CHR 0x0D} then lex s
      else if c < CHR '' '' then None
      else if c = quote then
        (case lex_string s of
           None \<Rightarrow> None
         | Some (t, r) \<Rightarrow> map_option (Cons (Str t)) (lex r))
      else map_option (Cons (Punct c)) (lex s))"
  by pat_completeness auto
termination
  by (relation "measure length") (auto dest: lex_string_length)

text \<open>The canonical way to write tokens down.\<close>

definition escape_byte :: "char \<Rightarrow> string" where
  "escape_byte b =
     (case map_of [(quote, quote), (backslash, backslash), (CHR 0x08, CHR ''b''),
        (CHR 0x0C, CHR ''f''), (CHR 0x0A, CHR ''n''), (CHR 0x0D, CHR ''r''), (CHR 0x09, CHR ''t'')] b of
        Some e \<Rightarrow> [backslash, e]
      | None \<Rightarrow>
          if b < CHR '' '' then
            [backslash, CHR ''u'', CHR ''0'', CHR ''0'', HEX ! (of_char b div 16), HEX ! (of_char b mod 16)]
          else [b])"

fun render_token :: "token \<Rightarrow> string" where
  "render_token (Punct c) = [c]"
| "render_token (Str s) = quote # concat (map escape_byte s) @ [quote]"

definition render :: "token list \<Rightarrow> string" where
  "render ts = concat (map render_token ts)"

text \<open>The tokens that the tokeniser gives.\<close>

definition token_ok :: "token \<Rightarrow> bool" where
  "token_ok tk = (case tk of Punct c \<Rightarrow> c > CHR '' '' \<and> c \<noteq> quote | Str _ \<Rightarrow> True)"

section \<open>Lemmas\<close>

subsection \<open>Four digits at once\<close>

lemma bit_pack:
  "bit (pack a b c d) n \<longleftrightarrow>
    (if n < 8 then bit d n else if n < 16 then bit c (n - 8)
     else if n < 24 then bit b (n - 16) else if n < 32 then bit a (n - 24) else False)"
  by (auto simp: pack_def bit_simps dest: bit_imp_le_length)

lemma pack_and: "pack a b c d AND pack a' b' c' d' = pack (a AND a') (b AND b') (c AND c') (d AND d')"
  by (rule bit_word_eqI) (simp add: bit_pack bit_simps)

lemma pack_or: "pack a b c d OR pack a' b' c' d' = pack (a OR a') (b OR b') (c OR c') (d OR d')"
  by (rule bit_word_eqI) (simp add: bit_pack bit_simps)

lemma pack_sum:
  "pack a b c d = 2 ^ 24 * of_nat (unat a) + 2 ^ 16 * of_nat (unat b) + 2 ^ 8 * of_nat (unat c)
     + of_nat (unat d)"
proof -
  have or: "x OR y = x + y" if "\<And>n. bit x n \<Longrightarrow> bit y n \<Longrightarrow> False" for x y :: "32 word"
    using that by (intro disjunctive_add_eq_or [symmetric] bit_word_eqI) (auto simp: bit_simps)
  have len: "bit (x :: 8 word) n \<Longrightarrow> n < 8" for x n
    using bit_imp_le_length [of x n] by simp
  define A B C D :: "32 word" where "A = push_bit 24 (ucast a)" and "B = push_bit 16 (ucast b)"
    and "C = push_bit 8 (ucast c)" and "D = ucast d"
  note abcd = A_def B_def C_def D_def
  have "pack a b c d = ((D OR C) OR B) OR A"
    by (simp add: pack_def or.assoc abcd)
  also have "\<dots> = ((D OR C) OR B) + A" by (rule or) (auto simp: abcd bit_simps dest: len)
  also have "(D OR C) OR B = (D OR C) + B" by (rule or) (auto simp: abcd bit_simps dest: len)
  also have "D OR C = D + C" by (rule or) (auto simp: abcd bit_simps dest: len)
  finally have "pack a b c d = ucast d + push_bit 8 (ucast c) + push_bit 16 (ucast b) + push_bit 24 (ucast a)"
    unfolding abcd .
  then show ?thesis by (simp add: push_bit_eq_mult ac_simps)
qed

lemma pack_add:
  "unat a + unat a' < 256 \<Longrightarrow> unat b + unat b' < 256 \<Longrightarrow> unat c + unat c' < 256 \<Longrightarrow>
   unat d + unat d' < 256 \<Longrightarrow> pack a b c d + pack a' b' c' d' = pack (a + a') (b + b') (c + c') (d + d')"
  by (simp add: pack_sum unat_word_ariths algebra_simps)

lemma pack_sub:
  assumes "a' \<le> a" "b' \<le> b" "c' \<le> c" "d' \<le> d"
  shows "pack a b c d - pack a' b' c' d' = pack (a - a') (b - b') (c - c') (d - d')"
  using assms by (simp add: pack_sum unat_sub of_nat_diff word_le_nat_alt algebra_simps)

lemma pack_drop:
  assumes "\<And>x i. x \<in> {a, b, c, d} \<Longrightarrow> i < k \<Longrightarrow> \<not> bit x i"
  shows "drop_bit k (pack a b c d) = pack (drop_bit k a) (drop_bit k b) (drop_bit k c) (drop_bit k d)"
proof (rule bit_word_eqI)
  fix n assume "n < LENGTH(32)"
  have "\<not> bit x m" if "x \<in> {a, b, c, d}" "8 \<le> m" for x m
    using that by (auto dest: bit_imp_le_length)
  with assms show "bit (drop_bit k (pack a b c d)) n =
      bit (pack (drop_bit k a) (drop_bit k b) (drop_bit k c) (drop_bit k d)) n"
    by (auto simp: bit_simps bit_pack not_less not_le add.commute)
qed

lemma nibbles_collect:
  assumes "\<And>x i. x \<in> {a, b, c, d} \<Longrightarrow> 4 \<le> i \<Longrightarrow> \<not> bit x i"
  shows "(let hex = pack a b c d; hex = (hex OR drop_bit 4 hex) AND 0xFF00FF
          in (hex OR drop_bit 8 hex) AND 0xFFFF)
       = pack 0 0 (push_bit 4 a OR b) (push_bit 4 c OR d)"
proof -
  have m1: "(0xFF00FF :: 32 word) = pack 0 255 0 255" and m2: "(0xFFFF :: 32 word) = pack 0 0 255 255"
    by (simp_all add: pack_def)
  have z: "\<not> bit x i" if "x \<in> {a, b, c, d}" "4 \<le> i" for x i using assms that by blast
  have o4: "pack a b c d OR drop_bit 4 (pack a b c d) = pack a (push_bit 4 a OR b) (push_bit 4 b OR c) (push_bit 4 c OR d)"
    by (rule bit_word_eqI) (auto simp: bit_pack bit_simps z not_less)
  have o8: "pack 0 x 0 y OR drop_bit 8 (pack 0 x 0 y) = pack 0 x x y" for x y
    by (rule bit_word_eqI) (auto simp: bit_pack bit_simps not_less dest: bit_imp_le_length)
  have ff: "(255 :: 8 word) = - 1" by simp
  show ?thesis unfolding Let_def o4 m1 m2 pack_and o8 ff by (simp add: o8 pack_and)
qed

lemma hex_digit_cases:
  assumes "hex_digit c = Some d"
  shows "(of_char c :: nat, d) \<in> set [(0x30, 0), (0x31, 1), (0x32, 2), (0x33, 3), (0x34, 4), (0x35, 5),
    (0x36, 6), (0x37, 7), (0x38, 8), (0x39, 9), (0x41, 10), (0x42, 11), (0x43, 12), (0x44, 13),
    (0x45, 14), (0x46, 15), (0x61, 10), (0x62, 11), (0x63, 12), (0x64, 13), (0x65, 14), (0x66, 15 :: nat)]"
  using assms by (simp add: hex_digit_def Let_def split: if_splits) presburger+

lemma of_char_word: "(of_char c :: 'a :: len word) = of_nat (of_char c)"
  by (simp only: of_nat_of_char)

lemma hex_digit_byte:
  assumes "hex_digit c = Some d"
  defines "x \<equiv> of_char c :: 8 word"
  defines "y \<equiv> (x - 0x30) AND 0x1F"
  shows "0x30 \<le> x" "drop_bit 1 (y AND 0x10) \<le> y" "unat (y - drop_bit 1 (y AND 0x10)) + unat (drop_bit 4 (y AND 0x10)) < 256"
    "y - drop_bit 1 (y AND 0x10) + drop_bit 4 (y AND 0x10) = of_nat d" "d < 16"
  using hex_digit_cases [OF assms(1)] unfolding x_def y_def of_char_word
  by auto

lemma BigEndian_pack: "BigEndian_Uint32 (b0 # b1 # b2 # b3 # r) = pack (of_char b0) (of_char b1) (of_char b2) (of_char b3)"
proof -
  have "(ucast (of_char c :: 8 word) :: 32 word) = of_char c" for c
    unfolding of_char_word by (simp only: unsigned_of_nat) (simp add: take_bit_nat_eq_self)
  then show ?thesis by (simp add: BigEndian_Uint32_def pack_def)
qed

lemma no_high_bit: "d < 16 \<Longrightarrow> 4 \<le> i \<Longrightarrow> \<not> bit (of_nat d :: 8 word) i"
  using power_increasing [of 4 i "2 :: nat"]
  by (simp only: bit_of_nat_iff) (simp add: bit_iff_odd)

lemma nibble_pair:
  assumes "d < 16" "e < 16"
  shows "unat (push_bit 4 (of_nat d) OR of_nat e :: 8 word) = d * 16 + e"
proof -
  have "push_bit 4 (of_nat d) OR of_nat e = push_bit 4 (of_nat d) + (of_nat e :: 8 word)"
  proof (intro disjunctive_add_eq_or [symmetric] bit_word_eqI)
    fix n
    show "bit (push_bit 4 (of_nat d) AND of_nat e :: 8 word) n = bit 0 n"
      using no_high_bit [OF assms(2), of n] by (auto simp: bit_and_iff bit_push_bit_iff)
  qed
  also have "\<dots> = of_nat (d * 16 + e)" by (simp add: push_bit_eq_mult)
  finally have "unat (push_bit 4 (of_nat d) OR of_nat e :: 8 word) = unat (of_nat (d * 16 + e) :: 8 word)" by simp
  also have "\<dots> = d * 16 + e" using assms by (simp only: unat_of_nat) simp
  finally show ?thesis .
qed

lemma no_low_bit: "i < 4 \<Longrightarrow> \<not> bit (x AND 0x10 :: 8 word) i"
proof -
  assume "i < 4"
  then have "i \<in> {0, 1, 2, 3}" by auto
  then show ?thesis by (auto simp: bit_simps)
qed

lemma drop_mask:
  "k \<le> 4 \<Longrightarrow> drop_bit k (pack (a AND 0x10) (b AND 0x10) (c AND 0x10) (d AND 0x10)) =
     pack (drop_bit k (a AND 0x10)) (drop_bit k (b AND 0x10)) (drop_bit k (c AND 0x10)) (drop_bit k (d AND 0x10))"
  using no_low_bit by (intro pack_drop) (auto dest: less_le_trans)

lemma readHexDigits_digits:
  assumes "hex_digit b0 = Some d0" "hex_digit b1 = Some d1" "hex_digit b2 = Some d2" "hex_digit b3 = Some d3"
  shows "readHexDigits (b0 # b1 # b2 # b3 # r) = of_nat (((d0 * 16 + d1) * 16 + d2) * 16 + d3)"
proof -
  note h = hex_digit_byte [OF assms(1)] hex_digit_byte [OF assms(2)]
    hex_digit_byte [OF assms(3)] hex_digit_byte [OF assms(4)]
  define y :: "char \<Rightarrow> 8 word" where "y c = (of_char c - 0x30) AND 0x1F" for c
  have masks: "(0x30303030 :: 32 word) = pack 0x30 0x30 0x30 0x30"
    "(0x1F1F1F1F :: 32 word) = pack 0x1F 0x1F 0x1F 0x1F" "(0x10101010 :: 32 word) = pack 0x10 0x10 0x10 0x10"
    by (simp_all add: pack_def)
  let ?m = "pack (y b0 AND 0x10) (y b1 AND 0x10) (y b2 AND 0x10) (y b3 AND 0x10)"
  have s1: "(BigEndian_Uint32 (b0 # b1 # b2 # b3 # r) - 0x30303030) AND 0x1F1F1F1F = pack (y b0) (y b1) (y b2) (y b3)"
    unfolding BigEndian_pack masks y_def using h(1,6,11,16) by (simp only: pack_sub pack_and)
  have s2: "pack (y b0) (y b1) (y b2) (y b3) AND 0x10101010 = ?m"
    unfolding masks pack_and ..
  have s3: "pack (y b0) (y b1) (y b2) (y b3) - drop_bit 1 ?m + drop_bit 4 ?m
      = pack (of_nat d0) (of_nat d1) (of_nat d2) (of_nat d3)"
    using h by (simp add: drop_mask pack_sub pack_add flip: y_def)
  have "readHexDigits (b0 # b1 # b2 # b3 # r) = (let hex = pack (of_nat d0) (of_nat d1) (of_nat d2) (of_nat d3);
         hex = (hex OR drop_bit 4 hex) AND 0xFF00FF in (hex OR drop_bit 8 hex) AND 0xFFFF)"
    unfolding readHexDigits_def Let_def s1 s2 s3 ..
  also have "\<dots> = pack 0 0 (push_bit 4 (of_nat d0) OR of_nat d1) (push_bit 4 (of_nat d2) OR of_nat d3)"
    using h no_high_bit by (intro nibbles_collect) auto
  also have "\<dots> = of_nat (((d0 * 16 + d1) * 16 + d2) * 16 + d3)"
    unfolding pack_sum by (simp add: nibble_pair h)
  finally show ?thesis .
qed

subsection \<open>Compacting tokens\<close>

lemma hex_value_bound: "hex_value b0 b1 b2 b3 = Some n \<Longrightarrow> n < 0x10000"
  by (auto simp: hex_value_def split: option.splits dest!: hex_digit_byte(5))

lemma readHexDigits_value:
  "hex_value b0 b1 b2 b3 = Some n \<Longrightarrow> readHexDigits (b0 # b1 # b2 # b3 # r) = of_nat n"
  by (auto simp: hex_value_def readHexDigits_digits split: option.splits simp del: of_nat_add of_nat_mult)

lemma of_nat_word_le: "n < 0x10000 \<Longrightarrow> (of_nat n :: 32 word) < numeral k \<longleftrightarrow> n < unat (numeral k :: 32 word)"
  by (simp add: word_less_nat_alt unat_of_nat)

lemma escape_byte_plain: "CHR '' '' \<le> b \<Longrightarrow> b \<noteq> quote \<Longrightarrow> b \<noteq> backslash \<Longrightarrow> escape_byte b = [b]"
  by (auto simp: escape_byte_def less_char_def less_eq_char_def)

lemma mod_from: "a * q \<le> n \<Longrightarrow> n < a * q + a \<Longrightarrow> n mod a = n - a * (q :: nat)"
  by (metis add.commute le_add_diff_inverse mod_less mod_mult_self4 nat_add_left_cancel_less)

lemma low_ten_bits: "(of_nat k AND 0x3FF :: 32 word) = of_nat (k mod 1024)"
proof -
  have "(0x3FF :: 32 word) = mask 10" by (simp add: mask_numeral)
  then have "(of_nat k AND 0x3FF :: 32 word) = take_bit 10 (of_nat k)" by (simp only: take_bit_eq_mask)
  also have "\<dots> = of_nat (take_bit 10 k)" by (simp only: of_nat_take_bit)
  finally show ?thesis by (simp add: take_bit_eq_mod)
qed

lemma join_ten_bits:
  assumes "b < 1024"
  shows "push_bit 10 (of_nat a) OR of_nat b = (of_nat (a * 1024 + b) :: 32 word)"
proof -
  have "\<not> bit b i" if "10 \<le> i" for i
    using assms power_increasing [of 10 i "2 :: nat", OF that] by (simp add: bit_iff_odd)
  then have "push_bit 10 (of_nat a) OR of_nat b = push_bit 10 (of_nat a) + (of_nat b :: 32 word)"
    by (intro disjunctive_add_eq_or [symmetric] bit_word_eqI)
      (auto simp: bit_and_iff bit_push_bit_iff bit_of_nat_iff not_le)
  then show ?thesis by (simp add: push_bit_eq_mult)
qed

lemma surrogate_codepoint:
  assumes "0xD800 \<le> n" "n < 0xDC00" "0xDC00 \<le> m" "m < 0xE000"
  shows "0x10000 + (push_bit 10 (of_nat n AND 0x3FF) OR (of_nat m AND 0x3FF)) =
    (of_nat (0x10000 + (n - 0xD800) * 0x400 + (m - 0xDC00)) :: 32 word)"
proof -
  have nm: "n mod 1024 = n - 0xD800" "m mod 1024 = m - 0xDC00"
    using mod_from [of 1024 54 n] mod_from [of 1024 55 m] assms by simp_all
  have "m - 0xDC00 < 1024" using assms by linarith
  then show ?thesis unfolding low_ten_bits nm join_ten_bits [OF \<open>m - 0xDC00 < 1024\<close>] by simp
qed

lemma escape_byte_char_of:
  assumes "0x20 \<le> k" "k < 256" "k \<noteq> 0x5C" "k \<noteq> 0x22"
  shows "escape_byte (char_of k) = [char_of (k :: nat)]"
proof (rule escape_byte_plain)
  have of: "of_char (char_of k) = k" using assms(2) by simp
  show "CHR '' '' \<le> char_of k" unfolding less_eq_char_def of using assms(1) by simp
  show "char_of k \<noteq> quote" "char_of k \<noteq> backslash"
    using of assms(3,4) by (auto dest!: arg_cong [where f = "of_char :: char \<Rightarrow> nat"] simp del: of_char_of)
qed

lemma EncodeRune_plain:
  assumes "0x20 \<le> c" "c \<noteq> 0x5C" "c \<noteq> 0x22"
  shows "concat (map escape_byte (EncodeRune c)) = EncodeRune c"
proof -
  define n where "n = (if unat c > 0x10FFFF \<or> (0xD800 \<le> unat c \<and> unat c \<le> 0xDFFF) then 0xFFFD else unat c)"
  have "0x20 \<le> unat c" "unat c \<noteq> 0x5C" "unat c \<noteq> 0x22"
    using assms by (auto simp: word_le_nat_alt word_unat_eq_iff)
  then have n: "0x20 \<le> n" "n \<noteq> 0x5C" "n \<noteq> 0x22" "n \<le> 0x10FFFF" by (auto simp: n_def)
  have c80: "escape_byte (char_of (0x80 + m mod 64)) = [char_of (0x80 + m mod 64)]" for m :: nat
    using mod_less_divisor [of 64 m] by (intro escape_byte_char_of) linarith+
  have lead: "escape_byte (char_of (b + m)) = [char_of (b + m)]" if "0xC0 \<le> b" "b + m < 256" for b m :: nat
    using that by (intro escape_byte_char_of) linarith+
  have "n div 64 < 32" if "n \<le> 0x7FF" using that by (intro less_mult_imp_div_less) simp
  moreover have "n div 4096 < 16" if "n \<le> 0xFFFF" using that by (intro less_mult_imp_div_less) simp
  moreover have "n div 262144 < 5" using n(4) by (intro less_mult_imp_div_less) simp
  ultimately show ?thesis
    using n unfolding EncodeRune_def Let_def n_def [symmetric]
    by (simp add: c80 lead escape_byte_char_of)
qed

lemma unat_small: "n < 0x10000 \<Longrightarrow> unat (of_nat n :: 32 word) = n"
  by (simp add: unat_of_nat)

lemma EncodeRune_ascii: "n \<le> 0x7F \<Longrightarrow> EncodeRune (of_nat n) = [char_of n]"
  by (simp add: EncodeRune_def unat_small)

lemma control_escape:
  assumes "n < 0x20"
  shows "[backslash, ESCAPES ! n] @
      (if ESCAPES ! n = CHR ''u''
       then [CHR ''0'', CHR ''0'', char_of (unat (0x30 + drop_bit 4 (of_nat n :: 32 word))), HEX ! unat (of_nat n AND 0xF :: 32 word)]
       else [])
    = escape_byte (char_of n)"
proof -
  have "[0..<32] = [0, 1, 2, 3, 4, 5, 6, 7, 8, 9, 10, 11, 12, 13, 14, 15, 16, 17, 18, 19, 20, 21, 22,
    23, 24, 25, 26, 27, 28, 29, 30, 31]" by (simp add: upt_rec)
  with assms have "n \<in> set [0, 1, 2, 3, 4, 5, 6, 7, 8, 9, 10, 11, 12, 13, 14, 15, 16, 17, 18, 19, 20, 21, 22,
    23, 24, 25, 26, 27, 28, 29, 30, 31]" by (metis atLeastLessThan_iff le0 set_upt)
  then show ?thesis
    unfolding list.set by (elim insertE emptyE; hypsubst; simp add: char_of_def bit_0 ESCAPES_def HEX_def escape_byte_def less_char_def)
qed

lemma compact_plain_escape:
  assumes hex: "hex_value b0 b1 b2 b3 = Some n" and n: "n < 0xD800 \<or> 0xE000 \<le> n"
  shows "compactUnicodeEscape (b0 # b1 # b2 # b3 # s) out = (out @ concat (map escape_byte (EncodeRune (of_nat n))), s)"
proof -
  note b = hex_value_bound [OF hex]
  note u = unat_small [OF b]
  note r = readHexDigits_value [OF hex]
  have less: "(of_nat n < (0x20 :: 32 word)) = (n < 0x20)" "(of_nat n < (0xD800 :: 32 word)) = (n < 0xD800)"
    "((0xE000 :: 32 word) \<le> of_nat n) = (0xE000 \<le> n)"
    "(of_nat n = (0x5C :: 32 word)) = (n = 0x5C)" "(of_nat n = (0x22 :: 32 word)) = (n = 0x22)"
    by (simp_all add: word_less_nat_alt word_le_nat_alt word_unat_eq_iff u)
  consider "n < 0x20" | "n = 0x5C \<or> n = 0x22" | "0x20 \<le> n" "n \<noteq> 0x5C" "n \<noteq> 0x22" by linarith
  then show ?thesis
  proof cases
    case 1
    then show ?thesis using control_escape [OF 1]
      by (simp add: compactUnicodeEscape_def r less u EncodeRune_ascii Let_def split: if_splits)
  next
    case 2
    then show ?thesis
      by (auto simp: compactUnicodeEscape_def r EncodeRune_def escape_byte_def char_of_def bit_0)
  next
    case 3
    have "(0x20 :: 32 word) \<le> of_nat n" using 3 by (simp add: word_le_nat_alt u)
    then show ?thesis using 3 n
      by (simp add: compactUnicodeEscape_def r less EncodeRune_plain not_less)
  qed
qed

lemma compact_pair_escape:
  assumes hex: "hex_value b0 b1 b2 b3 = Some n" "hex_value c0 c1 c2 c3 = Some m"
    and n: "0xD800 \<le> n" "n < 0xDC00" "0xDC00 \<le> m" "m < 0xE000"
  shows "compactUnicodeEscape (b0 # b1 # b2 # b3 # x # u # c0 # c1 # c2 # c3 # s) out =
    (out @ concat (map escape_byte (EncodeRune (of_nat (0x10000 + (n - 0xD800) * 0x400 + (m - 0xDC00))))), s)"
proof -
  note u = unat_small [OF hex_value_bound [OF hex(1)]]
  let ?k = "0x10000 + (n - 0xD800) * 0x400 + (m - 0xDC00)"
  have "?k < 2 ^ 32" using n by simp
  then have "unat (of_nat ?k :: 32 word) = ?k" by (simp only: unat_of_nat) simp
  then have "concat (map escape_byte (EncodeRune (of_nat ?k))) = EncodeRune (of_nat ?k)"
    by (intro EncodeRune_plain) (auto simp: word_le_nat_alt word_unat_eq_iff)
  moreover have "\<not> of_nat n < (0x20 :: 32 word)" "of_nat n \<noteq> (0x5C :: 32 word)" "of_nat n \<noteq> (0x22 :: 32 word)"
    "\<not> of_nat n < (0xD800 :: 32 word)" "\<not> (0xE000 :: 32 word) \<le> of_nat n"
    using n by (simp_all add: word_less_nat_alt word_le_nat_alt word_unat_eq_iff u)
  ultimately show ?thesis
    by (simp add: compactUnicodeEscape_def readHexDigits_value [OF hex(1)] readHexDigits_value [OF hex(2)]
        surrogate_codepoint [OF n] Let_def del: of_nat_add of_nat_mult push_bit_and)
qed

lemma lex_unicode_compact:
  "lex_unicode s = Some (t, r) \<Longrightarrow> compactUnicodeEscape s out = (out @ concat (map escape_byte t), r)"
  by (induction s rule: lex_unicode.induct)
    (auto simp: compact_plain_escape compact_pair_escape not_less not_le split: option.splits if_splits list.splits
      simp del: of_nat_add of_nat_mult)

lemma unescape_compact:
  "unescape e = Some b \<Longrightarrow> escape_byte b = (if e = CHR ''/'' then [e] else [backslash, e]) \<and> e \<noteq> CHR ''u''"
  by (auto simp: unescape_def escape_byte_def split: if_splits)

lemma lex_string_induct [consumes 1, case_names End Escape Byte]:
  assumes "lex_string s = Some (t, r)"
    and "P (quote # r) []"
    and "\<And>e s t s' t'. lex_escape e s = Some (t, s') \<Longrightarrow> P s' t' \<Longrightarrow> P (backslash # e # s) (t @ t')"
    and "\<And>c s t. c \<noteq> quote \<Longrightarrow> c \<noteq> backslash \<Longrightarrow> CHR '' '' \<le> c \<Longrightarrow> P s t \<Longrightarrow> P (c # s) (c # t)"
  shows "P s t"
  using assms(1)
proof (induction s arbitrary: t rule: lex_string.induct)
  case (2 c s)
  consider "c = quote" | "c = backslash" | "c \<noteq> quote" "c \<noteq> backslash" by blast
  then show ?case
  proof cases
    case 1
    with "2.prems" assms(2) show ?thesis by auto
  next
    case 2
    then have c: "c \<noteq> quote" "\<not> c < CHR '' ''" by (simp_all add: less_char_def)
    with 2 "2.prems" obtain e s' t1 s1 t2 where s: "s = e # s'" and e: "lex_escape e s' = Some (t1, s1)"
      and l: "lex_string s1 = Some (t2, r)" and t: "t = t1 @ t2"
      by (auto split: list.splits option.splits)
    show ?thesis unfolding 2 s t using assms(3) [OF e] "2.IH"(1) [OF c 2 s e refl l] .
  next
    case 3
    with 2 assms(4) show ?thesis by (auto split: if_splits)
  qed
qed simp

lemma compact_string:
  "lex_string s = Some (t, r) \<Longrightarrow>
    CompactJSON_string s out = CompactJSON r (out @ concat (map escape_byte t) @ [quote])"
proof (induction s t arbitrary: out rule: lex_string_induct)
  case (Escape e s t s' t')
  then show ?case
    by (auto simp: lex_escape_def lex_unicode_compact split: if_splits dest!: unescape_compact)
qed (simp_all add: escape_byte_plain)

lemma compact_lex: "lex s = Some ts \<Longrightarrow> CompactJSON s out = Inr (out @ render ts)"
proof (induction s arbitrary: ts out rule: lex.induct)
  case (2 c s)
  then show ?case
    by (auto simp: render_def compact_string split: if_splits option.splits)
qed (simp add: render_def)

subsection \<open>Reading canonical text back\<close>

lemma lex_token_ok: "lex s = Some ts \<Longrightarrow> list_all token_ok ts"
  by (induction s arbitrary: ts rule: lex.induct)
    (auto simp: token_ok_def split: if_splits option.splits)

lemma hex_digit_HEX: "k < 16 \<Longrightarrow> hex_digit (HEX ! k) = Some k"
proof -
  assume "k < 16"
  moreover have "[0..<16] = [0, 1, 2, 3, 4, 5, 6, 7, 8, 9, 10, 11, 12, 13, 14, 15]" by (simp add: upt_rec)
  ultimately have "k \<in> set [0, 1, 2, 3, 4, 5, 6, 7, 8, 9, 10, 11, 12, 13, 14, 15]"
    by (metis atLeastLessThan_iff le0 set_upt)
  then show ?thesis unfolding list.set by (elim insertE emptyE; hypsubst; simp add: HEX_def hex_digit_def)
qed

lemma lex_control:
  assumes "b < CHR '' ''"
  shows "lex_unicode (CHR ''0'' # CHR ''0'' # HEX ! (of_char b div 16) # HEX ! (of_char b mod 16) # s) = Some ([b], s)"
proof -
  define n :: nat where "n = of_char b"
  have n: "n < 32" "char_of n = b" using assms by (simp_all add: less_char_def n_def)
  have "hex_digit (CHR ''0'') = Some 0" by (simp add: hex_digit_def)
  moreover have "hex_digit (HEX ! (n div 16)) = Some (n div 16)" "hex_digit (HEX ! (n mod 16)) = Some (n mod 16)"
    using n(1) by (intro hex_digit_HEX; simp)+
  ultimately have "hex_value (CHR ''0'') (CHR ''0'') (HEX ! (n div 16)) (HEX ! (n mod 16)) = Some n"
    by (simp add: hex_value_def)
  then show ?thesis using n unfolding n_def [symmetric] by (simp add: EncodeRune_ascii)
qed

lemma lex_escape_byte:
  "lex_string (escape_byte b @ s) = map_option (\<lambda>(t, r). (b # t, r)) (lex_string s)"
proof (cases "b \<in> {quote, backslash, CHR 0x08, CHR 0x0C, CHR 0x0A, CHR 0x0D, CHR 0x09}")
  case True
  then show ?thesis by (auto simp: escape_byte_def lex_escape_def unescape_def less_char_def)
next
  case False
  show ?thesis
  proof (cases "b < CHR '' ''")
    case True
    with False have "escape_byte b = [backslash, CHR ''u'', CHR ''0'', CHR ''0'', HEX ! (of_char b div 16), HEX ! (of_char b mod 16)]"
      by (simp add: escape_byte_def)
    with lex_control [OF True, of s] show ?thesis by (simp add: lex_escape_def less_char_def)
  next
    case nc: False
    with False have "escape_byte b = [b]" by (intro escape_byte_plain) auto
    with nc False show ?thesis by simp
  qed
qed

lemma lex_string_render: "lex_string (concat (map escape_byte t) @ quote # s) = Some (t, s)"
  by (induction t) (simp_all add: lex_escape_byte del: lex_string.simps(2), simp)

lemma lex_render: "list_all token_ok ts \<Longrightarrow> lex (render ts) = Some ts"
proof (induction ts)
  case (Cons tk ts)
  then show ?case
    by (cases tk) (auto simp: render_def token_ok_def lex_string_render less_char_def)
qed (simp add: render_def)

subsection \<open>Length\<close>

lemma length_EncodeRune: "length (EncodeRune c) \<le> 4"
  by (simp add: EncodeRune_def Let_def)

lemma length_escape_byte: "length (escape_byte b) \<le> 6"
  by (simp add: escape_byte_def split: option.split)

lemma length_escape_rune: "length (concat (map escape_byte (EncodeRune c))) \<le> 6"
proof (cases "unat c \<le> 0x7F")
  case True
  then have "EncodeRune c = [char_of (unat c)]" by (simp add: EncodeRune_def)
  then show ?thesis by (simp add: length_escape_byte)
next
  case False
  then have "0x20 \<le> c" "c \<noteq> 0x5C" "c \<noteq> 0x22" by (auto simp: word_le_nat_alt)
  with EncodeRune_plain length_EncodeRune [of c] show ?thesis by simp
qed

lemma length_lex_unicode:
  "lex_unicode s = Some (t, r) \<Longrightarrow> length (concat (map escape_byte t)) + length r \<le> length s + 2"
  by (induction s rule: lex_unicode.induct)
    (auto intro!: order.trans [OF length_escape_rune] split: option.splits if_splits list.splits
      simp del: of_nat_add of_nat_mult length_concat)

lemma length_unescape: "unescape e = Some b \<Longrightarrow> length (escape_byte b) \<le> 2"
  by (auto dest: unescape_compact)

lemma length_lex_string:
  "lex_string s = Some (t, r) \<Longrightarrow> length (concat (map escape_byte t)) + length r < length s"
proof (induction s t rule: lex_string_induct)
  case (Escape e s t s' t')
  then have "length (concat (map escape_byte t)) + length s' \<le> length s + 2"
    by (auto simp: lex_escape_def split: if_splits dest: length_unescape length_lex_unicode)
  with Escape.IH show ?case by simp
qed (simp_all add: escape_byte_plain)

lemma length_lex: "lex s = Some ts \<Longrightarrow> length (render ts) \<le> length s"
proof (induction s arbitrary: ts rule: lex.induct)
  case (2 c s)
  then show ?case
    by (fastforce simp: render_def split: if_splits option.splits dest: length_lex_string)
qed (simp add: render_def)

section \<open>Properties\<close>

text \<open>
  The word-wide reading of four hexadecimal digits gives their value, for digits in upper and
  lower case: no byte borrows from or carries into its neighbour.
\<close>

theorem readHexDigits_correct:
  "hex_value b0 b1 b2 b3 = Some n \<Longrightarrow> unat (readHexDigits (b0 # b1 # b2 # b3 # r)) = n"
  using hex_value_bound [of b0 b1 b2 b3 n] by (simp add: readHexDigits_value unat_small)

theorem readHexDigits_correct_witness:
  "hex_value (CHR ''0'') (CHR ''0'') (CHR ''e'') (CHR ''9'') = Some 233 \<and>
   unat (readHexDigits (''00e9'' @ ''rest'')) = 233"
proof -
  have "hex_value (CHR ''0'') (CHR ''0'') (CHR ''e'') (CHR ''9'') = Some 233"
    by (simp add: hex_value_def hex_digit_def)
  with readHexDigits_correct [OF this, of "''rest''"] show ?thesis by simp
qed

text \<open>
  C9. A text with tokens is compacted without a panic to a text with the same tokens, which
  compacting leaves as it is, which every other text with these tokens is compacted to, and which
  is the shortest of them.
\<close>

theorem CompactJSON_canonical:
  assumes "lex input = Some ts"
  shows "\<exists>out. CompactJSON input [] = Inr out \<and> lex out = Some ts \<and> CompactJSON out [] = Inr out \<and>
    (\<forall>other. lex other = Some ts \<longrightarrow> CompactJSON other [] = Inr out \<and> length out \<le> length other)"
proof (intro exI conjI allI impI)
  have l: "lex (render ts) = Some ts" by (rule lex_render [OF lex_token_ok [OF assms]])
  show "CompactJSON input [] = Inr (render ts)" using compact_lex [OF assms, of "[]"] by simp
  show "lex (render ts) = Some ts" by (rule l)
  show "CompactJSON (render ts) [] = Inr (render ts)" using compact_lex [OF l, of "[]"] by simp
  show "CompactJSON other [] = Inr (render ts)" if "lex other = Some ts" for other
    using compact_lex [OF that, of "[]"] by simp
  show "length (render ts) \<le> length other" if "lex other = Some ts" for other
    by (rule length_lex [OF that])
qed

theorem CompactJSON_canonical_witness:
  "\<exists>out. CompactJSON (''[ 1 , '' @ quote # backslash # ''u0041'' @ backslash # CHR ''/'' # quote # '' ]'') [] = Inr out \<and> lex out = Some [Punct (CHR ''[''), Punct (CHR ''1''),
     Punct (CHR '',''), Str ''A/'', Punct (CHR '']'')]"
proof -
  have "lex (''[ 1 , '' @ quote # backslash # ''u0041'' @ backslash # CHR ''/'' # quote # '' ]'') = Some [Punct (CHR ''[''), Punct (CHR ''1''),
     Punct (CHR '',''), Str ''A/'', Punct (CHR '']'')]"
    by (simp add: less_char_def lex_escape_def unescape_def hex_value_def hex_digit_def EncodeRune_def char_of_def bit_0)
  from CompactJSON_canonical [OF this] show ?thesis by blast
qed

text \<open>
  C11. An escape of one half of a surrogate pair swallows the six bytes after it, whatever they are
  (the closing quote of the string may be among them), and of these the first two are never looked
  at: at most four bytes are written for all of them, and texts that differ in these two bytes
  only are compacted to the same text.
\<close>

theorem lone_surrogate_swallows:
  assumes "hex_value b0 b1 b2 b3 = Some n" "0xD800 \<le> n" "n < 0xE000" "length four = 4"
  shows "\<exists>bytes. length bytes \<le> 4 \<and>
    (\<forall>x y. CompactJSON_string (backslash # CHR ''u'' # b0 # b1 # b2 # b3 # x # y # four @ rest) out =
       CompactJSON_string rest (out @ bytes))"
proof -
  note u = unat_small [OF hex_value_bound [OF assms(1)]]
  have "\<not> of_nat n < (0x20 :: 32 word)" "of_nat n \<noteq> (0x5C :: 32 word)" "of_nat n \<noteq> (0x22 :: 32 word)"
    "\<not> of_nat n < (0xD800 :: 32 word)" "\<not> (0xE000 :: 32 word) \<le> of_nat n"
    using assms by (simp_all add: word_less_nat_alt word_le_nat_alt word_unat_eq_iff u)
  then have "\<exists>c. \<forall>x y. compactUnicodeEscape (b0 # b1 # b2 # b3 # x # y # four @ rest) out = (out @ EncodeRune c, rest)"
    using assms(4) by (simp add: compactUnicodeEscape_def readHexDigits_value [OF assms(1)] Let_def) blast
  then obtain c where "\<And>x y. compactUnicodeEscape (b0 # b1 # b2 # b3 # x # y # four @ rest) out = (out @ EncodeRune c, rest)"
    by blast
  then show ?thesis using length_EncodeRune [of c] by (intro exI [of _ "EncodeRune c"]) simp
qed

theorem lone_surrogate_swallows_witness:
  "CompactJSON (quote # backslash # ''ud800ab1234'' @ [quote]) [] =
   CompactJSON (quote # backslash # ''ud800cd1234'' @ [quote]) []"
proof -
  have "hex_value (CHR ''d'') (CHR ''8'') (CHR ''0'') (CHR ''0'') = Some 0xD800"
    by (simp add: hex_value_def hex_digit_def)
  from lone_surrogate_swallows [OF this, of "''1234''" "[quote]" "[quote]"] obtain bytes where
    "\<And>x y. CompactJSON_string (backslash # CHR ''u'' # CHR ''d'' # CHR ''8'' # CHR ''0'' # CHR ''0'' # x # y # ''1234'' @ [quote]) [quote]
      = CompactJSON_string [quote] ([quote] @ bytes)" by auto
  from this [of "CHR ''a''" "CHR ''b''"] this [of "CHR ''c''" "CHR ''d''"] show ?thesis
    by (simp add: less_eq_char_def del: CompactJSON_string.simps)
qed

end
