(* ===== verification/Canonical_JSON.thy ===== *)
theory Canonical_JSON
  imports Compact_JSON "HOL-Library.Multiset"
begin

text \<open>
  The second half of canonical JSON (\<open>skunkworks/gomatrixserverlib/json.go\<close>): the members of all
  objects are ordered by their keys. The JSON reader gjson is an argument: what it answers is the
  tree of its results, and a predicate says which value such a tree describes.
\<close>

section \<open>Specification\<close>

subsection \<open>Sorted JSON\<close>

text \<open>
  A \<open>gjson.Result\<close>: the raw bytes, the index of them in the JSON it was read from (zero means
  unknown), the string value, and what \<open>ForEach\<close> iterates over.
\<close>

datatype gresult = GResult (Raw: string) (Index: nat) (Str_value: string) (Kind: gkind)
  and gkind = Scalar | IsArray "gresult list" | IsObject "(gresult \<times> gresult) list"

text \<open>The two functions of the library gjson that are called.\<close>

record gjson =
  Valid :: "string \<Rightarrow> bool"
  ParseBytes :: "string \<Rightarrow> gresult"

definition rawJSONFromResult :: "gresult \<Rightarrow> string \<Rightarrow> string result" where
  "rawJSONFromResult result input =
     (if Index result > 0 then
        if Index result + length (Raw result) \<le> length input
        then Inr (take (length (Raw result)) (drop (Index result) input))
        else Inl (Panic ''slice bounds out of range'')
      else Inr (Raw result))"

text \<open>The entries of an object in the order of \<open>ForEach\<close>: parsed key, raw key and value.\<close>

definition object_entry ::
  "string \<Rightarrow> gresult \<times> gresult \<Rightarrow> (string \<times> string \<times> gresult) list \<Rightarrow> (string \<times> string \<times> gresult) list result" where
  "object_entry inputJSON m entries = (case m of (key, value) \<Rightarrow>
     bindR (rawJSONFromResult key inputJSON) (\<lambda>rawKey. Inr (entries @ [(Str_value key, rawKey, value)])))"

definition object_entries :: "(gresult \<times> gresult) list \<Rightarrow> string \<Rightarrow> (string \<times> string \<times> gresult) list result" where
  "object_entries members inputJSON = foldR (object_entry inputJSON) members []"

lemma foldR_cong [fundef_cong]:
  "xs = ys \<Longrightarrow> s = s' \<Longrightarrow> (\<And>x s. x \<in> set ys \<Longrightarrow> f x s = g x s) \<Longrightarrow> foldR f xs s = foldR g ys s'"
proof (induction xs arbitrary: ys s s')
  case (Cons x xs)
  then show ?case by (auto simp: bindR_def split: sum.split)
qed simp

lemma bindR_cong [fundef_cong]:
  "m = m' \<Longrightarrow> (\<And>x. m' = Inr x \<Longrightarrow> f x = g x) \<Longrightarrow> bindR m f = bindR m' g"
  by (cases m') auto

lemma object_entries_values:
  "object_entries members inputJSON = Inr es \<Longrightarrow> (k, r, v) \<in> set es \<Longrightarrow> \<exists>key. (key, v) \<in> set members"
proof -
  have "foldR (object_entry inputJSON) ms es0 = Inr es \<Longrightarrow> (k, r, v) \<in> set es \<Longrightarrow>
      (k, r, v) \<in> set es0 \<or> (\<exists>key. (key, v) \<in> set ms)" for ms es0
    by (induction ms arbitrary: es0) (fastforce simp: object_entry_def result_simps)+
  then show "object_entries members inputJSON = Inr es \<Longrightarrow> (k, r, v) \<in> set es \<Longrightarrow> ?thesis"
    unfolding object_entries_def by fastforce
qed

lemma gresult_size:
  "Kind r = IsArray vs \<Longrightarrow> size_list size vs + 2 \<le> size r"
  "Kind r = IsObject ms \<Longrightarrow> size_list (size_prod size size) ms + 2 \<le> size r"
  "v \<in> set vs \<Longrightarrow> size v \<le> size_list size vs"
  "(k, v) \<in> set ms \<Longrightarrow> size v \<le> size_list (size_prod size size) ms"
  by (cases r; simp; fail)+ (auto intro!: size_list_estimation')

function sortJSONValue :: "gresult \<Rightarrow> string \<Rightarrow> string \<Rightarrow> string result"
  and sortJSONArray :: "gresult list \<Rightarrow> string \<Rightarrow> string \<Rightarrow> string result"
  and sortJSONObject :: "(gresult \<times> gresult) list \<Rightarrow> string \<Rightarrow> string \<Rightarrow> string result" where
  "sortJSONValue input inputJSON output =
     (case Kind input of
        IsArray values \<Rightarrow> sortJSONArray values inputJSON output
      | IsObject members \<Rightarrow> sortJSONObject members inputJSON output
      | Scalar \<Rightarrow> Inr (output @ inputJSON))"
| "sortJSONArray values inputJSON output =
     bindR
       (foldR (\<lambda>value (output, sep).
          bindR (rawJSONFromResult value inputJSON) (\<lambda>rawJSON.
          bindR (sortJSONValue value rawJSON (output @ [sep])) (\<lambda>output.
          Inr (output, CHR '','')))) values (output, CHR ''[''))
       (\<lambda>(output, sep). Inr (if sep = CHR ''['' then output @ ''[]'' else output @ '']''))"
| "sortJSONObject members inputJSON output =
     bindR (object_entries members inputJSON) (\<lambda>entries.
     bindR
       (foldR (\<lambda>(key, rawKey, value) (output, sep).
          bindR (rawJSONFromResult value inputJSON) (\<lambda>rawJSON.
          bindR (sortJSONValue value rawJSON (output @ [sep] @ rawKey @ '':'')) (\<lambda>output.
          Inr (output, CHR '','')))) (sort_key fst entries) (output, CHR ''{''))
       (\<lambda>(output, sep). Inr (if sep = CHR ''{'' then output @ ''{}'' else output @ ''}'')))"
  by pat_completeness auto

termination
  by (relation "measure (case_sum (\<lambda>(r, _). 2 * size r) (case_sum (\<lambda>(vs, _). 2 * size_list size vs + 1)
    (\<lambda>(ms, _). 2 * size_list (size_prod size size) ms + 1)))")
    (auto simp: less_Suc_eq_le dest!: gresult_size object_entries_values)

declare sortJSONValue.simps [simp del] sortJSONArray.simps [simp del] sortJSONObject.simps [simp del]

definition SortJSON :: "gjson \<Rightarrow> string \<Rightarrow> string \<Rightarrow> string result" where
  "SortJSON G input output =
     (let result = ParseBytes G input in
      bindR (rawJSONFromResult result input) (\<lambda>rawJSON.
      sortJSONValue result rawJSON output))"

definition CanonicalJSONAssumeValid :: "gjson \<Rightarrow> string \<Rightarrow> string result" where
  "CanonicalJSONAssumeValid G input = bindR (CompactJSON input []) (\<lambda>input. SortJSON G input [])"

definition CanonicalJSON :: "gjson \<Rightarrow> string \<Rightarrow> string result" where
  "CanonicalJSON G input =
     (if \<not> Valid G input then Inl (Error ''invalid json'') else CanonicalJSONAssumeValid G input)"

subsection \<open>JSON values\<close>

text \<open>
  A JSON value as it is written: atoms (numbers, literals and strings) by their text, members with
  the text of the key. \<open>jtext\<close> writes a value without whitespace, \<open>jsort\<close> orders the members of
  all its objects by what the text of their key stands for.
\<close>

datatype jvalue = JAtom string | JArr "jvalue list" | JObj "(string \<times> jvalue) list"

fun sep_by :: "string list \<Rightarrow> string" where
  "sep_by [] = []"
| "sep_by [x] = x"
| "sep_by (x # y # xs) = x @ '','' @ sep_by (y # xs)"

primrec jtext :: "jvalue \<Rightarrow> string" where
  "jtext (JAtom s) = s"
| "jtext (JArr vs) = ''['' @ sep_by (map jtext vs) @ '']''"
| "jtext (JObj ms) = ''{'' @ sep_by (map (\<lambda>(k, t). k @ '':'' @ t) (map (map_prod id jtext) ms)) @ ''}''"

primrec jsort :: "(string \<Rightarrow> string) \<Rightarrow> jvalue \<Rightarrow> jvalue" where
  "jsort d (JAtom s) = JAtom s"
| "jsort d (JArr vs) = JArr (map (jsort d) vs)"
| "jsort d (JObj ms) = JObj (sort_key (d \<circ> fst) (map (map_prod id (jsort d)) ms))"

text \<open>
  A result of gjson describes a value: its raw text is the text of the value, \<open>ForEach\<close> gives the
  results for the parts, and an index that is not zero is the place of a part in the raw text.
\<close>

definition located :: "string \<Rightarrow> gresult \<Rightarrow> bool" where
  "located raw r \<longleftrightarrow> Index r = 0 \<or> (\<exists>a b. raw = a @ Raw r @ b \<and> Index r = length a)"

inductive describes :: "(string \<Rightarrow> string) \<Rightarrow> gresult \<Rightarrow> jvalue \<Rightarrow> bool" for d where
  atom: "describes d (GResult s i x Scalar) (JAtom s)"
| array: "list_all2 (describes d) rs vs \<Longrightarrow> list_all (located (jtext (JArr vs))) rs \<Longrightarrow>
    describes d (GResult (jtext (JArr vs)) i x (IsArray rs)) (JArr vs)"
| object: "list_all2 (rel_prod (\<lambda>k t. Raw k = t \<and> Str_value k = d t) (describes d)) rs ms \<Longrightarrow>
    list_all (\<lambda>(k, r). located (jtext (JObj ms)) k \<and> located (jtext (JObj ms)) r) rs \<Longrightarrow>
    describes d (GResult (jtext (JObj ms)) i x (IsObject rs)) (JObj ms)"

text \<open>Values that differ in the order of the members of objects only.\<close>

inductive same_value :: "jvalue \<Rightarrow> jvalue \<Rightarrow> bool" where
  same_atom: "same_value (JAtom s) (JAtom s)"
| same_arr: "list_all2 same_value vs ws \<Longrightarrow> same_value (JArr vs) (JArr ws)"
| same_obj: "mset ms = mset ns \<Longrightarrow> list_all2 (rel_prod (=) same_value) ns os \<Longrightarrow> same_value (JObj ms) (JObj os)"

text \<open>No object has two members whose keys stand for the same string.\<close>

primrec keys_distinct :: "(string \<Rightarrow> string) \<Rightarrow> jvalue \<Rightarrow> bool" where
  "keys_distinct d (JAtom s) = True"
| "keys_distinct d (JArr vs) = list_all id (map (keys_distinct d) vs)"
| "keys_distinct d (JObj ms) = (distinct (map (d \<circ> fst) ms) \<and> list_all (id \<circ> snd) (map (map_prod id (keys_distinct d)) ms))"

primrec keys_sorted :: "(string \<Rightarrow> string) \<Rightarrow> jvalue \<Rightarrow> bool" where
  "keys_sorted d (JAtom s) = True"
| "keys_sorted d (JArr vs) = list_all id (map (keys_sorted d) vs)"
| "keys_sorted d (JObj ms) = (sorted (map (d \<circ> fst) ms) \<and> list_all (id \<circ> snd) (map (map_prod id (keys_sorted d)) ms))"

section \<open>Lemmas\<close>

lemma rawJSON_located: "located raw r \<Longrightarrow> rawJSONFromResult r raw = Inr (Raw r)"
  by (auto simp: located_def rawJSONFromResult_def)

lemma separated_loop:
  assumes "\<And>x out sep. x \<in> set xs \<Longrightarrow> step x (out, sep) = Inr (out @ [sep] @ tx x, CHR '','')"
  shows "foldR step xs (out, opn) = Inr (if xs = [] then (out, opn) else (out @ [opn] @ sep_by (map tx xs), CHR '',''))"
  using assms
proof (induction xs arbitrary: out opn)
  case (Cons x xs)
  have "foldR step (x # xs) (out, opn) = foldR step xs (out @ [opn] @ tx x, CHR '','')"
    using Cons.prems [of x] by simp
  also have "\<dots> = Inr (if xs = [] then (out @ [opn] @ tx x, CHR '','')
      else ((out @ [opn] @ tx x) @ '','' @ sep_by (map tx xs), CHR '',''))"
    using Cons.prems by (intro Cons.IH) simp
  finally show ?case by (cases xs) simp_all
qed simp

lemma insort_key_map: "insort_key f (g x) (map g xs) = map g (insort_key (\<lambda>x. f (g x)) x xs)"
  by (induction xs) auto

lemma sort_key_map: "sort_key f (map g xs) = map g (sort_key (\<lambda>x. f (g x)) xs)"
  by (induction xs) (simp_all add: insort_key_map)

lemma insort_key_same:
  "(\<And>y. y \<in> insert x (set xs) \<Longrightarrow> f y = g y) \<Longrightarrow> insort_key f x xs = insort_key g x xs"
  by (induction xs) auto

lemma sort_key_same: "(\<And>x. x \<in> set xs \<Longrightarrow> f x = g x) \<Longrightarrow> sort_key f xs = sort_key g xs"
  by (induction xs) (auto intro!: insort_key_same)

lemma list_all2_zipE:
  assumes "list_all2 R xs ys"
  obtains zs where "xs = map fst zs" "ys = map snd zs" "\<And>x y. (x, y) \<in> set zs \<Longrightarrow> R x y"
proof
  show "xs = map fst (zip xs ys)" "ys = map snd (zip xs ys)" using list_all2_lengthD [OF assms] by simp_all
  show "\<And>x y. (x, y) \<in> set (zip xs ys) \<Longrightarrow> R x y" using assms by (auto simp: list_all2_iff)
qed

lemma object_entries_located:
  assumes "\<And>k r. (k, r) \<in> set ms \<Longrightarrow> located raw k"
  shows "object_entries ms raw = Inr (map (\<lambda>(k, r). (Str_value k, Raw k, r)) ms)"
proof -
  have "foldR (object_entry raw) ms es = Inr (es @ map (\<lambda>(k, r). (Str_value k, Raw k, r)) ms)" for es
    using assms
  proof (induction ms arbitrary: es)
    case (Cons m ms)
    from Cons.prems have "located raw (fst m)" by (cases m) auto
    moreover have "foldR (object_entry raw) ms es = Inr (es @ map (\<lambda>(k, r). (Str_value k, Raw k, r)) ms)" for es
      using Cons.prems by (intro Cons.IH) auto
    moreover have "object_entry raw m es = Inr (es @ [(Str_value (fst m), Raw (fst m), snd m)])"
      using \<open>located raw (fst m)\<close> by (cases m) (simp add: object_entry_def rawJSON_located)
    ultimately show ?case by (simp add: case_prod_unfold)
  qed simp
  then show ?thesis by (simp add: object_entries_def)
qed

lemma foldR_map: "foldR f (map g xs) s = foldR (\<lambda>x. f (g x)) xs s"
  by (induction xs arbitrary: s) (simp_all add: bindR_def split: sum.split)

lemma sorted_array:
  assumes "\<And>r v out. (r, v) \<in> set zs \<Longrightarrow> located raw r \<and> sortJSONValue r (Raw r) out = Inr (out @ tx v)"
  shows "sortJSONArray (map fst zs) raw out = Inr (out @ ''['' @ sep_by (map (tx \<circ> snd) zs) @ '']'')"
proof -
  have "foldR (\<lambda>value (output, sep).
          bindR (rawJSONFromResult value raw) (\<lambda>rawJSON.
          bindR (sortJSONValue value rawJSON (output @ [sep])) (\<lambda>output.
          Inr (output, CHR '','')))) (map fst zs) (out, CHR ''['') =
      Inr (if zs = [] then (out, CHR ''['') else (out @ ''['' @ sep_by (map (tx \<circ> snd) zs), CHR '',''))"
    unfolding foldR_map using assms
    by (subst separated_loop [where tx = "tx \<circ> snd"]) (auto simp: rawJSON_located)
  then show ?thesis by (auto simp: sortJSONArray.simps)
qed

lemma sorted_object:
  assumes "\<And>k r t v out. ((k, r), (t, v)) \<in> set zs \<Longrightarrow>
      located raw k \<and> located raw r \<and> Raw k = t \<and> Str_value k = d t \<and> sortJSONValue r (Raw r) out = Inr (out @ tx v)"
  shows "sortJSONObject (map fst zs) raw out =
    Inr (out @ ''{'' @ sep_by (map (\<lambda>(t, v). t @ '':'' @ tx v) (sort_key (d \<circ> fst) (map snd zs))) @ ''}'')"
proof -
  define entry :: "(gresult \<times> gresult) \<times> string \<times> 'a \<Rightarrow> string \<times> string \<times> gresult"
    where "entry = (\<lambda>((k, r), (t, v)). (Str_value k, Raw k, r))"
  define line where "line = (\<lambda>(t, v). t @ '':'' @ tx v)"
  define sorted where "sorted = sort_key (\<lambda>z. fst (entry z)) zs"
  have entries: "object_entries (map fst zs) raw = Inr (map entry zs)"
    using assms by (subst object_entries_located) (auto simp: entry_def)
  have s1: "sort_key fst (map entry zs) = map entry sorted"
    by (simp add: sort_key_map sorted_def)
  have "sort_key (\<lambda>z. fst (entry z)) zs = sort_key (\<lambda>z. (d \<circ> fst) (snd z)) zs"
    using assms by (intro sort_key_same) (auto simp: entry_def)
  then have s2: "sort_key (d \<circ> fst) (map snd zs) = map snd sorted"
    by (simp add: sort_key_map sorted_def)
  have "foldR (\<lambda>(key, rawKey, value) (output, sep).
          bindR (rawJSONFromResult value raw) (\<lambda>rawJSON.
          bindR (sortJSONValue value rawJSON (output @ [sep] @ rawKey @ '':'')) (\<lambda>output.
          Inr (output, CHR '','')))) (map entry sorted) (out, CHR ''{'') =
      Inr (if sorted = [] then (out, CHR ''{'') else (out @ ''{'' @ sep_by (map (line \<circ> snd) sorted), CHR '',''))"
    unfolding foldR_map using assms
    by (subst separated_loop [where tx = "line \<circ> snd"])
      (auto simp: rawJSON_located sorted_def entry_def line_def)
  then show ?thesis by (auto simp: sortJSONObject.simps entries s1 s2 line_def)
qed

lemma sorted_value:
  "describes d r v \<Longrightarrow> sortJSONValue r (Raw r) out = Inr (out @ jtext (jsort d v))"
proof (induction arbitrary: out rule: describes.induct)
  case (atom s i x)
  then show ?case by (simp add: sortJSONValue.simps)
next
  case (array rs vs i x)
  from array(1) obtain zs where z: "rs = map fst zs" "vs = map snd zs"
    "\<And>r v. (r, v) \<in> set zs \<Longrightarrow> (describes d r v \<and> (\<forall>out. sortJSONValue r (Raw r) out = Inr (out @ jtext (jsort d v))))"
    by (rule list_all2_zipE) blast
  have "sortJSONArray (map fst zs) (jtext (JArr vs)) out =
      Inr (out @ ''['' @ sep_by (map ((\<lambda>v. jtext (jsort d v)) \<circ> snd) zs) @ '']'')"
    using z array(2) by (intro sorted_array) (auto simp: list_all_iff)
  then show ?case by (simp add: sortJSONValue.simps z comp_def)
next
  case (object rs ms i x)
  from object(1) obtain zs where z: "rs = map fst zs" "ms = map snd zs"
    "\<And>kr tv. (kr, tv) \<in> set zs \<Longrightarrow> rel_prod (\<lambda>k t. Raw k = t \<and> Str_value k = d t)
      (\<lambda>r v. describes d r v \<and> (\<forall>out. sortJSONValue r (Raw r) out = Inr (out @ jtext (jsort d v)))) kr tv"
    by (rule list_all2_zipE) blast
  have "sortJSONObject (map fst zs) (jtext (JObj ms)) out =
    Inr (out @ ''{'' @ sep_by (map (\<lambda>(t, v). t @ '':'' @ jtext (jsort d v)) (sort_key (d \<circ> fst) (map snd zs))) @ ''}'')"
    using z object(2) by (intro sorted_object) (fastforce simp: list_all_iff dest: z(3))
  then show ?case by (simp add: sortJSONValue.simps z sort_key_map case_prod_unfold comp_def)
qed

lemma sort_key_perm:
  assumes "mset xs = mset ys" "distinct (map f xs)"
  shows "sort_key f xs = sort_key f ys"
proof (rule map_sorted_distinct_set_unique [of f])
  have "mset (map f xs) = mset (map f ys)" using assms(1) by simp
  then have d: "distinct (map f ys)" using assms(2) mset_eq_imp_distinct_iff by blast
  have s: "set xs = set ys" using assms(1) mset_eq_setD by blast
  show "distinct (map f (sort_key f xs))" "distinct (map f (sort_key f ys))"
    using assms(2) d by (simp_all add: distinct_map)
  show "inj_on f (set (sort_key f xs) \<union> set (sort_key f ys))" using assms(2) s by (simp add: distinct_map)
  show "set (sort_key f xs) = set (sort_key f ys)" using s by simp
qed simp_all

lemma jsort_same: "same_value v w \<Longrightarrow> keys_distinct d v \<Longrightarrow> jsort d v = jsort d w"
proof (induction rule: same_value.induct)
  case (same_arr vs ws)
  then show ?case by (auto simp: list_all2_conv_all_nth list_all_length intro!: nth_equalityI)
next
  case (same_obj ms ns os)
  have elems: "keys_distinct d v" if "(k, v) \<in> set ns" for k v
    using same_obj.prems that mset_eq_setD [OF same_obj.hyps(1)] by (force simp: list_all_iff)
  have "map (map_prod id (jsort d)) ns = map (map_prod id (jsort d)) os"
  proof (rule list_all2_zipE [OF same_obj.IH])
    fix zs assume zs: "ns = map fst zs" "os = map snd zs" and rel: "\<And>x y. (x, y) \<in> set zs \<Longrightarrow>
      rel_prod (=) (\<lambda>v w. same_value v w \<and> (keys_distinct d v \<longrightarrow> jsort d v = jsort d w)) x y"
    have "map_prod id (jsort d) x = map_prod id (jsort d) y" if "(x, y) \<in> set zs" for x y
      using rel [OF that] elems [of "fst x" "snd x"] that by (cases x; cases y) (force simp: zs)
    then show ?thesis by (auto simp: zs)
  qed
  moreover have "sort_key (d \<circ> fst) (map (map_prod id (jsort d)) ms) = sort_key (d \<circ> fst) (map (map_prod id (jsort d)) ns)"
    using same_obj by (intro sort_key_perm) (simp_all add: comp_def)
  ultimately show ?case by simp
qed simp

lemma keys_sorted_jsort: "keys_sorted d (jsort d v)"
proof (induction v)
  case (JObj ms)
  have "keys_sorted d (jsort d v)" if "(k, v) \<in> set ms" for k v
    using JObj [OF that] by simp
  then show ?case by (auto simp: list_all_iff)
qed (auto simp: list_all_iff)

lemma same_value_jsort: "same_value v (jsort d v)"
proof (induction v)
  case (JObj ms)
  have "same_value v (jsort d v)" if "(k, v) \<in> set ms" for k v
    using JObj [OF that] by simp
  then have "list_all2 (rel_prod (=) same_value) (sort_key (d \<circ> fst) ms) (map (map_prod id (jsort d)) (sort_key (d \<circ> fst) ms))"
    unfolding list.rel_map(2) by (intro list.rel_refl_strong) (auto simp: rel_prod_sel)
  then have "same_value (JObj ms) (JObj (map (map_prod id (jsort d)) (sort_key (d \<circ> fst) ms)))"
    by (intro same_value.same_obj [of ms "sort_key (d \<circ> fst) ms"]) simp_all
  then show ?case by (simp add: sort_key_map comp_def)
qed (auto simp: list.rel_map intro!: same_value.intros list.rel_refl_strong)

lemma canonical_text:
  assumes "Valid G input" "lex input = Some ts" "describes d (ParseBytes G (render ts)) v"
    "located (render ts) (ParseBytes G (render ts))"
  shows "CanonicalJSON G input = Inr (jtext (jsort d v))"
  using assms compact_lex [OF assms(2), of "[]"] sorted_value [OF assms(3), of "[]"]
  by (simp add: CanonicalJSON_def CanonicalJSONAssumeValid_def SortJSON_def Let_def rawJSON_located)

section \<open>Properties\<close>

text \<open>
  C10. Two valid texts for the same value, up to whitespace, escapes and the order of the members of
  objects, have the same canonical text, and that is the text of the value with the members of all
  its objects in the order of their keys. gjson describes the compacted texts, and no object has a
  key twice.
\<close>

theorem canonical_json_unique:
  assumes "Valid G input" "lex input = Some ts" "describes d (ParseBytes G (render ts)) v"
      "located (render ts) (ParseBytes G (render ts))"
    and "Valid G input'" "lex input' = Some ts'" "describes d (ParseBytes G (render ts')) v'"
      "located (render ts') (ParseBytes G (render ts'))"
    and "same_value v v'" "keys_distinct d v"
  shows "\<exists>w. CanonicalJSON G input = Inr (jtext w) \<and> CanonicalJSON G input' = Inr (jtext w) \<and>
    same_value v w \<and> keys_sorted d w"
  using canonical_text [OF assms(1-4)] canonical_text [OF assms(5-8)] jsort_same [OF assms(9,10)]
    same_value_jsort [of v d] keys_sorted_jsort [of d v] by auto

end
