(* ===== verification/Sample_JSON.thy ===== *)
theory Sample_JSON
  imports Canonical_JSON
begin

text \<open>
  A JSON reader that answers for two texts, and a witness: two texts that differ in whitespace, in
  an escape and in the order of the members have the same canonical text.
\<close>

section \<open>Specification\<close>

definition first_text :: string where
  "first_text = ''{ '' @ quote # ''b'' @ quote # '' :1, '' @ quote # ''a'' @ quote # '':2}''"

definition second_text :: string where
  "second_text = CHR ''{'' # quote # backslash # ''u0061'' @ quote # '':2,'' @ quote # ''b'' @ quote # '':1 }''"

definition key_a :: string where "key_a = [quote, CHR ''a'', quote]"

definition key_b :: string where "key_b = [quote, CHR ''b'', quote]"

definition first_value :: jvalue where
  "first_value = JObj [(key_b, JAtom ''1''), (key_a, JAtom ''2'')]"

definition second_value :: jvalue where
  "second_value = JObj [(key_a, JAtom ''2''), (key_b, JAtom ''1'')]"

definition key_result :: "string \<Rightarrow> nat \<Rightarrow> gresult" where
  "key_result k i = GResult k i (butlast (tl k)) Scalar"

definition number_result :: "string \<Rightarrow> nat \<Rightarrow> gresult" where
  "number_result s i = GResult s i s Scalar"

definition sample_gjson :: gjson where
  "sample_gjson = \<lparr>Valid = (\<lambda>_. True),
     ParseBytes = (\<lambda>s.
       if s = jtext first_value
       then GResult s 0 s (IsObject [(key_result key_b 1, number_result ''1'' 5), (key_result key_a 7, number_result ''2'' 11)])
       else GResult s 0 s (IsObject [(key_result key_a 1, number_result ''2'' 5), (key_result key_b 7, number_result ''1'' 11)]))\<rparr>"

abbreviation (input) first_tokens :: "token list" where
  "first_tokens \<equiv> [Punct (CHR ''{''), Str ''b'', Punct (CHR '':''), Punct (CHR ''1''), Punct (CHR '',''),
     Str ''a'', Punct (CHR '':''), Punct (CHR ''2''), Punct (CHR ''}'')]"

abbreviation (input) second_tokens :: "token list" where
  "second_tokens \<equiv> [Punct (CHR ''{''), Str ''a'', Punct (CHR '':''), Punct (CHR ''2''), Punct (CHR '',''),
     Str ''b'', Punct (CHR '':''), Punct (CHR ''1''), Punct (CHR ''}'')]"

section \<open>Lemmas\<close>

lemmas sample_json_defs = first_text_def second_text_def key_a_def key_b_def first_value_def second_value_def
  key_result_def number_result_def

lemma lex_samples: "lex first_text = Some first_tokens" "lex second_text = Some second_tokens"
  by (simp_all add: sample_json_defs less_char_def lex_escape_def unescape_def hex_value_def hex_digit_def
      EncodeRune_def char_of_def bit_0)

lemma render_samples:
  "render first_tokens = jtext first_value" "render second_tokens = jtext second_value"
  by (simp_all add: sample_json_defs render_def escape_byte_def less_char_def)

lemma located_at: "raw = a @ Raw r @ b \<Longrightarrow> Index r = length a \<Longrightarrow> located raw r"
  by (auto simp: located_def)

lemma describes_pair:
  assumes "v = JObj [(k1, JAtom n1), (k2, JAtom n2)]" "raw = jtext v"
    "Index kr1 = 1" "Index nr1 = 1 + length k1 + 1" "Index kr2 = 1 + length k1 + 1 + length n1 + 1"
    "Index nr2 = 1 + length k1 + 1 + length n1 + 1 + length k2 + 1"
    "Raw kr1 = k1" "Raw kr2 = k2" "Str_value kr1 = d k1" "Str_value kr2 = d k2"
    "nr1 = GResult n1 i1 s1 Scalar" "nr2 = GResult n2 i2 s2 Scalar"
  shows "describes d (GResult raw 0 x (IsObject [(kr1, nr1), (kr2, nr2)])) v"
proof -
  have l: "located raw kr1" "located raw nr1" "located raw kr2" "located raw nr2"
    using assms(3-12)
    by (auto simp: assms(1,2)
        intro: located_at [where a = "''{''"] located_at [where a = "''{'' @ k1 @ '':''"]
          located_at [where a = "''{'' @ k1 @ '':'' @ n1 @ '',''"]
          located_at [where a = "''{'' @ k1 @ '':'' @ n1 @ '','' @ k2 @ '':''"])
  show ?thesis
    unfolding assms(2) using l assms(2,7-12) unfolding assms(1)
    by (intro describes.object) (auto intro: describes.atom)
qed

lemma describes_samples:
  "describes (butlast \<circ> tl) (ParseBytes sample_gjson (jtext first_value)) first_value"
  "describes (butlast \<circ> tl) (ParseBytes sample_gjson (jtext second_value)) second_value"
  "Index (ParseBytes sample_gjson s) = 0" "Valid sample_gjson s"
proof -
  have ne: "jtext second_value \<noteq> jtext first_value" by (simp add: sample_json_defs)
  show "describes (butlast \<circ> tl) (ParseBytes sample_gjson (jtext first_value)) first_value"
    unfolding sample_gjson_def by (simp, rule describes_pair [OF first_value_def refl]) (simp_all add: sample_json_defs)
  show "describes (butlast \<circ> tl) (ParseBytes sample_gjson (jtext second_value)) second_value"
    unfolding sample_gjson_def using ne
    by (simp, intro describes_pair [OF second_value_def refl]) (simp_all add: sample_json_defs)
qed (simp_all add: sample_gjson_def)

lemma same_samples: "same_value first_value second_value" "keys_distinct (butlast \<circ> tl) first_value"
proof -
  show "same_value first_value second_value"
    unfolding first_value_def second_value_def
    by (rule same_value.same_obj [of _ "[(key_a, JAtom ''2''), (key_b, JAtom ''1'')]"])
      (simp_all add: same_value.same_atom)
qed (simp add: sample_json_defs)

section \<open>Witnesses\<close>

theorem canonical_json_unique_witness:
  "\<exists>w. CanonicalJSON sample_gjson first_text = Inr (jtext w) \<and> CanonicalJSON sample_gjson second_text = Inr (jtext w) \<and>
    same_value first_value w \<and> keys_sorted (butlast \<circ> tl) w"
  using canonical_json_unique [OF describes_samples(4) lex_samples(1) _ _ describes_samples(4) lex_samples(2) _ _ same_samples]
  by (simp add: render_samples describes_samples located_def)

end
