(* ===== verification/Signed_JSON.thy ===== *)
theory Signed_JSON
  imports Canonical_JSON
begin

text \<open>
  Signing and verifying JSON objects (\<open>skunkworks/gomatrixserverlib/signing.go\<close>). The JSON library and the
  signature scheme are arguments; what is relied on of them is stated in \<open>faithful_json\<close> and \<open>signs_for\<close>.
\<close>

section \<open>Specification\<close>

subsection \<open>Libraries\<close>

text \<open>
  The JSON library on the types that are read and written here: objects with their members as raw
  text (\<open>map[string]*RawMessage\<close>: a member that is \<open>null\<close> is a nil pointer; the object \<open>null\<close> is
  a nil map), and signatures by entity and key.
\<close>

type_synonym object = "string option smap option"

type_synonym signatures = "string smap option smap option"

record json_lib =
  lib_gjson :: gjson
  unmarshalObject :: "string \<Rightarrow> object result"
  marshalObject :: "object \<Rightarrow> string result"
  unmarshalSignatures :: "string \<Rightarrow> signatures result"
  marshalSignatures :: "signatures \<Rightarrow> string result"
  unmarshalSignatureKeys :: "string \<Rightarrow> signatures result"

text \<open>The curve: \<open>Verify\<close> is only defined on keys of the right size; the library panics on others.\<close>

record ed25519 =
  ed25519_Sign :: "string \<Rightarrow> string \<Rightarrow> string"
  ed25519_Verify :: "string \<Rightarrow> string \<Rightarrow> string \<Rightarrow> bool"

definition PublicKeySize :: nat where "PublicKeySize = 32"

definition SignatureSize :: nat where "SignatureSize = 64"

text \<open>Reading, deleting and assigning an entry of a map that may be nil.\<close>

definition map_get :: "'v smap option \<Rightarrow> string \<Rightarrow> 'v option" where
  "map_get m k = (case m of None \<Rightarrow> None | Some m \<Rightarrow> map_of m k)"

definition map_delete :: "string \<Rightarrow> 'v smap option \<Rightarrow> 'v smap option" where
  "map_delete k m = map_option (remove k) m"

definition map_assign :: "string \<Rightarrow> 'v \<Rightarrow> 'v smap option \<Rightarrow> 'v smap option result" where
  "map_assign k v m = (case m of
       None \<Rightarrow> Inl (Panic ''assignment to entry in nil map'')
     | Some m \<Rightarrow> Inr (Some (store k v m)))"

subsection \<open>Signing JSON\<close>

text \<open>The signatures of one entity, nil when there are none.\<close>

definition signatures_of :: "signatures \<Rightarrow> string \<Rightarrow> string smap option" where
  "signatures_of signatures entity = (case map_get signatures entity of None \<Rightarrow> None | Some m \<Rightarrow> m)"

text \<open>Take the signatures that are there already out of the object.\<close>

definition take_signatures :: "json_lib \<Rightarrow> object \<Rightarrow> (signatures \<times> object) result" where
  "take_signatures L object =
     (case map_get object ''signatures'' of
         Some (Some rawSignatures) \<Rightarrow>
           bindR (unmarshalSignatures L rawSignatures) (\<lambda>signatures.
           Inr (signatures, map_delete ''signatures'' object))
       | _ \<Rightarrow> Inr (Some [], object))"

definition add_signature :: "string \<Rightarrow> string \<Rightarrow> string \<Rightarrow> signatures \<Rightarrow> signatures result" where
  "add_signature signingName keyID signature signatures =
     (case signatures_of signatures signingName of
         Some signaturesForEntity \<Rightarrow>
           map_assign signingName (Some (store keyID signature signaturesForEntity)) signatures
       | None \<Rightarrow> map_assign signingName (Some [(keyID, signature)]) signatures)"

definition SignJSON ::
  "json_lib \<Rightarrow> ed25519 \<Rightarrow> string \<Rightarrow> string \<Rightarrow> string \<Rightarrow> string \<Rightarrow> string result" where
  "SignJSON L E signingName keyID privateKey message =
     bindR (unmarshalObject L message) (\<lambda>object.
     let rawUnsigned = map_get object ''unsigned'' in
     bindR (take_signatures L (map_delete ''unsigned'' object)) (\<lambda>(signatures, object).
     bindR (marshalObject L object) (\<lambda>unsorted.
     bindR (CanonicalJSON (lib_gjson L) unsorted) (\<lambda>canonical.
     bindR (add_signature signingName keyID (ed25519_Sign E privateKey canonical) signatures) (\<lambda>signatures.
     bindR (marshalSignatures L signatures) (\<lambda>rawSignatures.
     bindR (map_assign ''signatures'' (Some rawSignatures) object) (\<lambda>object.
     bindR (case rawUnsigned of
         Some raw \<Rightarrow> map_assign ''unsigned'' raw object
       | None \<Rightarrow> Inr object) (\<lambda>object.
     marshalObject L object))))))))"

definition ListKeyIDs :: "json_lib \<Rightarrow> string \<Rightarrow> string \<Rightarrow> string list result" where
  "ListKeyIDs L signingName message =
     bindR (unmarshalSignatureKeys L message) (\<lambda>signatures.
     Inr (case signatures_of signatures signingName of None \<Rightarrow> [] | Some m \<Rightarrow> map fst m))"

definition VerifyJSON ::
  "json_lib \<Rightarrow> ed25519 \<Rightarrow> string \<Rightarrow> string \<Rightarrow> string \<Rightarrow> string \<Rightarrow> unit result" where
  "VerifyJSON L E signingName keyID publicKey message =
     bindR (unmarshalObject L message) (\<lambda>object.
     case map_get object ''signatures'' of
       Some (Some rawSignatures) \<Rightarrow>
         bindR (unmarshalSignatures L rawSignatures) (\<lambda>signatures.
         case map_get (signatures_of signatures signingName) keyID of
           None \<Rightarrow> Inl (Error ''No signature'')
         | Some signature \<Rightarrow>
             if length signature \<noteq> SignatureSize then Inl (Error ''Bad signature length'')
             else
               let object = map_delete ''signatures'' (map_delete ''unsigned'' object) in
               bindR (marshalObject L object) (\<lambda>unsorted.
               bindR (CanonicalJSON (lib_gjson L) unsorted) (\<lambda>canonical.
               if length publicKey \<noteq> PublicKeySize then Inl (Panic ''ed25519: bad public key length'')
               else if ed25519_Verify E publicKey canonical signature then Inr ()
               else Inl (Error ''Bad signature''))))
     | _ \<Rightarrow> Inl (Error ''No signatures''))"

subsection \<open>What the libraries promise\<close>

text \<open>
  Objects that have been read have no two members of the same name and hold valid texts other than
  \<open>null\<close>; writing depends on the members and not on their order, and is undone by reading; so are
  signatures.
\<close>

definition object_ok :: "gjson \<Rightarrow> string option smap \<Rightarrow> bool" where
  "object_ok G ob \<longleftrightarrow> smap_ok ob \<and>
     (\<forall>k raw. map_of ob k = Some (Some raw) \<longrightarrow> Valid G raw \<and> raw \<noteq> ''null'')"

definition faithful_json :: "json_lib \<Rightarrow> bool" where
  "faithful_json L \<longleftrightarrow>
     (\<forall>s ob. unmarshalObject L s = Inr (Some ob) \<longrightarrow> object_ok (lib_gjson L) ob) \<and>
     (\<forall>ob ob'. smap_ok ob \<longrightarrow> smap_ok ob' \<longrightarrow> map_of ob = map_of ob' \<longrightarrow>
        marshalObject L (Some ob) = marshalObject L (Some ob')) \<and>
     (\<forall>ob s. object_ok (lib_gjson L) ob \<longrightarrow> marshalObject L (Some ob) = Inr s \<longrightarrow>
        (\<exists>ob'. unmarshalObject L s = Inr (Some ob') \<and> map_of ob' = map_of ob)) \<and>
     (\<forall>m raw. marshalSignatures L (Some m) = Inr raw \<longrightarrow>
        Valid (lib_gjson L) raw \<and> raw \<noteq> ''null'' \<and>
        (\<exists>m'. unmarshalSignatures L raw = Inr m' \<and>
           (\<forall>n k. map_get (signatures_of m' n) k = map_get (signatures_of (Some m) n) k)))"

definition signs_for :: "ed25519 \<Rightarrow> string \<Rightarrow> string \<Rightarrow> bool" where
  "signs_for E privateKey publicKey \<longleftrightarrow> length publicKey = PublicKeySize \<and>
     (\<forall>m. length (ed25519_Sign E privateKey m) = SignatureSize \<and>
        ed25519_Verify E publicKey m (ed25519_Sign E privateKey m))"

text \<open>The signatures of an object, and the object without what is not signed.\<close>

definition has_signatures :: "json_lib \<Rightarrow> string option smap \<Rightarrow> signatures \<Rightarrow> bool" where
  "has_signatures L ob sg \<longleftrightarrow> (case map_of ob ''signatures'' of
     Some (Some raw) \<Rightarrow> unmarshalSignatures L raw = Inr sg | _ \<Rightarrow> sg = Some [])"

definition signed_part :: "string option smap \<Rightarrow> string option smap" where
  "signed_part ob = remove ''signatures'' (remove ''unsigned'' ob)"

section \<open>Lemmas\<close>

lemma map_get_simps [simp]:
  "map_get None k = None" "map_get (Some m) k = map_of m k"
  "map_delete k None = None" "map_delete k (Some m) = Some (remove k m)"
  "map_assign k v None = Inl (Panic ''assignment to entry in nil map'')"
  "map_assign k v (Some m) = Inr (Some (store k v m))"
  by (simp_all add: map_get_def map_delete_def map_assign_def)

lemma signatures_of_simps [simp]:
  "signatures_of None n = None"
  "signatures_of (Some m) n = (case map_of m n of None \<Rightarrow> None | Some e \<Rightarrow> e)"
  by (simp_all add: signatures_of_def)

lemma add_signature_adds:
  assumes "add_signature n k v sg = Inr sg'"
  obtains m' where "sg' = Some m'"
    "\<And>n' k'. map_get (signatures_of sg' n') k' =
       (if n' = n \<and> k' = k then Some v else map_get (signatures_of sg n') k')"
proof (cases sg)
  case None
  with assms show ?thesis by (simp add: add_signature_def)
next
  case (Some m)
  define e where "e = (case signatures_of sg n of None \<Rightarrow> [] | Some e \<Rightarrow> e)"
  have sg': "sg' = Some (store n (Some (store k v e)) m)"
    using assms by (simp add: add_signature_def Some e_def split: option.splits)
  have e: "map_of e = map_get (signatures_of sg n)"
    by (rule ext) (simp add: e_def map_get_def split: option.split)
  show ?thesis
  proof (rule that [OF sg'])
    fix n' k'
    show "map_get (signatures_of sg' n') k' =
        (if n' = n \<and> k' = k then Some v else map_get (signatures_of sg n') k')"
      unfolding sg' using e by (cases "n' = n") (simp_all add: Some)
  qed
qed

lemma take_signatures_iff:
  "map_of ob ''signatures'' \<noteq> Some None \<Longrightarrow>
   take_signatures L (Some (remove ''unsigned'' ob)) = Inr (sg, o2) \<longleftrightarrow>
     has_signatures L ob sg \<and> o2 = Some (signed_part ob)"
  by (auto simp: take_signatures_def has_signatures_def signed_part_def result_simps split: option.splits)

lemma SignJSON_cases:
  assumes "SignJSON L E name kid sk msg = Inr sm" "unmarshalObject L msg = Inr (Some ob)"
    "map_of ob ''signatures'' \<noteq> Some None"
  obtains sg unsorted canonical m' raw ob' where
    "has_signatures L ob sg"
    "marshalObject L (Some (signed_part ob)) = Inr unsorted"
    "CanonicalJSON (lib_gjson L) unsorted = Inr canonical"
    "marshalSignatures L (Some m') = Inr raw"
    "\<And>n k. map_get (signatures_of (Some m') n) k =
       (if n = name \<and> k = kid then Some (ed25519_Sign E sk canonical) else map_get (signatures_of sg n) k)"
    "map_of ob' = (map_of ob)(''signatures'' \<mapsto> Some raw)" "smap_ok ob \<Longrightarrow> smap_ok ob'"
    "marshalObject L (Some ob') = Inr sm"
proof -
  have "bindR (take_signatures L (Some (remove ''unsigned'' ob))) (\<lambda>(signatures, object).
     bindR (marshalObject L object) (\<lambda>unsorted.
     bindR (CanonicalJSON (lib_gjson L) unsorted) (\<lambda>canonical.
     bindR (add_signature name kid (ed25519_Sign E sk canonical) signatures) (\<lambda>signatures.
     bindR (marshalSignatures L signatures) (\<lambda>rawSignatures.
     bindR (map_assign ''signatures'' (Some rawSignatures) object) (\<lambda>object.
     bindR (case map_of ob ''unsigned'' of
         Some raw \<Rightarrow> map_assign ''unsigned'' raw object
       | None \<Rightarrow> Inr object) (\<lambda>object.
     marshalObject L object))))))) = Inr sm"
    using assms(1) by (simp add: SignJSON_def assms(2))
  then obtain sg unsorted canonical sg' raw where sg: "has_signatures L ob sg"
    and u: "marshalObject L (Some (signed_part ob)) = Inr unsorted"
    and c: "CanonicalJSON (lib_gjson L) unsorted = Inr canonical"
    and s: "add_signature name kid (ed25519_Sign E sk canonical) sg = Inr sg'"
    and r: "marshalSignatures L sg' = Inr raw"
    and f: "bindR (case map_of ob ''unsigned'' of
         Some raw' \<Rightarrow> map_assign ''unsigned'' raw' (Some (store ''signatures'' (Some raw) (signed_part ob)))
       | None \<Rightarrow> Inr (Some (store ''signatures'' (Some raw) (signed_part ob)))) (marshalObject L) = Inr sm"
    by (auto simp: bindR_Inr_iff take_signatures_iff [OF assms(3)])
  define ob' where "ob' = (case map_of ob ''unsigned'' of
      Some raw' \<Rightarrow> store ''unsigned'' raw' (store ''signatures'' (Some raw) (signed_part ob))
    | None \<Rightarrow> store ''signatures'' (Some raw) (signed_part ob))"
  have "marshalObject L (Some ob') = Inr sm" using f by (simp add: ob'_def split: option.splits)
  moreover have "map_of ob' = (map_of ob)(''signatures'' \<mapsto> Some raw)"
    by (rule ext) (simp add: ob'_def signed_part_def split: option.split)
  moreover have "smap_ok ob \<Longrightarrow> smap_ok ob'" by (simp add: ob'_def signed_part_def split: option.split)
  moreover from s obtain m' where m': "sg' = Some m'" "\<And>n k. map_get (signatures_of sg' n) k =
       (if n = name \<and> k = kid then Some (ed25519_Sign E sk canonical) else map_get (signatures_of sg n) k)"
    by (rule add_signature_adds) blast
  ultimately show thesis
    using that [OF sg u c r [unfolded m'(1)] m'(2) [unfolded m'(1)]] by blast
qed

lemma faithful_jsonD:
  assumes "faithful_json L"
  shows "unmarshalObject L s = Inr (Some ob) \<Longrightarrow> object_ok (lib_gjson L) ob"
    and "smap_ok ob \<Longrightarrow> smap_ok ob' \<Longrightarrow> map_of ob = map_of ob' \<Longrightarrow>
      marshalObject L (Some ob) = marshalObject L (Some ob')"
    and "object_ok (lib_gjson L) ob \<Longrightarrow> marshalObject L (Some ob) = Inr s \<Longrightarrow>
      \<exists>ob'. unmarshalObject L s = Inr (Some ob') \<and> map_of ob' = map_of ob"
    and "marshalSignatures L (Some m) = Inr raw \<Longrightarrow> Valid (lib_gjson L) raw \<and> raw \<noteq> ''null'' \<and>
      (\<exists>m'. unmarshalSignatures L raw = Inr m' \<and>
           (\<forall>n k. map_get (signatures_of m' n) k = map_get (signatures_of (Some m) n) k))"
  using assms unfolding faithful_json_def by blast+

lemma VerifyJSON_iff:
  assumes "unmarshalObject L msg = Inr (Some ob)" "map_of ob ''signatures'' = Some (Some raw)"
    "unmarshalSignatures L raw = Inr sg" "map_get (signatures_of sg n) k = Some v"
    "length v = SignatureSize" "length pk = PublicKeySize"
    "marshalObject L (Some (signed_part ob)) = Inr unsorted" "CanonicalJSON (lib_gjson L) unsorted = Inr canonical"
  shows "VerifyJSON L E n k pk msg = Inr () \<longleftrightarrow> ed25519_Verify E pk canonical v"
  using assms by (simp add: VerifyJSON_def signed_part_def)

lemma VerifyJSON_Inr:
  assumes "VerifyJSON L E n k pk msg = Inr ()" "unmarshalObject L msg = Inr (Some ob)"
  obtains raw sg v unsorted canonical where "map_of ob ''signatures'' = Some (Some raw)"
    "unmarshalSignatures L raw = Inr sg" "map_get (signatures_of sg n) k = Some v"
    "length v = SignatureSize" "length pk = PublicKeySize"
    "marshalObject L (Some (signed_part ob)) = Inr unsorted" "CanonicalJSON (lib_gjson L) unsorted = Inr canonical"
    "ed25519_Verify E pk canonical v"
  using assms
  by (auto simp: VerifyJSON_def signed_part_def result_simps Let_def split: option.splits if_splits)

lemma signed_part_same:
  "smap_ok ob \<Longrightarrow> smap_ok (signed_part ob)"
  "map_of ob' = (map_of ob)(''signatures'' \<mapsto> x) \<Longrightarrow> map_of (signed_part ob') = map_of (signed_part ob)"
  by (simp_all add: signed_part_def fun_eq_iff)

lemma SignJSON_signed:
  assumes L: "faithful_json L" and S: "SignJSON L E name kid sk msg = Inr sm"
    and U: "unmarshalObject L msg = Inr (Some ob)" and N: "map_of ob ''signatures'' \<noteq> Some None"
  obtains sg unsorted canonical raw sg' ob' where
    "has_signatures L ob sg" "marshalObject L (Some (signed_part ob)) = Inr unsorted"
    "CanonicalJSON (lib_gjson L) unsorted = Inr canonical"
    "unmarshalObject L sm = Inr (Some ob')" "map_of ob' ''signatures'' = Some (Some raw)"
    "unmarshalSignatures L raw = Inr sg'" "marshalObject L (Some (signed_part ob')) = Inr unsorted"
    "\<And>n k. map_get (signatures_of sg' n) k =
       (if n = name \<and> k = kid then Some (ed25519_Sign E sk canonical) else map_get (signatures_of sg n) k)"
proof (rule SignJSON_cases [OF S U N])
  fix sg unsorted canonical m' raw ob'
  assume sg: "has_signatures L ob sg" and u: "marshalObject L (Some (signed_part ob)) = Inr unsorted"
    and c: "CanonicalJSON (lib_gjson L) unsorted = Inr canonical" and r: "marshalSignatures L (Some m') = Inr raw"
    and m': "\<And>n k. map_get (signatures_of (Some m') n) k =
       (if n = name \<and> k = kid then Some (ed25519_Sign E sk canonical) else map_get (signatures_of sg n) k)"
    and ob': "map_of ob' = (map_of ob)(''signatures'' \<mapsto> Some raw)" "smap_ok ob \<Longrightarrow> smap_ok ob'"
    and s: "marshalObject L (Some ob') = Inr sm"
  note F = faithful_jsonD [OF L]
  have ok: "object_ok (lib_gjson L) ob" by (rule F(1) [OF U])
  obtain sg' where sg': "unmarshalSignatures L raw = Inr sg'"
    "\<And>n k. map_get (signatures_of sg' n) k = map_get (signatures_of (Some m') n) k"
    and raw: "Valid (lib_gjson L) raw" "raw \<noteq> ''null''"
    using F(4) [OF r] by blast
  have "object_ok (lib_gjson L) ob'" using ok ob' raw by (auto simp: object_ok_def split: if_splits)
  from F(3) [OF this s] obtain ob'' where ob'': "unmarshalObject L sm = Inr (Some ob'')" "map_of ob'' = map_of ob'"
    by blast
  have "smap_ok ob''" using F(1) [OF ob''(1)] by (simp add: object_ok_def)
  then have "marshalObject L (Some (signed_part ob'')) = marshalObject L (Some (signed_part ob))"
    using ok ob'' ob' by (intro F(2) signed_part_same) (simp_all add: object_ok_def)
  with u have "marshalObject L (Some (signed_part ob'')) = Inr unsorted" by simp
  with that [OF sg u c ob''(1)] ob'' ob' sg' m' show thesis by simp
qed

section \<open>Properties\<close>

text \<open>
  C12. A message that has been signed verifies with the public key that belongs to the private key, and every
  other signature that verified before still does. The libraries are faithful, and the message is an object
  whose signatures, if it has any, are not null.
\<close>

theorem SignJSON_verifies:
  assumes "faithful_json L" "signs_for E sk pk" "SignJSON L E name kid sk msg = Inr sm"
    "unmarshalObject L msg = Inr (Some ob)" "map_of ob ''signatures'' \<noteq> Some None"
  shows "VerifyJSON L E name kid pk sm = Inr () \<and>
    (\<forall>n k pk'. (n, k) \<noteq> (name, kid) \<longrightarrow> VerifyJSON L E n k pk' msg = Inr () \<longrightarrow>
       VerifyJSON L E n k pk' sm = Inr ())"
proof (rule SignJSON_signed [OF assms(1,3-5)])
  fix sg unsorted canonical raw sg' ob'
  assume sg: "has_signatures L ob sg" "marshalObject L (Some (signed_part ob)) = Inr unsorted"
    and c: "CanonicalJSON (lib_gjson L) unsorted = Inr canonical"
    and sm: "unmarshalObject L sm = Inr (Some ob')" "map_of ob' ''signatures'' = Some (Some raw)"
      "unmarshalSignatures L raw = Inr sg'"
    and u: "marshalObject L (Some (signed_part ob')) = Inr unsorted"
    and g: "\<And>n k. map_get (signatures_of sg' n) k =
       (if n = name \<and> k = kid then Some (ed25519_Sign E sk canonical) else map_get (signatures_of sg n) k)"
  note iff = VerifyJSON_iff [OF sm _ _ _ u c]
  have "VerifyJSON L E name kid pk sm = Inr ()"
    using iff [of name kid "ed25519_Sign E sk canonical" pk E] g assms(2) by (simp add: signs_for_def)
  moreover have "VerifyJSON L E n k pk' sm = Inr ()"
    if "(n, k) \<noteq> (name, kid)" and V: "VerifyJSON L E n k pk' msg = Inr ()" for n k pk'
  proof (rule VerifyJSON_Inr [OF V assms(4)])
    fix raw0 sg0 v unsorted0 canonical0
    assume 0: "map_of ob ''signatures'' = Some (Some raw0)" "unmarshalSignatures L raw0 = Inr sg0"
      "map_get (signatures_of sg0 n) k = Some v" "length v = SignatureSize" "length pk' = PublicKeySize"
      "marshalObject L (Some (signed_part ob)) = Inr unsorted0"
      "CanonicalJSON (lib_gjson L) unsorted0 = Inr canonical0" "ed25519_Verify E pk' canonical0 v"
    with sg c have "sg0 = sg" "canonical0 = canonical" by (simp_all add: has_signatures_def)
    with 0 g [of n k] that(1) show ?thesis using iff [of n k v pk' E] by auto
  qed
  ultimately show ?thesis by blast
qed

end
