(* ===== verification/Actions.thy ===== *)
theory Actions
  imports Prelude
begin

text \<open>
  Actions on a shared state that can fail: an action returns its result together with the new state,
  because what a handler wrote before an error stays written. The rules below carry a predicate of the
  state, or a relation between the states before and after, through a sequence of actions.
\<close>

section \<open>Combinators\<close>

type_synonym ('a, 's) action = "'s \<Rightarrow> 'a result \<times> 's"

definition returnS :: "'a \<Rightarrow> ('a, 's) action" where
  "returnS x s = (Inr x, s)"

definition liftS :: "'a result \<Rightarrow> ('a, 's) action" where
  "liftS r s = (r, s)"

definition bindS :: "('a, 's) action \<Rightarrow> ('a \<Rightarrow> ('b, 's) action) \<Rightarrow> ('b, 's) action" where
  "bindS m f s = (case m s of (Inl e, s1) \<Rightarrow> (Inl e, s1) | (Inr x, s1) \<Rightarrow> f x s1)"

definition getS :: "('s \<Rightarrow> 'a) \<Rightarrow> ('a, 's) action" where
  "getS f s = (Inr (f s), s)"

definition modifyS :: "('s \<Rightarrow> 's) \<Rightarrow> (unit, 's) action" where
  "modifyS f s = (Inr (), f s)"

text \<open>The result as a value: the caller looks at the error itself.\<close>

definition tryS :: "('a, 's) action \<Rightarrow> ('a result, 's) action" where
  "tryS m s = (case m s of (r, s1) \<Rightarrow> (Inr r, s1))"

text \<open>A loop that passes a value on and ends at the first error.\<close>

fun loopS :: "('x \<Rightarrow> 'a \<Rightarrow> ('a, 's) action) \<Rightarrow> 'x list \<Rightarrow> 'a \<Rightarrow> ('a, 's) action" where
  "loopS f [] a = returnS a"
| "loopS f (x # xs) a = bindS (f x a) (loopS f xs)"

section \<open>Specification\<close>

text \<open>An action that keeps a predicate of the state, also when it fails, and whose results have a property.\<close>

definition safe :: "('s \<Rightarrow> bool) \<Rightarrow> ('a, 's) action \<Rightarrow> ('a \<Rightarrow> bool) \<Rightarrow> bool" where
  "safe P m Q \<longleftrightarrow> (\<forall>s. P s \<longrightarrow> P (snd (m s)) \<and> (\<forall>x. fst (m s) = Inr x \<longrightarrow> Q x))"

text \<open>An action whose state before and after are related, also when it fails.\<close>

definition moves :: "('s \<Rightarrow> 's \<Rightarrow> bool) \<Rightarrow> ('a, 's) action \<Rightarrow> bool" where
  "moves R m \<longleftrightarrow> (\<forall>s. R s (snd (m s)))"

text \<open>
  A triple: from a state with the first predicate the action ends in one with the second, or fails in one with
  the third.
\<close>

definition hoare :: "('s \<Rightarrow> bool) \<Rightarrow> ('a, 's) action \<Rightarrow> ('a \<Rightarrow> 's \<Rightarrow> bool) \<Rightarrow> ('s \<Rightarrow> bool) \<Rightarrow> bool" where
  "hoare P m Q E \<longleftrightarrow> (\<forall>s. P s \<longrightarrow> (case m s of (Inr x, s1) \<Rightarrow> Q x s1 | (Inl e, s1) \<Rightarrow> E s1))"

section \<open>Lemmas\<close>

lemma bindS_simps [simp]:
  "m s = (Inl e, s1) \<Longrightarrow> bindS m f s = (Inl e, s1)"
  "m s = (Inr x, s1) \<Longrightarrow> bindS m f s = f x s1"
  by (simp_all add: bindS_def)

lemma action_simps [simp]: "returnS x s = (Inr x, s)" "liftS r s = (r, s)"
  by (simp_all add: returnS_def liftS_def)

lemma safe_bindS:
  assumes "safe P m Q" "\<And>x. Q x \<Longrightarrow> safe P (f x) R"
  shows "safe P (bindS m f) R"
  unfolding safe_def
proof (intro allI impI)
  fix s assume s: "P s"
  obtain r s1 where m: "m s = (r, s1)" by (cases "m s")
  with assms(1) s have 1: "P s1" "\<And>x. r = Inr x \<Longrightarrow> Q x" by (force simp: safe_def)+
  show "P (snd (bindS m f s)) \<and> (\<forall>x. fst (bindS m f s) = Inr x \<longrightarrow> R x)"
  proof (cases r)
    case (Inl e)
    then show ?thesis using m 1 by simp
  next
    case (Inr x)
    then show ?thesis using m 1 assms(2) [of x] by (simp add: safe_def)
  qed
qed

lemma safe_returnS: "Q x \<Longrightarrow> safe P (returnS x) Q"
  by (simp add: safe_def)

lemma safe_liftS: "(\<And>x. r = Inr x \<Longrightarrow> Q x) \<Longrightarrow> safe P (liftS r) Q"
  by (simp add: safe_def)

lemma safe_weaken: "safe P m Q \<Longrightarrow> (\<And>x. Q x \<Longrightarrow> R x) \<Longrightarrow> safe P m R"
  by (auto simp: safe_def)

lemmas safe_rules = safe_returnS safe_liftS

lemma safe_option:
  "x = None \<Longrightarrow> safe P f Q \<Longrightarrow> safe P (case x of None \<Rightarrow> f | Some y \<Rightarrow> g y) Q"
  "x = Some y \<Longrightarrow> safe P (g y) Q \<Longrightarrow> safe P (case x of None \<Rightarrow> f | Some y \<Rightarrow> g y) Q"
  by simp_all

lemma safe_at: "safe P m Q \<Longrightarrow> P s \<Longrightarrow> P (snd (m s))"
  by (simp add: safe_def)

lemma safe_then: "safe P m (\<lambda>_. True) \<Longrightarrow> (\<And>x. safe P (f x) Q) \<Longrightarrow> safe P (bindS m f) Q"
  by (rule safe_bindS)

lemma safe_return: "safe P (returnS x) (\<lambda>_. True)"
  by (rule safe_returnS) simp

lemma safe_lift: "safe P (liftS r) (\<lambda>_. True)"
  by (rule safe_liftS) simp

lemma more_action_simps [simp]: "getS f s = (Inr (f s), s)" "modifyS g s = (Inr (), g s)"
  "tryS m s = (Inr (fst (m s)), snd (m s))"
  by (simp_all add: getS_def modifyS_def tryS_def split: prod.split)

lemma moves_bindS:
  assumes "transp R" "moves R m" "\<And>x. moves R (f x)"
  shows "moves R (bindS m f)"
  unfolding moves_def
proof
  fix s
  obtain r s1 where m: "m s = (r, s1)" by (cases "m s")
  then have "R s s1" using assms(2) by (metis moves_def snd_conv)
  with m assms(1,3) show "R s (snd (bindS m f s))" by (cases r) (auto simp: moves_def dest: transpD)
qed

lemma moves_simple [intro]:
  assumes "reflp R"
  shows "moves R (returnS x)" "moves R (liftS r)" "moves R (getS f)"
  using assms by (auto simp: moves_def reflp_def)

lemma moves_tryS: "moves R m \<Longrightarrow> moves R (tryS m)"
  by (simp add: moves_def)

lemma moves_loop_set:
  assumes "reflp R" "transp R" "\<And>x a. x \<in> set xs \<Longrightarrow> moves R (f x a)"
  shows "moves R (loopS f xs a)"
  using assms(3) by (induction xs arbitrary: a) (auto intro!: moves_bindS assms(1,2) moves_simple)

lemma moves_bind_liftS:
  "reflp R \<Longrightarrow> (\<And>x. r = Inr x \<Longrightarrow> moves R (f x)) \<Longrightarrow> moves R (bindS (liftS r) f)"
  by (cases r) (auto simp: moves_def bindS_def reflp_def)

lemma moves_mono: "moves R m \<Longrightarrow> (\<And>s s1. R s s1 \<Longrightarrow> S s s1) \<Longrightarrow> moves S m"
  by (simp add: moves_def)

lemma bindS_returnS: "bindS (returnS x) f = f x"
  by (simp add: fun_eq_iff bindS_def)

lemma moves_at: "moves R m \<Longrightarrow> m s = (r, s1) \<Longrightarrow> R s s1"
  by (metis moves_def snd_conv)

lemma hoareI: "(\<And>s x s1. P s \<Longrightarrow> m s = (Inr x, s1) \<Longrightarrow> Q x s1) \<Longrightarrow> (\<And>s e s1. P s \<Longrightarrow> m s = (Inl e, s1) \<Longrightarrow> E s1) \<Longrightarrow> hoare P m Q E"
  by (auto simp: hoare_def split: prod.split sum.split)

lemma hoareD:
  assumes "hoare P m Q E" "P s"
  shows "m s = (Inr x, s1) \<Longrightarrow> Q x s1" "m s = (Inl e, s1) \<Longrightarrow> E s1"
proof -
  have "case m s of (Inr x, s1) \<Rightarrow> Q x s1 | (Inl e, s1) \<Rightarrow> E s1" using assms by (simp add: hoare_def)
  then show "m s = (Inr x, s1) \<Longrightarrow> Q x s1" "m s = (Inl e, s1) \<Longrightarrow> E s1" by simp_all
qed

lemma hoare_bindS:
  assumes "hoare P m Q E" "\<And>x. hoare (Q x) (f x) R E"
  shows "hoare P (bindS m f) R E"
  unfolding hoare_def
proof (intro allI impI)
  fix s assume s: "P s"
  obtain r s1 where m: "m s = (r, s1)" by (cases "m s")
  show "case bindS m f s of (Inr x, s1) \<Rightarrow> R x s1 | (Inl e, s1) \<Rightarrow> E s1"
  proof (cases r)
    case (Inl e)
    with m hoareD(2) [OF assms(1) s] show ?thesis by simp
  next
    case (Inr x)
    with m have "bindS m f s = f x s1" by simp
    moreover have "Q x s1" using hoareD(1) [OF assms(1) s] m Inr by simp
    ultimately show ?thesis using assms(2) [of x] by (simp add: hoare_def)
  qed
qed

lemma hoare_returnS: "(\<And>s. P s \<Longrightarrow> Q x s) \<Longrightarrow> hoare P (returnS x) Q E"
  by (simp add: hoare_def)

lemma hoare_liftS: "(\<And>s x. P s \<Longrightarrow> r = Inr x \<Longrightarrow> Q x s) \<Longrightarrow> (\<And>s. P s \<Longrightarrow> E s) \<Longrightarrow> hoare P (liftS r) Q E"
  by (auto simp: hoare_def split: sum.split)

lemma hoare_weaken:
  "hoare P m Q E \<Longrightarrow> (\<And>s. P1 s \<Longrightarrow> P s) \<Longrightarrow> (\<And>x s. Q x s \<Longrightarrow> Q1 x s) \<Longrightarrow> (\<And>s. E s \<Longrightarrow> E1 s) \<Longrightarrow> hoare P1 m Q1 E1"
  using hoareD [of P m Q E] by (intro hoareI) blast+

text \<open>A predicate that a relation keeps is kept by every action that moves along the relation.\<close>

lemma hoare_moves:
  assumes "moves R m" "\<And>s s1. P s \<Longrightarrow> R s s1 \<Longrightarrow> P s1" "\<And>s. P s \<Longrightarrow> E s"
  shows "hoare P m (\<lambda>_. P) E"
  using assms moves_at [OF assms(1)] by (intro hoareI) blast+

lemma hoare_loopS:
  "(\<And>x a. hoare P (f x a) (\<lambda>_. P) E) \<Longrightarrow> hoare P (loopS f xs a) (\<lambda>_. P) E"
  by (induction xs arbitrary: a) (auto intro!: hoare_bindS hoare_returnS)

lemma hoare_tryS:
  assumes "hoare P m Q F"
  shows "hoare P (tryS m) (\<lambda>r s. case r of Inr x \<Rightarrow> Q x s | Inl _ \<Rightarrow> F s) E"
proof (rule hoareI)
  fix s r s1 assume s: "P s" and r: "tryS m s = (Inr r, s1)"
  have "m s = (r, s1)" using r by (cases "m s") simp
  then show "case r of Inr x \<Rightarrow> Q x s1 | Inl _ \<Rightarrow> F s1" using hoareD [OF assms s] by (cases r) auto
qed simp

lemma hoare_keeps: "hoare P m (\<lambda>_. P) P \<Longrightarrow> P s \<Longrightarrow> m s = (x, s1) \<Longrightarrow> P s1"
  by (cases x) (auto dest: hoareD)

lemma hoare_triv: "hoare P m (\<lambda>_ _. True) (\<lambda>_. True)"
  by (auto simp: hoare_def split: prod.split sum.split)

lemma hoare_assume: "(A \<Longrightarrow> hoare (\<lambda>_. True) m Q E) \<Longrightarrow> hoare (\<lambda>_. A) m Q E"
  by (auto simp: hoare_def)

end
