(* ===== verification/Server_Keys.thy ===== *)
theory Server_Keys
  imports Signed_JSON Actions "HOL-Library.AList"
begin

text \<open>
  The keys of other servers (\<open>skunkworks/gomatrixserverlib/keys.go\<close>, \<open>keyring.go\<close>): the checks of a response with
  keys, the look-up through the database and the fetchers, and the verification of messages with them. What a
  verifier promises is the locale \<open>json_verifier\<close>; the key ring is its interpretation.
\<close>

section \<open>Specification\<close>

subsection \<open>The keys of a server\<close>

type_synonym Timestamp = "64 word"

record OldVerifyKey =
  OldKey :: string
  ExpiredTS :: Timestamp

record ServerKeys =
  Raw_keys :: string
  ServerName :: string
  TLSFingerprints :: "string list"
  VerifyKeys :: "string smap"
  ValidUntilTS :: Timestamp
  OldVerifyKeys :: "OldVerifyKey smap"

text \<open>A public key with the given identifier valid at a time, empty when there is none.\<close>

definition PublicKey :: "ServerKeys \<Rightarrow> string \<Rightarrow> Timestamp \<Rightarrow> string" where
  "PublicKey keys keyID atTS =
     (case map_of (VerifyKeys keys) keyID of
        Some currentKey \<Rightarrow>
          if atTS \<le> ValidUntilTS keys then currentKey
          else (case map_of (OldVerifyKeys keys) keyID of
              Some oldKey \<Rightarrow> if atTS \<le> ExpiredTS oldKey then OldKey oldKey else []
            | None \<Rightarrow> [])
      | None \<Rightarrow> (case map_of (OldVerifyKeys keys) keyID of
              Some oldKey \<Rightarrow> if atTS \<le> ExpiredTS oldKey then OldKey oldKey else []
            | None \<Rightarrow> []))"

record Ed25519Checks =
  ValidEd25519 :: bool
  MatchingSignature :: bool

record KeyChecks =
  AllChecksOK :: bool
  MatchingServerName :: bool
  FutureValidUntilTS :: bool
  HasEd25519Key :: bool
  HasTLSFingerprint :: bool
  AllEd25519ChecksOK :: "bool option"
  Ed25519Checks :: "Ed25519Checks smap"
  AllTLSFingerprintChecksOK :: "bool option"
  TLSFingerprintChecks :: "bool list"
  MatchingTLSFingerprint :: "bool option"

text \<open>The two checks of one key. An error of the signature check is recorded, a panic is passed on.\<close>

definition checkEd25519Key ::
  "json_lib \<Rightarrow> ed25519 \<Rightarrow> ServerKeys \<Rightarrow> string \<Rightarrow> string \<Rightarrow> Ed25519Checks result" where
  "checkEd25519Key L E keys keyID publicKey =
     (if length publicKey = 32 then
        (case VerifyJSON L E (ServerName keys) keyID publicKey (Raw_keys keys) of
           Inl (Panic p) \<Rightarrow> Inl (Panic p)
         | Inl _ \<Rightarrow> Inr \<lparr>ValidEd25519 = True, MatchingSignature = False\<rparr>
         | Inr _ \<Rightarrow> Inr \<lparr>ValidEd25519 = True, MatchingSignature = True\<rparr>)
      else Inr \<lparr>ValidEd25519 = False, MatchingSignature = False\<rparr>)"

text \<open>One turn of the loop over the keys: the checks, the keys that passed, and whether all did.\<close>

definition checkVerifyKey ::
  "json_lib \<Rightarrow> ed25519 \<Rightarrow> ServerKeys \<Rightarrow> string \<times> string \<Rightarrow> KeyChecks \<times> string smap \<times> bool \<Rightarrow>
     (KeyChecks \<times> string smap \<times> bool) result" where
  "checkVerifyKey L E keys kd st = (case (kd, st) of ((keyID, publicKey), (checks, verifyKeys, allOK)) \<Rightarrow>
     let algorithm = hd (splitN2 (CHR '':'') keyID) in
     if algorithm = ''ed25519'' then
       bindR (checkEd25519Key L E keys keyID publicKey) (\<lambda>entry.
       Inr (checks\<lparr>HasEd25519Key := True, Ed25519Checks := store keyID entry (Ed25519Checks checks)\<rparr>,
         if MatchingSignature entry then store keyID publicKey verifyKeys else verifyKeys,
         allOK \<and> MatchingSignature entry))
     else Inr st)"

text \<open>
  The pointer \<open>AllEd25519ChecksOK\<close> is set to the address of the local flag by the first key, so
  that it shows the final value of the flag.
\<close>

definition checkVerifyKeys ::
  "json_lib \<Rightarrow> ed25519 \<Rightarrow> ServerKeys \<Rightarrow> KeyChecks \<Rightarrow> (KeyChecks \<times> string smap) result" where
  "checkVerifyKeys L E keys checks =
     bindR (foldR (checkVerifyKey L E keys) (VerifyKeys keys) (checks\<lparr>Ed25519Checks := []\<rparr>, [], True))
       (\<lambda>(checks, verifyKeys, allEd25519ChecksOK).
     Inr (checks\<lparr>
         AllEd25519ChecksOK := if HasEd25519Key checks then Some allEd25519ChecksOK else None,
         AllChecksOK := AllChecksOK checks \<and> HasEd25519Key checks \<and> allEd25519ChecksOK\<rparr>,
       verifyKeys))"

definition checkTLSFingerprints :: "ServerKeys \<Rightarrow> KeyChecks \<Rightarrow> KeyChecks \<times> string list" where
  "checkTLSFingerprints keys checks =
     (let entries = map (\<lambda>f. length f = 32) (TLSFingerprints keys);
          allOK = list_all id entries;
          has = TLSFingerprints keys \<noteq> [] in
      (checks\<lparr>
         HasTLSFingerprint := HasTLSFingerprint checks \<or> has,
         AllTLSFingerprintChecksOK := if has then Some allOK else AllTLSFingerprintChecksOK checks,
         TLSFingerprintChecks := TLSFingerprintChecks checks @ entries,
         AllChecksOK := AllChecksOK checks \<and> (HasTLSFingerprint checks \<or> has) \<and> allOK\<rparr>,
       filter (\<lambda>f. length f = 32) (TLSFingerprints keys)))"

text \<open>The certificates of the peer, raw, of a connection; the digest is SHA-256.\<close>

definition checkFingerprint :: "(string \<Rightarrow> string) \<Rightarrow> string list \<Rightarrow> string list \<Rightarrow> bool" where
  "checkFingerprint sha peerCertificates sha256Fingerprints =
     (case peerCertificates of [] \<Rightarrow> False | cert # _ \<Rightarrow> list_ex (\<lambda>f. sha cert = f) sha256Fingerprints)"

definition zero_checks :: KeyChecks where
  "zero_checks = \<lparr>AllChecksOK = False, MatchingServerName = False, FutureValidUntilTS = False,
     HasEd25519Key = False, HasTLSFingerprint = False, AllEd25519ChecksOK = None, Ed25519Checks = [],
     AllTLSFingerprintChecksOK = None, TLSFingerprintChecks = [], MatchingTLSFingerprint = None\<rparr>"

text \<open>
  The first two checks. The time is given in nanoseconds; a timestamp of milliseconds is converted
  to a signed number.
\<close>

definition first_checks :: "string \<Rightarrow> int \<Rightarrow> ServerKeys \<Rightarrow> KeyChecks" where
  "first_checks serverName now keys =
     (let matching = (serverName = ServerName keys);
          future = (sint (ValidUntilTS keys) * 1000000 > now) in
      zero_checks\<lparr>MatchingServerName := matching, FutureValidUntilTS := future, AllChecksOK := matching \<and> future\<rparr>)"

text \<open>Without a connection the fingerprint is not compared.\<close>

definition check_connection :: "(string \<Rightarrow> string) \<Rightarrow> string list option \<Rightarrow> string list \<Rightarrow> KeyChecks \<Rightarrow> KeyChecks" where
  "check_connection sha connState sha256Fingerprints checks =
     (case connState of
        None \<Rightarrow> checks
      | Some certs \<Rightarrow>
          let matches = checkFingerprint sha certs sha256Fingerprints in
          checks\<lparr>MatchingTLSFingerprint := Some matches, AllChecksOK := AllChecksOK checks \<and> matches\<rparr>)"

definition CheckKeys ::
  "json_lib \<Rightarrow> ed25519 \<Rightarrow> (string \<Rightarrow> string) \<Rightarrow> string \<Rightarrow> int \<Rightarrow> ServerKeys \<Rightarrow> string list option \<Rightarrow>
     (KeyChecks \<times> string smap \<times> string list) result" where
  "CheckKeys L E sha serverName now keys connState =
     bindR (checkVerifyKeys L E keys (first_checks serverName now keys)) (\<lambda>(checks, ed25519Keys).
     let (checks, sha256Fingerprints) = checkTLSFingerprints keys checks;
         checks = check_connection sha connState sha256Fingerprints checks in
     Inr (if AllChecksOK checks then (checks, ed25519Keys, sha256Fingerprints) else (checks, [], [])))"

text \<open>The keys that the first check is about, and what it asks of them.\<close>

definition is_ed25519 :: "string \<Rightarrow> bool" where
  "is_ed25519 keyID \<longleftrightarrow> hd (splitN2 (CHR '':'') keyID) = ''ed25519''"

definition self_signed :: "json_lib \<Rightarrow> ed25519 \<Rightarrow> ServerKeys \<Rightarrow> string \<Rightarrow> string \<Rightarrow> bool" where
  "self_signed L E keys keyID publicKey \<longleftrightarrow> length publicKey = 32 \<and>
     VerifyJSON L E (ServerName keys) keyID publicKey (Raw_keys keys) = Inr ()"

abbreviation (input) key_passes :: "json_lib \<Rightarrow> ed25519 \<Rightarrow> ServerKeys \<Rightarrow> string \<times> string \<Rightarrow> bool" where
  "key_passes L E keys kp \<equiv> is_ed25519 (fst kp) \<longrightarrow> self_signed L E keys (fst kp) (snd kp)"

text \<open>What a set of keys must satisfy.\<close>

definition keys_acceptable :: "json_lib \<Rightarrow> ed25519 \<Rightarrow> string \<Rightarrow> int \<Rightarrow> ServerKeys \<Rightarrow> bool" where
  "keys_acceptable L E serverName now keys \<longleftrightarrow>
     serverName = ServerName keys \<and> sint (ValidUntilTS keys) * 1000000 > now \<and>
     list_ex (is_ed25519 \<circ> fst) (VerifyKeys keys) \<and> list_all (key_passes L E keys) (VerifyKeys keys) \<and>
     TLSFingerprints keys \<noteq> [] \<and> list_all (\<lambda>f. length f = 32) (TLSFingerprints keys)"

subsection \<open>Looking up keys\<close>

text \<open>Server name and key identifier.\<close>

type_synonym PublicKeyLookupRequest = "string \<times> string"

type_synonym key_requests = "(PublicKeyLookupRequest \<times> Timestamp) list"

definition PublicKeyNotExpired :: Timestamp where "PublicKeyNotExpired = 0"

definition PublicKeyNotValid :: Timestamp where "PublicKeyNotValid = 0"

record PublicKeyLookupResult =
  lookup_Key :: string
  lookup_ExpiredTS :: Timestamp
  lookup_ValidUntilTS :: Timestamp

type_synonym key_results = "(PublicKeyLookupRequest \<times> PublicKeyLookupResult) list"

definition WasValidAt :: "PublicKeyLookupResult \<Rightarrow> Timestamp \<Rightarrow> bool" where
  "WasValidAt r atTs =
     (if lookup_ExpiredTS r \<noteq> PublicKeyNotExpired \<and> atTs \<ge> lookup_ExpiredTS r then False
      else if lookup_ValidUntilTS r = PublicKeyNotValid \<or> atTs > lookup_ValidUntilTS r then False
      else True)"

definition mapServerKeysToPublicKeyLookupResult :: "ServerKeys \<Rightarrow> key_results \<Rightarrow> key_results" where
  "mapServerKeysToPublicKeyLookupResult serverKeys results =
     (let results = fold (\<lambda>(keyID, key). AList.update (ServerName serverKeys, keyID)
            \<lparr>lookup_Key = key, lookup_ExpiredTS = PublicKeyNotExpired, lookup_ValidUntilTS = ValidUntilTS serverKeys\<rparr>)
          (VerifyKeys serverKeys) results in
      fold (\<lambda>(keyID, key). AList.update (ServerName serverKeys, keyID)
            \<lparr>lookup_Key = OldKey key, lookup_ExpiredTS = ExpiredTS key, lookup_ValidUntilTS = PublicKeyNotValid\<rparr>)
          (OldVerifyKeys serverKeys) results)"

subsection \<open>The key ring\<close>

text \<open>
  The database and the fetchers are given by what they answer; both may change the state \<open>'s\<close> of
  the database and the network.
\<close>

record 's KeyRing =
  KeyDatabase_FetchKeys :: "key_requests \<Rightarrow> (key_results, 's) action"
  KeyDatabase_StoreKeys :: "key_results \<Rightarrow> (unit, 's) action"
  KeyFetchers :: "(key_requests \<Rightarrow> (key_results, 's) action) list"

record VerifyJSONRequest =
  req_ServerName :: string
  AtTS :: Timestamp
  Message :: string

text \<open>A result is the error, or nothing when the message passed the checks.\<close>

type_synonym VerifyJSONResult = "go_error option"

definition isAlgorithmSupported :: "string \<Rightarrow> bool" where
  "isAlgorithmSupported keyID = has_prefix ''ed25519:'' keyID"

text \<open>The identifiers of the keys a request may be checked with, and the first entry for its result.\<close>

definition list_request :: "json_lib \<Rightarrow> VerifyJSONRequest \<Rightarrow> string list \<times> VerifyJSONResult" where
  "list_request L req =
     (case ListKeyIDs L (req_ServerName req) (Message req) of
        Inl _ \<Rightarrow> ([], Some (Error ''gomatrixserverlib: error extracting key IDs''))
      | Inr ids \<Rightarrow>
          let keyIDs = filter isAlgorithmSupported ids in
          if keyIDs = [] then ([], Some (Error ''gomatrixserverlib: not signed with a supported algorithm''))
          else (keyIDs, Some (Error ''gomatrixserverlib: could not download key'')))"

definition request_key :: "VerifyJSONRequest \<Rightarrow> string \<Rightarrow> key_requests \<Rightarrow> key_requests" where
  "request_key req keyID keyRequests =
     (let k = (req_ServerName req, keyID);
          maxTS = (case map_of keyRequests k of None \<Rightarrow> 0 | Some ts \<Rightarrow> ts) in
      if maxTS \<le> AtTS req then AList.update k (AtTS req) keyRequests else keyRequests)"

definition publicKeyRequests ::
  "VerifyJSONRequest list \<Rightarrow> VerifyJSONResult list \<Rightarrow> string list list \<Rightarrow> key_requests" where
  "publicKeyRequests requests results keyIDs =
     fold (\<lambda>(req, res, ids) keyRequests. if res = None then keyRequests else fold (request_key req) ids keyRequests)
       (zip requests (zip results keyIDs)) []"

text \<open>Try the keys of a request until one fits. A panic of the check is passed on.\<close>

fun try_keys ::
  "json_lib \<Rightarrow> ed25519 \<Rightarrow> key_results \<Rightarrow> VerifyJSONRequest \<Rightarrow> string list \<Rightarrow> VerifyJSONResult \<Rightarrow> VerifyJSONResult result" where
  "try_keys L E keys req [] res = Inr res"
| "try_keys L E keys req (keyID # ids) res =
     (case map_of keys (req_ServerName req, keyID) of
        None \<Rightarrow> try_keys L E keys req ids res
      | Some serverKey \<Rightarrow>
          if \<not> WasValidAt serverKey (AtTS req)
          then try_keys L E keys req ids (Some (Error ''gomatrixserverlib: key not valid''))
          else
            (case VerifyJSON L E (req_ServerName req) keyID (lookup_Key serverKey) (Message req) of
               Inl (Panic p) \<Rightarrow> Inl (Panic p)
             | Inl err \<Rightarrow> try_keys L E keys req ids (Some err)
             | Inr _ \<Rightarrow> Inr None))"

fun checkUsingKeys ::
  "json_lib \<Rightarrow> ed25519 \<Rightarrow> key_results \<Rightarrow> VerifyJSONRequest list \<Rightarrow> VerifyJSONResult list \<Rightarrow> string list list \<Rightarrow>
     VerifyJSONResult list result" where
  "checkUsingKeys L E keys (req # requests) (res # results) (ids # keyIDs) =
     bindR (if res = None then Inr None else try_keys L E keys req ids res) (\<lambda>res.
     bindR (checkUsingKeys L E keys requests results keyIDs) (\<lambda>results. Inr (res # results)))"
| "checkUsingKeys L E keys _ _ _ = Inr []"

text \<open>The loop over the fetchers; it stops when no keys are wanted any more.\<close>

fun fetch_loop ::
  "json_lib \<Rightarrow> ed25519 \<Rightarrow> 's KeyRing \<Rightarrow> (key_requests \<Rightarrow> (key_results, 's) action) list \<Rightarrow>
     VerifyJSONRequest list \<Rightarrow> string list list \<Rightarrow> VerifyJSONResult list \<Rightarrow> (VerifyJSONResult list, 's) action" where
  "fetch_loop L E k [] requests keyIDs results = returnS results"
| "fetch_loop L E k (fetcher # fetchers) requests keyIDs results =
     (let keyRequests = publicKeyRequests requests results keyIDs in
      if keyRequests = [] then returnS results
      else
        bindS (fetcher keyRequests) (\<lambda>keysFetched.
        bindS (liftS (checkUsingKeys L E keysFetched requests results keyIDs)) (\<lambda>results.
        bindS (KeyDatabase_StoreKeys k keysFetched) (\<lambda>_.
        fetch_loop L E k fetchers requests keyIDs results))))"

definition VerifyJSONs ::
  "json_lib \<Rightarrow> ed25519 \<Rightarrow> 's KeyRing \<Rightarrow> VerifyJSONRequest list \<Rightarrow> (VerifyJSONResult list, 's) action" where
  "VerifyJSONs L E k requests =
     (let keyIDs = map (fst \<circ> list_request L) requests;
          results = map (snd \<circ> list_request L) requests;
          keyRequests = publicKeyRequests requests results keyIDs in
      if keyRequests = [] then returnS results
      else
        bindS (KeyDatabase_FetchKeys k keyRequests) (\<lambda>keysFromDatabase.
        bindS (liftS (checkUsingKeys L E keysFromDatabase requests results keyIDs)) (\<lambda>results.
        fetch_loop L E k (KeyFetchers k) requests keyIDs results)))"

subsection \<open>Fetching keys from their server or from a third one\<close>

text \<open>The client that asks a server for its keys, and a third server for the keys of others.\<close>

record 's key_client =
  GetServerKeys :: "string \<Rightarrow> (ServerKeys, 's) action"
  LookupServerKeys :: "string \<Rightarrow> key_requests \<Rightarrow> (ServerKeys list, 's) action"

definition checked_keys ::
  "json_lib \<Rightarrow> ed25519 \<Rightarrow> (string \<Rightarrow> string) \<Rightarrow> string \<Rightarrow> ServerKeys \<Rightarrow> key_results \<Rightarrow> key_results result" where
  "checked_keys L E sha serverName keys results =
     bindR (CheckKeys L E sha serverName 0 keys None) (\<lambda>(checks, _, _).
     if \<not> AllChecksOK checks then Inl (Error ''gomatrixserverlib: key response failed checks'')
     else Inr (mapServerKeysToPublicKeyLookupResult keys results))"

definition fetchKeysForServer ::
  "json_lib \<Rightarrow> ed25519 \<Rightarrow> (string \<Rightarrow> string) \<Rightarrow> 's key_client \<Rightarrow> string \<Rightarrow> (key_results, 's) action" where
  "fetchKeysForServer L E sha client serverName =
     bindS (GetServerKeys client serverName) (\<lambda>keys. liftS (checked_keys L E sha serverName keys []))"

text \<open>The servers that are asked, each once.\<close>

definition byServer :: "key_requests \<Rightarrow> string list" where
  "byServer requests = remdups (map (fst \<circ> fst) requests)"

fun fetch_servers ::
  "json_lib \<Rightarrow> ed25519 \<Rightarrow> (string \<Rightarrow> string) \<Rightarrow> 's key_client \<Rightarrow> string list \<Rightarrow> key_results \<Rightarrow> (key_results, 's) action" where
  "fetch_servers L E sha client [] results = returnS results"
| "fetch_servers L E sha client (server # servers) results =
     bindS (fetchKeysForServer L E sha client server) (\<lambda>serverResults.
     fetch_servers L E sha client servers (fold (\<lambda>(req, keys). AList.update req keys) serverResults results))"

definition DirectKeyFetcher_FetchKeys ::
  "json_lib \<Rightarrow> ed25519 \<Rightarrow> (string \<Rightarrow> string) \<Rightarrow> 's key_client \<Rightarrow> key_requests \<Rightarrow> (key_results, 's) action" where
  "DirectKeyFetcher_FetchKeys L E sha client requests = fetch_servers L E sha client (byServer requests) []"

text \<open>Find a key of the third server that the answer is signed with.\<close>

fun perspective_signed ::
  "json_lib \<Rightarrow> ed25519 \<Rightarrow> string \<Rightarrow> string smap \<Rightarrow> string \<Rightarrow> string list \<Rightarrow> unit result" where
  "perspective_signed L E name known raw [] =
     Inl (Error ''gomatrixserverlib: not signed with a known key for the perspective server'')"
| "perspective_signed L E name known raw (keyID # ids) =
     (case map_of known keyID of
        None \<Rightarrow> perspective_signed L E name known raw ids
      | Some perspectiveKey \<Rightarrow> VerifyJSON L E name keyID perspectiveKey raw)"

fun perspective_loop ::
  "json_lib \<Rightarrow> ed25519 \<Rightarrow> (string \<Rightarrow> string) \<Rightarrow> string \<Rightarrow> string smap \<Rightarrow> ServerKeys list \<Rightarrow> key_results \<Rightarrow> key_results result" where
  "perspective_loop L E sha name known [] results = Inr results"
| "perspective_loop L E sha name known (keys # rest) results =
     bindR (ListKeyIDs L name (Raw_keys keys)) (\<lambda>keyIDs.
     bindR (perspective_signed L E name known (Raw_keys keys) keyIDs) (\<lambda>_.
     bindR (checked_keys L E sha (ServerName keys) keys results) (\<lambda>results.
     perspective_loop L E sha name known rest results)))"

definition PerspectiveKeyFetcher_FetchKeys ::
  "json_lib \<Rightarrow> ed25519 \<Rightarrow> (string \<Rightarrow> string) \<Rightarrow> 's key_client \<Rightarrow> string \<Rightarrow> string smap \<Rightarrow> key_requests \<Rightarrow> (key_results, 's) action" where
  "PerspectiveKeyFetcher_FetchKeys L E sha client name known requests =
     bindS (LookupServerKeys client name requests) (\<lambda>serverKeys.
     liftS (perspective_loop L E sha name known serverKeys []))"

definition CreateKeyRing ::
  "json_lib \<Rightarrow> ed25519 \<Rightarrow> (string \<Rightarrow> string) \<Rightarrow> 's key_client \<Rightarrow> (key_requests \<Rightarrow> (key_results, 's) action) \<Rightarrow>
     (key_results \<Rightarrow> (unit, 's) action) \<Rightarrow> 's KeyRing" where
  "CreateKeyRing L E sha client fetch st =
     \<lparr>KeyDatabase_FetchKeys = fetch, KeyDatabase_StoreKeys = st,
      KeyFetchers = [DirectKeyFetcher_FetchKeys L E sha client]\<rparr>"

subsection \<open>What a verifier of JSON promises\<close>

text \<open>A key that the database or a fetcher of the ring answers with.\<close>

definition offered :: "'s KeyRing \<Rightarrow> PublicKeyLookupRequest \<Rightarrow> PublicKeyLookupResult \<Rightarrow> bool" where
  "offered k req key \<longleftrightarrow> (\<exists>fetch \<in> insert (KeyDatabase_FetchKeys k) (set (KeyFetchers k)).
     \<exists>keyRequests s keys. fst (fetch keyRequests s) = Inr keys \<and> map_of keys req = Some key)"

text \<open>A message that is signed with such a key of a supported kind, valid at the time asked for.\<close>

definition vouched :: "json_lib \<Rightarrow> ed25519 \<Rightarrow> 's KeyRing \<Rightarrow> VerifyJSONRequest \<Rightarrow> bool" where
  "vouched L E k req \<longleftrightarrow> (\<exists>keyID key. isAlgorithmSupported keyID \<and> offered k (req_ServerName req, keyID) key \<and>
     WasValidAt key (AtTS req) \<and>
     VerifyJSON L E (req_ServerName req) keyID (lookup_Key key) (Message req) = Inr ())"

locale json_verifier =
  fixes verify :: "VerifyJSONRequest list \<Rightarrow> (VerifyJSONResult list, 's) action"
    and genuine :: "VerifyJSONRequest \<Rightarrow> bool"
  assumes verify_sound: "fst (verify requests s) = Inr results \<Longrightarrow>
    list_all2 (\<lambda>req res. res = None \<longrightarrow> genuine req) requests results"
begin

lemma verify_nth:
  assumes "verify requests s = (Inr results, s')" "i < length requests" "results ! i = None"
  shows "genuine (requests ! i)"
  using verify_sound [of requests s results] assms by (auto simp: list_all2_conv_all_nth)

lemma verify_length: "verify requests s = (Inr results, s') \<Longrightarrow> length results = length requests"
  using verify_sound [of requests s results] by (simp add: list_all2_lengthD)

end

abbreviation (input) sound_results :: "json_lib \<Rightarrow> ed25519 \<Rightarrow> 's KeyRing \<Rightarrow> VerifyJSONRequest list \<Rightarrow> VerifyJSONResult list \<Rightarrow> bool" where
  "sound_results L E k \<equiv> list_all2 (\<lambda>req res. res = None \<longrightarrow> vouched L E k req)"

abbreviation (input) key_lists :: "json_lib \<Rightarrow> VerifyJSONRequest list \<Rightarrow> string list list" where
  "key_lists L requests \<equiv> map (fst \<circ> list_request L) requests"

text \<open>An entry for a current key of a response, and what an entry from a response can be.\<close>

definition current_entry :: "ServerKeys \<Rightarrow> string \<Rightarrow> PublicKeyLookupResult \<Rightarrow> bool" where
  "current_entry keys keyID r \<longleftrightarrow> (keyID, lookup_Key r) \<in> set (VerifyKeys keys) \<and>
     lookup_ExpiredTS r = PublicKeyNotExpired \<and> lookup_ValidUntilTS r = ValidUntilTS keys"

text \<open>An entry that the fetcher got from the server it is for, in a response that passed the checks.\<close>

definition direct_entry ::
  "json_lib \<Rightarrow> ed25519 \<Rightarrow> 's key_client \<Rightarrow> PublicKeyLookupRequest \<Rightarrow> PublicKeyLookupResult \<Rightarrow> bool" where
  "direct_entry L E client req r \<longleftrightarrow> (\<exists>s keys. fst (GetServerKeys client (fst req) s) = Inr keys \<and>
     keys_acceptable L E (fst req) 0 keys \<and>
     (current_entry keys (snd req) r \<or> lookup_ValidUntilTS r = PublicKeyNotValid))"

section \<open>Lemmas\<close>

lemma checkEd25519Key_Inr:
  assumes "checkEd25519Key L E keys k p = Inr entry"
  shows "MatchingSignature entry = self_signed L E keys k p"
proof (cases "length p = 32")
  case True
  note e = assms [unfolded checkEd25519Key_def if_P [OF True]]
  show ?thesis
  proof (cases "VerifyJSON L E (ServerName keys) k p (Raw_keys keys)")
    case (Inl x)
    with e show ?thesis by (cases x) (auto simp: self_signed_def)
  next
    case (Inr x)
    with e True show ?thesis by (auto simp: self_signed_def)
  qed
qed (use assms in \<open>auto simp: checkEd25519Key_def self_signed_def\<close>)

lemma checkVerifyKey_step:
  assumes "checkVerifyKey L E keys (k, p) (c, v, a) = Inr (c', v', a')"
  shows "HasEd25519Key c' = (HasEd25519Key c \<or> is_ed25519 k)" "AllChecksOK c' = AllChecksOK c"
    "HasTLSFingerprint c' = HasTLSFingerprint c"
    "a' = (a \<and> (is_ed25519 k \<longrightarrow> self_signed L E keys k p))"
    "v' = (if is_ed25519 k \<and> self_signed L E keys k p then store k p v else v)"
proof -
  have "checkVerifyKey L E keys (k, p) (c, v, a) =
    (if is_ed25519 k then bindR (checkEd25519Key L E keys k p) (\<lambda>entry.
       Inr (c\<lparr>HasEd25519Key := True, Ed25519Checks := store k entry (Ed25519Checks c)\<rparr>,
         if MatchingSignature entry then store k p v else v, a \<and> MatchingSignature entry))
     else Inr (c, v, a))"
    by (simp add: checkVerifyKey_def is_ed25519_def)
  with assms show "HasEd25519Key c' = (HasEd25519Key c \<or> is_ed25519 k)" "AllChecksOK c' = AllChecksOK c"
    "HasTLSFingerprint c' = HasTLSFingerprint c"
    "a' = (a \<and> (is_ed25519 k \<longrightarrow> self_signed L E keys k p))"
    "v' = (if is_ed25519 k \<and> self_signed L E keys k p then store k p v else v)"
    by (cases "is_ed25519 k"; auto simp: bindR_Inr_iff dest: checkEd25519Key_Inr)+
qed

lemma checkVerifyKey_loop:
  "foldR (checkVerifyKey L E keys) ks (c, v, a) = Inr (c', v', a') \<Longrightarrow>
    HasEd25519Key c' = (HasEd25519Key c \<or> list_ex (is_ed25519 \<circ> fst) ks) \<and>
    AllChecksOK c' = AllChecksOK c \<and> HasTLSFingerprint c' = HasTLSFingerprint c \<and>
    a' = (a \<and> list_all (key_passes L E keys) ks)"
proof (induction ks arbitrary: c v a)
  case (Cons kp ks)
  from Cons.prems obtain c1 v1 a1
    where 1: "checkVerifyKey L E keys (fst kp, snd kp) (c, v, a) = Inr (c1, v1, a1)"
      and 2: "foldR (checkVerifyKey L E keys) ks (c1, v1, a1) = Inr (c', v', a')"
    by (auto simp: bindR_Inr_iff)
  show ?case using Cons.IH [OF 2] checkVerifyKey_step(1-4) [OF 1] by simp
qed simp

lemma checkVerifyKey_loop_keys:
  "foldR (checkVerifyKey L E keys) ks (c, v, a) = Inr (c', v', a') \<Longrightarrow> list_all (key_passes L E keys) ks \<Longrightarrow>
    smap_ok ks \<Longrightarrow> map_of v' k = (if is_ed25519 k \<and> map_of ks k \<noteq> None then map_of ks k else map_of v k)"
proof (induction ks arbitrary: c v a)
  case (Cons kp ks)
  obtain k0 p0 where kp: "kp = (k0, p0)" by (cases kp)
  from Cons.prems(1) obtain c1 v1 a1 where 1: "checkVerifyKey L E keys (k0, p0) (c, v, a) = Inr (c1, v1, a1)"
    and 2: "foldR (checkVerifyKey L E keys) ks (c1, v1, a1) = Inr (c', v', a')"
    by (auto simp: kp bindR_Inr_iff)
  have m: "map_of ks k0 = None" "smap_ok ks"
    using Cons.prems(3) by (auto simp: kp smap_ok_def map_of_eq_None_iff)
  have v1: "v1 = (if is_ed25519 k0 then store k0 p0 v else v)"
    using checkVerifyKey_step(5) [OF 1] Cons.prems(2) by (simp add: kp)
  show ?case using Cons.IH [OF 2 _ m(2)] Cons.prems(2) m(1) by (cases "k = k0") (auto simp: kp v1)
qed simp

lemma first_checks_simps:
  "AllChecksOK (first_checks n now keys) \<longleftrightarrow> n = ServerName keys \<and> sint (ValidUntilTS keys) * 1000000 > now"
  "HasEd25519Key (first_checks n now keys) = False" "HasTLSFingerprint (first_checks n now keys) = False"
  by (simp_all add: first_checks_def zero_checks_def Let_def)

lemma check_connection_ok:
  "AllChecksOK (check_connection sha conn fs c) \<longleftrightarrow>
    AllChecksOK c \<and> (case conn of None \<Rightarrow> True | Some certs \<Rightarrow> checkFingerprint sha certs fs)"
  by (simp add: check_connection_def Let_def split: option.split)

lemma checkVerifyKeys_ok:
  assumes "checkVerifyKeys L E keys c = Inr (c', ks)"
  shows "AllChecksOK c' \<longleftrightarrow> AllChecksOK c \<and> (HasEd25519Key c \<or> list_ex (is_ed25519 \<circ> fst) (VerifyKeys keys)) \<and>
      list_all (key_passes L E keys) (VerifyKeys keys)"
    and "HasTLSFingerprint c' = HasTLSFingerprint c"
    and "AllChecksOK c' \<Longrightarrow> smap_ok (VerifyKeys keys) \<Longrightarrow>
      map_of ks k = (if is_ed25519 k then map_of (VerifyKeys keys) k else None)"
proof -
  from assms obtain c1 a where 1: "foldR (checkVerifyKey L E keys) (VerifyKeys keys) (c\<lparr>Ed25519Checks := []\<rparr>, [], True) = Inr (c1, ks, a)"
    and c': "c' = c1\<lparr>AllEd25519ChecksOK := if HasEd25519Key c1 then Some a else None,
         AllChecksOK := AllChecksOK c1 \<and> HasEd25519Key c1 \<and> a\<rparr>"
    by (auto simp: checkVerifyKeys_def bindR_Inr_iff)
  note l = checkVerifyKey_loop [OF 1]
  show "AllChecksOK c' \<longleftrightarrow> AllChecksOK c \<and> (HasEd25519Key c \<or> list_ex (is_ed25519 \<circ> fst) (VerifyKeys keys)) \<and>
      list_all (key_passes L E keys) (VerifyKeys keys)" "HasTLSFingerprint c' = HasTLSFingerprint c"
    using l by (simp_all add: c' del: map_of_eq_None_iff)
  show "map_of ks k = (if is_ed25519 k then map_of (VerifyKeys keys) k else None)"
    if "AllChecksOK c'" "smap_ok (VerifyKeys keys)"
    using checkVerifyKey_loop_keys [OF 1 _ that(2), of k] l that(1) by (auto simp: c')
qed

lemma CheckKeys_Inr:
  assumes "CheckKeys L E sha serverName now keys connState = Inr (checks, ks, fs)"
  shows "AllChecksOK checks \<longleftrightarrow> keys_acceptable L E serverName now keys \<and>
      (case connState of None \<Rightarrow> True | Some certs \<Rightarrow> checkFingerprint sha certs (TLSFingerprints keys))" (is ?ok)
    and "AllChecksOK checks \<Longrightarrow> smap_ok (VerifyKeys keys) \<Longrightarrow>
      map_of ks k = (if is_ed25519 k then map_of (VerifyKeys keys) k else None)"
    and "\<not> AllChecksOK checks \<Longrightarrow> ks = [] \<and> fs = []"
proof -
  define fps where "fps = filter (\<lambda>f. length f = 32) (TLSFingerprints keys)"
  have pair: "checkTLSFingerprints keys c = (fst (checkTLSFingerprints keys c), fps)" for c
    by (simp add: checkTLSFingerprints_def fps_def Let_def)
  from assms obtain cv where cv: "checkVerifyKeys L E keys (first_checks serverName now keys) = Inr cv"
    by (auto simp: CheckKeys_def bindR_Inr_iff)
  obtain c1 v where cv1: "cv = (c1, v)" by (cases cv)
  note 1 = cv [unfolded cv1]
  have r: "(let checks' = check_connection sha connState fps (fst (checkTLSFingerprints keys c1)) in
      (if AllChecksOK checks' then (checks', v, fps) else (checks', [], []))) = (checks, ks, fs)"
    using assms unfolding CheckKeys_def 1 bindR_simps prod.case
    by (subst (asm) pair) (simp add: Let_def)
  from r have checks: "checks = check_connection sha connState fps (fst (checkTLSFingerprints keys c1))"
    and ks: "ks = (if AllChecksOK checks then v else [])" and fs: "fs = (if AllChecksOK checks then fps else [])"
    by (auto simp: Let_def split: if_splits)
  note v = checkVerifyKeys_ok [OF 1, unfolded first_checks_simps]
  have tls: "AllChecksOK (fst (checkTLSFingerprints keys c1)) \<longleftrightarrow> AllChecksOK c1 \<and> TLSFingerprints keys \<noteq> [] \<and>
      list_all (\<lambda>f. length f = 32) (TLSFingerprints keys)"
    using v(2) by (auto simp: checkTLSFingerprints_def Let_def list_all_iff)
  have "list_all (\<lambda>f. length f = 32) (TLSFingerprints keys) \<Longrightarrow> fps = TLSFingerprints keys"
    by (simp add: fps_def list_all_iff)
  then show ?ok unfolding checks check_connection_ok tls v(1) keys_acceptable_def
    by (cases connState) auto
  show "map_of ks k = (if is_ed25519 k then map_of (VerifyKeys keys) k else None)"
    if "AllChecksOK checks" "smap_ok (VerifyKeys keys)"
    using v(3) [OF _ that(2)] that(1) unfolding ks by (simp add: checks check_connection_ok tls)
  show "ks = [] \<and> fs = []" if "\<not> AllChecksOK checks" using that by (simp add: ks fs)
qed

lemma try_keys_sound:
  assumes "try_keys L E keys req ids res = Inr None" "res \<noteq> None"
    "\<And>x key. map_of keys x = Some key \<Longrightarrow> offered k x key" "\<And>i. i \<in> set ids \<Longrightarrow> isAlgorithmSupported i"
  shows "vouched L E k req"
  using assms
proof (induction ids arbitrary: res)
  case (Cons i ids)
  show ?case
  proof (cases "map_of keys (req_ServerName req, i)")
    case None
    with Cons show ?thesis by (intro Cons.IH [of res]) auto
  next
    case (Some key)
    show ?thesis
    proof (cases "WasValidAt key (AtTS req)")
      case False
      with Some Cons show ?thesis by (intro Cons.IH [of "Some (Error ''gomatrixserverlib: key not valid'')"]) auto
    next
      case True
      show ?thesis
      proof (cases "VerifyJSON L E (req_ServerName req) i (lookup_Key key) (Message req)")
        case (Inl e)
        with Some True Cons.prems(1) have "try_keys L E keys req ids (Some e) = Inr None"
          by (cases e) simp_all
        with Cons.prems show ?thesis by (intro Cons.IH [of "Some e"]) auto
      next
        case (Inr u)
        with Some True Cons.prems(3,4) show ?thesis unfolding vouched_def by (intro exI [of _ i] exI [of _ key]) auto
      qed
    qed
  qed
qed simp

lemma list_request_facts:
  "i \<in> set (fst (list_request L req)) \<Longrightarrow> isAlgorithmSupported i" "snd (list_request L req) \<noteq> None"
  by (auto simp: list_request_def Let_def split: sum.splits if_splits)

lemma list_request_nonnil: "snd (list_request L req) = None \<longleftrightarrow> False"
  using list_request_facts(2) [of L req] by simp

lemma checkUsingKeys_sound:
  "checkUsingKeys L E keys requests results (key_lists L requests) = Inr results' \<Longrightarrow>
   (\<And>x key. map_of keys x = Some key \<Longrightarrow> offered k x key) \<Longrightarrow>
   sound_results L E k requests results \<Longrightarrow> sound_results L E k requests results'"
proof (induction requests arbitrary: results results')
  case (Cons req requests)
  from Cons.prems(3) obtain res rs where rs: "results = res # rs" "sound_results L E k requests rs"
    "res = None \<longrightarrow> vouched L E k req" by (auto simp: list_all2_Cons1)
  from Cons.prems(1) obtain res' rs' where
    1: "(if res = None then Inr None else try_keys L E keys req (fst (list_request L req)) res) = Inr res'"
    and 2: "checkUsingKeys L E keys requests rs (key_lists L requests) = Inr rs'" and r': "results' = res' # rs'"
    by (auto simp: rs bindR_Inr_iff comp_def)
  have "vouched L E k req" if "res' = None"
  proof (cases "res = None")
    case False
    with 1 that have "try_keys L E keys req (fst (list_request L req)) res = Inr None" by simp
    from try_keys_sound [OF this False Cons.prems(2) list_request_facts(1)] show ?thesis by simp
  qed (use rs in simp)
  with Cons.IH [OF 2 Cons.prems(2) rs(2)] show ?case by (simp add: r')
qed simp

lemma safe_True: "safe (\<lambda>_. True) m Q \<longleftrightarrow> (\<forall>s x. fst (m s) = Inr x \<longrightarrow> Q x)"
  by (simp add: safe_def)

lemma fetch_loop_sound:
  "set fs \<subseteq> set (KeyFetchers k) \<Longrightarrow> sound_results L E k requests results \<Longrightarrow>
   safe (\<lambda>_. True) (fetch_loop L E k fs requests (key_lists L requests) results) (sound_results L E k requests)"
proof (induction fs arbitrary: results)
  case (Cons f fs)
  define kr where "kr = publicKeyRequests requests results (key_lists L requests)"
  have "safe (\<lambda>_. True) (bindS (f kr) (\<lambda>keysFetched.
        bindS (liftS (checkUsingKeys L E keysFetched requests results (key_lists L requests))) (\<lambda>results.
        bindS (KeyDatabase_StoreKeys k keysFetched) (\<lambda>_.
        fetch_loop L E k fs requests (key_lists L requests) results)))) (sound_results L E k requests)"
  proof (rule safe_bindS)
    show "safe (\<lambda>_. True) (f kr) (\<lambda>keys. \<forall>x key. map_of keys x = Some key \<longrightarrow> offered k x key)"
      using Cons.prems(1) unfolding safe_True offered_def by auto
    fix keys assume keys: "\<forall>x key. map_of keys x = Some key \<longrightarrow> offered k x key"
    have "checkUsingKeys L E keys requests results (key_lists L requests) = Inr rs \<Longrightarrow> sound_results L E k requests rs" for rs
      using checkUsingKeys_sound [of L E keys requests results rs k] keys Cons.prems(2) by blast
    then show "safe (\<lambda>_. True) (bindS (liftS (checkUsingKeys L E keys requests results (key_lists L requests))) (\<lambda>results.
        bindS (KeyDatabase_StoreKeys k keys) (\<lambda>_.
        fetch_loop L E k fs requests (key_lists L requests) results))) (sound_results L E k requests)"
      using Cons.prems(1)
      by (intro safe_bindS [where Q = "sound_results L E k requests"] safe_bindS [where Q = "\<lambda>_. True"] Cons.IH)
        (auto simp: safe_True)
  qed
  then show ?case using Cons.prems(2) unfolding fetch_loop.simps Let_def kr_def [symmetric] by (simp add: safe_True)
qed (simp add: safe_True)

lemma VerifyJSONs_sound: "safe (\<lambda>_. True) (VerifyJSONs L E k requests) (sound_results L E k requests)"
proof -
  define results where "results = map (snd \<circ> list_request L) requests"
  define kr where "kr = publicKeyRequests requests results (key_lists L requests)"
  have start: "sound_results L E k requests results"
    by (simp add: results_def list_all2_conv_all_nth list_request_nonnil)
  have "safe (\<lambda>_. True) (bindS (KeyDatabase_FetchKeys k kr) (\<lambda>keys.
        bindS (liftS (checkUsingKeys L E keys requests results (key_lists L requests))) (\<lambda>results.
        fetch_loop L E k (KeyFetchers k) requests (key_lists L requests) results))) (sound_results L E k requests)"
  proof (rule safe_bindS)
    show "safe (\<lambda>_. True) (KeyDatabase_FetchKeys k kr) (\<lambda>keys. \<forall>x key. map_of keys x = Some key \<longrightarrow> offered k x key)"
      unfolding safe_True offered_def by auto
    fix keys assume keys: "\<forall>x key. map_of keys x = Some key \<longrightarrow> offered k x key"
    have "checkUsingKeys L E keys requests results (key_lists L requests) = Inr rs \<Longrightarrow> sound_results L E k requests rs" for rs
      using checkUsingKeys_sound [of L E keys requests results rs k] keys start by blast
    then show "safe (\<lambda>_. True) (bindS (liftS (checkUsingKeys L E keys requests results (key_lists L requests))) (\<lambda>results.
        fetch_loop L E k (KeyFetchers k) requests (key_lists L requests) results)) (sound_results L E k requests)"
      by (intro safe_bindS [where Q = "sound_results L E k requests"] fetch_loop_sound) (auto simp: safe_True)
  qed
  then show ?thesis using start unfolding VerifyJSONs_def Let_def results_def [symmetric] kr_def [symmetric]
    by (simp add: safe_True)
qed

interpretation ring: json_verifier "VerifyJSONs L E k" "vouched L E k"
  for L :: json_lib and E :: ed25519 and k :: "'s KeyRing"
  by unfold_locales (rule VerifyJSONs_sound [unfolded safe_True, rule_format])

lemma update_entries: "(y, w) \<in> set (AList.update k v m) \<Longrightarrow> (y, w) = (k, v) \<or> (y, w) \<in> set m"
  by (induction m) (auto split: if_splits)

lemma fold_update_entries:
  "(y, w) \<in> set (fold (\<lambda>(a, b). AList.update (f a) (g b)) xs m) \<Longrightarrow>
    (\<exists>a b. (a, b) \<in> set xs \<and> (y, w) = (f a, g b)) \<or> (y, w) \<in> set m"
proof (induction xs arbitrary: m)
  case (Cons x xs)
  obtain a b where x: "x = (a, b)" by (cases x)
  from Cons.IH [of "AList.update (f a) (g b) m"] Cons.prems update_entries [of y w "f a" "g b" m]
  show ?case by (auto simp: x)
qed simp

lemma mapServerKeys_entries:
  assumes "((n, i), r) \<in> set (mapServerKeysToPublicKeyLookupResult keys results)"
  shows "((n, i), r) \<in> set results \<or>
    n = ServerName keys \<and> (current_entry keys i r \<or> lookup_ValidUntilTS r = PublicKeyNotValid)"
  using assms unfolding mapServerKeysToPublicKeyLookupResult_def Let_def
  by (auto dest!: fold_update_entries simp: current_entry_def)

lemma fetchKeysForServer_entries:
  assumes "fst (fetchKeysForServer L E sha client server s) = Inr res" "(x, r) \<in> set res"
  shows "direct_entry L E client x r"
proof -
  from assms(1) obtain keys s1 where g: "GetServerKeys client server s = (Inr keys, s1)"
    and c: "checked_keys L E sha server keys [] = Inr res"
    by (auto simp: fetchKeysForServer_def bindS_def split: prod.splits sum.splits)
  from c obtain checks ks fs where k: "CheckKeys L E sha server 0 keys None = Inr (checks, ks, fs)"
    and ok: "AllChecksOK checks" and res: "res = mapServerKeysToPublicKeyLookupResult keys []"
    by (auto simp: checked_keys_def bindR_Inr_iff split: if_splits)
  have acc: "keys_acceptable L E server 0 keys" using CheckKeys_Inr(1) [OF k] ok by simp
  then have n: "ServerName keys = server" by (simp add: keys_acceptable_def)
  obtain n' i where x: "x = (n', i)" by (cases x)
  from mapServerKeys_entries [of n' i r keys "[]"] assms(2) n
  have "n' = server" "current_entry keys i r \<or> lookup_ValidUntilTS r = PublicKeyNotValid" by (auto simp: res x)
  then show ?thesis using g acc unfolding direct_entry_def x
    by (intro exI [of _ s] exI [of _ keys]) simp
qed

lemma fetch_servers_entries:
  "fst (fetch_servers L E sha client servers results s) = Inr res \<Longrightarrow>
   (\<And>x r. (x, r) \<in> set results \<Longrightarrow> direct_entry L E client x r) \<Longrightarrow> (x, r) \<in> set res \<Longrightarrow> direct_entry L E client x r"
proof (induction servers arbitrary: results s)
  case (Cons server servers)
  from Cons.prems(1) obtain sr s1 where f: "fetchKeysForServer L E sha client server s = (Inr sr, s1)"
    and r: "fst (fetch_servers L E sha client servers (fold (\<lambda>(req, keys). AList.update req keys) sr results) s1) = Inr res"
    by (auto simp: bindS_def split: prod.splits sum.splits)
  show ?case
  proof (rule Cons.IH [OF r _ Cons.prems(3)])
    fix x r assume "(x, r) \<in> set (fold (\<lambda>(req, keys). AList.update req keys) sr results)"
    from fold_update_entries [where f = "\<lambda>x. x" and g = "\<lambda>x. x", OF this]
    have "(x, r) \<in> set sr \<or> (x, r) \<in> set results" by auto
    then show "direct_entry L E client x r"
      using fetchKeysForServer_entries [of L E sha client server s sr x r] f Cons.prems(2) [of x r]
      by (elim disjE) simp_all
  qed
qed auto

lemma fold_update_other:
  "map_of (fold (\<lambda>(i, v). AList.update (n, i) (g v)) xs m) (n, k) =
    (if smap_ok xs then (case map_of xs k of None \<Rightarrow> map_of m (n, k) | Some v \<Rightarrow> Some (g v))
     else map_of (fold (\<lambda>(i, v). AList.update (n, i) (g v)) xs m) (n, k))"
proof (induction xs arbitrary: m)
  case (Cons x xs)
  obtain a b where x: "x = (a, b)" by (cases x)
  have "smap_ok xs \<Longrightarrow> map_of (fold (\<lambda>(i, v). AList.update (n, i) (g v)) xs (AList.update (n, a) (g b) m)) (n, k) =
      (case map_of xs k of None \<Rightarrow> if k = a then Some (g b) else map_of m (n, k) | Some v \<Rightarrow> Some (g v))"
    using Cons.IH [of "AList.update (n, a) (g b) m"] by (auto simp: AList.update_conv split: option.splits)
  moreover have "smap_ok (x # xs) \<Longrightarrow> smap_ok xs \<and> map_of xs a = None"
    by (auto simp: x smap_ok_def map_of_eq_None_iff)
  ultimately show ?case by (auto simp: x split: option.splits)
qed simp

section \<open>Properties\<close>

text \<open>
  C15. The checks of a response with keys pass exactly when it is from the server that was asked, has
  not run out, has an ed25519 key, all of its ed25519 keys have the right size and have signed the
  response, and it has fingerprints of the right size only (one of them that of the connection, if
  there is one). The keys handed on are then exactly the ed25519 keys of the response, otherwise none.
\<close>

theorem CheckKeys_accepts_iff:
  assumes "CheckKeys L E sha serverName now keys connState = Inr (checks, ks, fs)"
  shows "(AllChecksOK checks \<longleftrightarrow> keys_acceptable L E serverName now keys \<and>
      (case connState of None \<Rightarrow> True | Some certs \<Rightarrow> checkFingerprint sha certs (TLSFingerprints keys))) \<and>
    (AllChecksOK checks \<longrightarrow> smap_ok (VerifyKeys keys) \<longrightarrow>
      map_of ks k = (if is_ed25519 k then map_of (VerifyKeys keys) k else None)) \<and>
    (\<not> AllChecksOK checks \<longrightarrow> ks = [] \<and> fs = [])"
  using CheckKeys_Inr [OF assms] by blast

text \<open>
  C13. A message that the key ring of the server accepts is signed with an ed25519 key that is valid at the
  time asked for and comes from the database or from the server that signed it: it then is one of the
  current keys of a response that passed the checks and is signed with this key.
\<close>

theorem key_ring_sound:
  assumes "VerifyJSONs L E (CreateKeyRing L E sha client fetch st) requests s = (Inr results, s')"
    "i < length requests" "results ! i = None"
  defines "req \<equiv> requests ! i"
  shows "\<exists>keyID key. isAlgorithmSupported keyID \<and> WasValidAt key (AtTS req) \<and>
    VerifyJSON L E (req_ServerName req) keyID (lookup_Key key) (Message req) = Inr () \<and>
    ((\<exists>rs s1 keys. fst (fetch rs s1) = Inr keys \<and> map_of keys (req_ServerName req, keyID) = Some key) \<or>
     (\<exists>s1 keys. fst (GetServerKeys client (req_ServerName req) s1) = Inr keys \<and>
        keys_acceptable L E (req_ServerName req) 0 keys \<and> (keyID, lookup_Key key) \<in> set (VerifyKeys keys) \<and>
        AtTS req \<le> ValidUntilTS keys))"
proof -
  have "vouched L E (CreateKeyRing L E sha client fetch st) req"
    unfolding req_def by (rule ring.verify_nth [OF assms(1-3)])
  then obtain keyID key where k: "isAlgorithmSupported keyID"
    "offered (CreateKeyRing L E sha client fetch st) (req_ServerName req, keyID) key" "WasValidAt key (AtTS req)"
    "VerifyJSON L E (req_ServerName req) keyID (lookup_Key key) (Message req) = Inr ()"
    unfolding vouched_def by blast
  from k(2) consider rs s1 keys where "fst (fetch rs s1) = Inr keys" "map_of keys (req_ServerName req, keyID) = Some key"
    | rs s1 keys where "fst (DirectKeyFetcher_FetchKeys L E sha client rs s1) = Inr keys"
      "map_of keys (req_ServerName req, keyID) = Some key"
    unfolding offered_def CreateKeyRing_def by auto
  then show ?thesis
  proof cases
    case 1
    with k show ?thesis by blast
  next
    case 2
    have "direct_entry L E client (req_ServerName req, keyID) key"
      using fetch_servers_entries [OF 2(1) [unfolded DirectKeyFetcher_FetchKeys_def]] map_of_SomeD [OF 2(2)] by simp
    moreover have "lookup_ValidUntilTS key \<noteq> PublicKeyNotValid" "AtTS req \<le> lookup_ValidUntilTS key"
      using k(3) by (auto simp: WasValidAt_def split: if_splits)
    ultimately show ?thesis using k unfolding direct_entry_def current_entry_def by fastforce
  qed
qed

text \<open>
  C16. An old key of a server, which is published to check events from before it expired and is answered
  for them by \<open>PublicKey\<close>, is never valid for the key ring: its entry has no period of validity, and
  \<open>WasValidAt\<close> refuses such an entry whatever the time.
\<close>

theorem old_keys_never_valid:
  assumes "smap_ok (OldVerifyKeys keys)" "map_of (OldVerifyKeys keys) keyID = Some old"
    "map_of (VerifyKeys keys) keyID = None" "t \<le> ExpiredTS old"
  shows "PublicKey keys keyID t = OldKey old \<and>
    (\<exists>r. map_of (mapServerKeysToPublicKeyLookupResult keys results) (ServerName keys, keyID) = Some r \<and>
       lookup_Key r = OldKey old \<and> lookup_ExpiredTS r = ExpiredTS old \<and> (\<forall>t'. \<not> WasValidAt r t'))"
proof -
  define r where "r = \<lparr>lookup_Key = OldKey old, lookup_ExpiredTS = ExpiredTS old, lookup_ValidUntilTS = PublicKeyNotValid\<rparr>"
  have "map_of (mapServerKeysToPublicKeyLookupResult keys results) (ServerName keys, keyID) = Some r"
    unfolding mapServerKeysToPublicKeyLookupResult_def Let_def
    using assms(1,2) by (subst fold_update_other) (simp add: r_def)
  moreover have "\<not> WasValidAt r t'" for t' by (simp add: WasValidAt_def r_def)
  moreover have "PublicKey keys keyID t = OldKey old" using assms by (simp add: PublicKey_def)
  ultimately show ?thesis by (auto simp: r_def)
qed

end
