(* ===== verification/Byte_Strings.thy ===== *)
theory Byte_Strings
  imports Compact_JSON
begin

text \<open>
  Byte strings in JSON: base64 in both alphabets and hexadecimal
  (\<open>skunkworks/gomatrixserverlib/base64.go\<close>, \<open>hex_string.go\<close>), with the part of the standard
  library they use.
\<close>

section \<open>Specification\<close>

subsection \<open>The standard library: base64 and hex\<close>

text \<open>
  The two alphabets without padding. Decoding skips line ends, fails on any other byte that is not
  in the alphabet and on a single left-over digit, and ignores the unused bits of the last digit.
\<close>

definition RawStdEncoding :: string where
  "RawStdEncoding = ''ABCDEFGHIJKLMNOPQRSTUVWXYZabcdefghijklmnopqrstuvwxyz0123456789+/''"

definition RawURLEncoding :: string where
  "RawURLEncoding = ''ABCDEFGHIJKLMNOPQRSTUVWXYZabcdefghijklmnopqrstuvwxyz0123456789-_''"

fun base64_digits :: "nat list \<Rightarrow> nat list" where
  "base64_digits [] = []"
| "base64_digits [a] = [a div 4, a mod 4 * 16]"
| "base64_digits [a, b] = [a div 4, a mod 4 * 16 + b div 16, b mod 16 * 4]"
| "base64_digits (a # b # c # s) =
     [a div 4, a mod 4 * 16 + b div 16, b mod 16 * 4 + c div 64, c mod 64] @ base64_digits s"

fun base64_bytes :: "nat list \<Rightarrow> nat list result" where
  "base64_bytes [] = Inr []"
| "base64_bytes [p] = Inl (Error ''illegal base64 data'')"
| "base64_bytes [p, q] = Inr [p * 4 + q div 16]"
| "base64_bytes [p, q, r] = Inr [p * 4 + q div 16, q mod 16 * 16 + r div 4]"
| "base64_bytes (p # q # r # t # s) =
     bindR (base64_bytes s) (\<lambda>bs. Inr ([p * 4 + q div 16, q mod 16 * 16 + r div 4, r mod 4 * 64 + t] @ bs))"

definition EncodeToString :: "string \<Rightarrow> string \<Rightarrow> string" where
  "EncodeToString alphabet s = map ((!) alphabet) (base64_digits (map of_char s))"

fun digits_of :: "string \<Rightarrow> string \<Rightarrow> nat list result" where
  "digits_of alphabet [] = Inr []"
| "digits_of alphabet (c # s) =
     (if c = CHR 0x0A \<or> c = CHR 0x0D then digits_of alphabet s
      else case map_of (zip alphabet [0..<64]) c of
        None \<Rightarrow> Inl (Error ''illegal base64 data'')
      | Some n \<Rightarrow> bindR (digits_of alphabet s) (\<lambda>ns. Inr (n # ns)))"

definition DecodeString :: "string \<Rightarrow> string \<Rightarrow> string result" where
  "DecodeString alphabet s =
     bindR (digits_of alphabet s) (\<lambda>ns. bindR (base64_bytes ns) (\<lambda>bs. Inr (map char_of bs)))"

text \<open>Hexadecimal: two digits for each byte, lower case when writing.\<close>

definition hex_EncodeToString :: "string \<Rightarrow> string" where
  "hex_EncodeToString s = concat (map (\<lambda>c. [''0123456789abcdef'' ! (of_char c div 16), ''0123456789abcdef'' ! (of_char c mod 16)]) s)"

fun hex_DecodeString :: "string \<Rightarrow> string result" where
  "hex_DecodeString [] = Inr []"
| "hex_DecodeString [a] = Inl (Error ''odd length hex string'')"
| "hex_DecodeString (a # b # s) =
     (case (hex_digit a, hex_digit b) of
        (Some x, Some y) \<Rightarrow> bindR (hex_DecodeString s) (\<lambda>r. Inr (char_of (x * 16 + y) # r))
      | _ \<Rightarrow> Inl (Error ''invalid byte''))"

text \<open>Reading and writing a JSON string, by the JSON library.\<close>

record string_codec =
  marshalString :: "string \<Rightarrow> string result"
  unmarshalString :: "string \<Rightarrow> string result"

subsection \<open>Base64String\<close>

definition Base64String_Encode :: "string \<Rightarrow> string" where
  "Base64String_Encode b64 = EncodeToString RawStdEncoding b64"

definition Base64String_Decode :: "string \<Rightarrow> string result" where
  "Base64String_Decode str =
     (if list_ex (\<lambda>c. c \<in> set ''-_'') str then DecodeString RawURLEncoding str
      else DecodeString RawStdEncoding str)"

definition Base64String_MarshalJSON :: "string_codec \<Rightarrow> string \<Rightarrow> string result" where
  "Base64String_MarshalJSON J b64 = marshalString J (Base64String_Encode b64)"

definition Base64String_MarshalYAML :: "string \<Rightarrow> string result" where
  "Base64String_MarshalYAML b64 = Inr (Base64String_Encode b64)"

definition Base64String_UnmarshalJSON :: "string_codec \<Rightarrow> string \<Rightarrow> string result" where
  "Base64String_UnmarshalJSON J raw = bindR (unmarshalString J raw) Base64String_Decode"

text \<open>The argument is the function that reads the YAML node into a string.\<close>

definition Base64String_UnmarshalYAML :: "string result \<Rightarrow> string result" where
  "Base64String_UnmarshalYAML unmarshal = bindR unmarshal Base64String_Decode"

subsection \<open>HexString\<close>

definition HexString_MarshalJSON :: "string_codec \<Rightarrow> string \<Rightarrow> string result" where
  "HexString_MarshalJSON J h = marshalString J (hex_EncodeToString h)"

definition HexString_UnmarshalJSON :: "string_codec \<Rightarrow> string \<Rightarrow> string result" where
  "HexString_UnmarshalJSON J raw = bindR (unmarshalString J raw) hex_DecodeString"

section \<open>Lemmas\<close>

lemma digit_bounds:
  "a < 256 \<Longrightarrow> a div 4 < (64 :: nat)"
  "b < 256 \<Longrightarrow> a mod 4 * 16 + b div 16 < (64 :: nat)"
  "c < 256 \<Longrightarrow> b mod 16 * 4 + c div 64 < (64 :: nat)"
  "a mod 4 * 16 < (64 :: nat)" "b mod 16 * 4 < (64 :: nat)"
proof -
  have m: "a mod 4 < 4" "b mod 16 < 16" by simp_all
  show "a < 256 \<Longrightarrow> a div 4 < 64" by (simp add: less_mult_imp_div_less)
  show "a mod 4 * 16 + b div 16 < 64" if "b < 256"
    using m less_mult_imp_div_less [of b 16 16] that by simp
  show "b mod 16 * 4 + c div 64 < 64" if "c < 256"
    using m less_mult_imp_div_less [of c 4 64] that by simp
  show "a mod 4 * 16 < 64" "b mod 16 * 4 < 64" using m by simp_all
qed

lemma base64_digits_bound:
  "list_all (\<lambda>x. x < 256) s \<Longrightarrow> list_all (\<lambda>d. d < 64) (base64_digits s)"
  by (induction s rule: base64_digits.induct) (simp_all add: digit_bounds)

lemma digit_pairs:
  "b < 256 \<Longrightarrow> b div 16 div 16 = (0 :: nat)" "b < 256 \<Longrightarrow> b div 16 mod 16 = b div (16 :: nat)"
  "c < 256 \<Longrightarrow> c div 64 div 4 = (0 :: nat)" "c < 256 \<Longrightarrow> c div 64 mod 4 = c div (64 :: nat)"
  using less_mult_imp_div_less [of b 16 16] less_mult_imp_div_less [of c 4 64] by simp_all

lemma base64_bytes_digits: "list_all (\<lambda>x. x < 256) s \<Longrightarrow> base64_bytes (base64_digits s) = Inr s"
  by (induction s rule: base64_digits.induct) (simp_all add: digit_pairs)

lemma alphabet_ok:
  "distinct RawStdEncoding" "length RawStdEncoding = 64" "distinct RawURLEncoding" "length RawURLEncoding = 64"
  by (simp_all add: RawStdEncoding_def RawURLEncoding_def)

lemma digits_of_digits:
  assumes "distinct a" "length a = 64" "CHR 0x0A \<notin> set a" "CHR 0x0D \<notin> set a"
  shows "list_all (\<lambda>d. d < 64) ns \<Longrightarrow> digits_of a (map ((!) a) ns) = Inr ns"
proof (induction ns)
  case (Cons n ns)
  then have n: "n < 64" by simp
  then have "map_of (zip a [0..<64]) (a ! n) = Some ([0..<64] ! n)"
    using assms by (intro map_of_zip_nth) simp_all
  moreover have "a ! n \<in> set a" using n assms(2) by simp
  ultimately show ?case using Cons n assms(3,4) by auto
qed simp

lemma of_char_bytes: "list_all (\<lambda>x. x < 256) (map of_char s :: nat list)"
  by (simp add: list_all_iff)

lemma decode_encode:
  assumes "distinct a" "length a = 64" "CHR 0x0A \<notin> set a" "CHR 0x0D \<notin> set a"
  shows "DecodeString a (EncodeToString a s) = Inr s"
proof -
  note digits_of_digits [OF assms base64_digits_bound [OF of_char_bytes]]
  then show ?thesis
    unfolding DecodeString_def EncodeToString_def by (simp add: base64_bytes_digits [OF of_char_bytes] comp_def)
qed

lemma std_encode_plain: "\<not> list_ex (\<lambda>c. c \<in> set ''-_'') (EncodeToString RawStdEncoding s)"
proof -
  have "RawStdEncoding ! d \<noteq> CHR ''-'' \<and> RawStdEncoding ! d \<noteq> CHR ''_''" if "d < 64" for d
  proof -
    have "RawStdEncoding ! d \<in> set RawStdEncoding" using that alphabet_ok(2) by simp
    moreover have "CHR ''-'' \<notin> set RawStdEncoding" "CHR ''_'' \<notin> set RawStdEncoding"
      by (simp_all add: RawStdEncoding_def)
    ultimately show ?thesis by metis
  qed
  then show ?thesis using base64_digits_bound [OF of_char_bytes, of s]
    by (auto simp: EncodeToString_def list_ex_iff list_all_iff)
qed

lemma url_encode_plain:
  assumes "\<not> list_ex (\<lambda>c. c \<in> set ''-_'') (EncodeToString RawURLEncoding s)"
  shows "EncodeToString RawURLEncoding s = EncodeToString RawStdEncoding s"
proof -
  have "RawURLEncoding ! d = RawStdEncoding ! d" if "d \<in> set (base64_digits (map of_char s))" for d
  proof -
    have "d < 64" using base64_digits_bound [OF of_char_bytes, of s] that by (simp add: list_all_iff)
    moreover have "RawURLEncoding ! 62 = CHR ''-''" "RawURLEncoding ! 63 = CHR ''_''"
      by (simp_all add: RawURLEncoding_def)
    moreover have "RawURLEncoding ! d \<noteq> CHR ''-''" "RawURLEncoding ! d \<noteq> CHR ''_''"
      using assms that by (auto simp: EncodeToString_def list_ex_iff)
    ultimately have "d \<noteq> 62" "d \<noteq> 63" by metis+
    with \<open>d < 64\<close> have "d < 62" by simp
    moreover have "take 62 RawURLEncoding = take 62 RawStdEncoding"
      by (simp add: RawURLEncoding_def RawStdEncoding_def)
    ultimately show ?thesis by (metis nth_take)
  qed
  then show ?thesis by (simp add: EncodeToString_def)
qed

lemma no_line_ends:
  "CHR 0x0A \<notin> set RawStdEncoding" "CHR 0x0D \<notin> set RawStdEncoding"
  "CHR 0x0A \<notin> set RawURLEncoding" "CHR 0x0D \<notin> set RawURLEncoding"
  by (simp_all add: RawStdEncoding_def RawURLEncoding_def)

lemmas decode_std = decode_encode [OF alphabet_ok(1,2) no_line_ends(1,2)]

lemmas decode_url = decode_encode [OF alphabet_ok(3,4) no_line_ends(3,4)]

lemma base64_std: "Base64String_Decode (EncodeToString RawStdEncoding b) = Inr b"
  using std_encode_plain decode_std by (simp add: Base64String_Decode_def)

lemma base64_url: "Base64String_Decode (EncodeToString RawURLEncoding b) = Inr b"
proof (cases "list_ex (\<lambda>c. c \<in> set ''-_'') (EncodeToString RawURLEncoding b)")
  case True
  then show ?thesis unfolding Base64String_Decode_def by (simp only: if_True decode_url)
next
  case False
  from url_encode_plain [OF this] show ?thesis by (simp only: base64_std)
qed

lemma hex_digit_lower: "k < 16 \<Longrightarrow> hex_digit (''0123456789abcdef'' ! k) = Some k"
proof -
  assume "k < 16"
  moreover have "[0..<16] = [0, 1, 2, 3, 4, 5, 6, 7, 8, 9, 10, 11, 12, 13, 14, 15]" by (simp add: upt_rec)
  ultimately have "k \<in> set [0, 1, 2, 3, 4, 5, 6, 7, 8, 9, 10, 11, 12, 13, 14, 15]"
    by (metis atLeastLessThan_iff le0 set_upt)
  then show ?thesis unfolding list.set by (elim insertE emptyE; hypsubst; simp add: hex_digit_def)
qed

lemma hex_decode_encode: "hex_DecodeString (hex_EncodeToString s) = Inr s"
proof (induction s)
  case (Cons c s)
  have "(of_char c :: nat) div 16 < 16" by (simp add: less_mult_imp_div_less)
  then show ?case using Cons by (simp add: hex_EncodeToString_def hex_digit_lower)
qed (simp add: hex_EncodeToString_def)

section \<open>Properties\<close>

text \<open>
  What is written in base64, in the standard or in the URL alphabet, or in hexadecimal, is read
  back as the same bytes: the reader tells the two alphabets apart by their special characters.
\<close>

theorem byte_strings_roundtrip:
  "Base64String_Decode (Base64String_Encode b) = Inr b \<and>
   Base64String_Decode (EncodeToString RawURLEncoding b) = Inr b \<and>
   hex_DecodeString (hex_EncodeToString b) = Inr b"
  by (simp add: Base64String_Encode_def base64_std base64_url hex_decode_encode)
end
