(* ===== verification/Matrix_Events.thy ===== *)
theory Matrix_Events
  imports Prelude
begin

text \<open>
  Matrix events and the contents the authorisation rules read
  (\<open>src/skunkworks/gomatrixserverlib/event.go\<close> and \<open>eventcontent.go\<close>): the event record, the event
  builder and its field checks, identifiers, and the loading of the create, member, join rules,
  power levels and third party invite contents with their defaults.
  Contents are raw JSON of a type variable. The JSON library is not part of the repository: what
  the code asks of it is the record \<open>codec\<close>, an argument of the definitions. A decoder answers
  \<open>None\<close> when \<open>json.Unmarshal\<close> reports an error.
\<close>

section \<open>Names\<close>

abbreviation (input) join :: string where "join \<equiv> ''join''"
abbreviation (input) ban :: string where "ban \<equiv> ''ban''"
abbreviation (input) leave :: string where "leave \<equiv> ''leave''"
abbreviation (input) invite :: string where "invite \<equiv> ''invite''"
abbreviation (input) public :: string where "public \<equiv> ''public''"
abbreviation (input) forget :: string where "forget \<equiv> ''forget''"

abbreviation (input) MRoomCreate :: string where "MRoomCreate \<equiv> ''m.room.create''"
abbreviation (input) MRoomJoinRules :: string where "MRoomJoinRules \<equiv> ''m.room.join_rules''"
abbreviation (input) MRoomPowerLevels :: string where "MRoomPowerLevels \<equiv> ''m.room.power_levels''"
abbreviation (input) MRoomMember :: string where "MRoomMember \<equiv> ''m.room.member''"
abbreviation (input) MRoomThirdPartyInvite :: string where
  "MRoomThirdPartyInvite \<equiv> ''m.room.third_party_invite''"
abbreviation (input) MRoomAliases :: string where "MRoomAliases \<equiv> ''m.room.aliases''"
abbreviation (input) MRoomHistoryVisibility :: string where
  "MRoomHistoryVisibility \<equiv> ''m.room.history_visibility''"
abbreviation (input) MRoomRedaction :: string where "MRoomRedaction \<equiv> ''m.room.redaction''"
abbreviation (input) MRoomArchive :: string where "MRoomArchive \<equiv> ''m.room.archive''"
abbreviation (input) MRoomUpdate :: string where "MRoomUpdate \<equiv> ''m.room.update''"

section \<open>Events\<close>

type_synonym StateKeyTuple = "string \<times> string"

record 'c EventBuilder =
  eb_Sender :: string
  eb_RoomID :: string
  eb_Type :: string
  eb_StateKey :: "string option"
  eb_Redacts :: string
  eb_Depth :: int
  eb_DomainOffset :: int
  eb_Content :: 'c
  eb_Unsigned :: 'c
  eb_RedactsSender :: string

record 'c Event =
  RoomID :: string
  EventID :: string
  EventNID :: int
  DomainOffset :: int
  Sender :: string
  EvType :: string
  StateKey :: "string option"
  Content :: 'c
  Redacts :: string
  Depth :: int
  Unsigned :: 'c
  OriginServerTS :: int
  Origin :: string
  RedactsSender :: string

definition StateKeyEquals :: "'c Event \<Rightarrow> string \<Rightarrow> bool" where
  "StateKeyEquals e stateKey = (case StateKey e of None \<Rightarrow> False | Some k \<Rightarrow> k = stateKey)"

definition SetDepth :: "int \<Rightarrow> 'c Event \<Rightarrow> 'c Event" where
  "SetDepth depth e = e\<lparr>Depth := depth\<rparr>"

definition SetDomainOffset :: "int \<Rightarrow> 'c Event \<Rightarrow> 'c Event" where
  "SetDomainOffset offset e = e\<lparr>DomainOffset := offset\<rparr>"

section \<open>Identifiers\<close>

definition domainFromID :: "string \<Rightarrow> string result" where
  "domainFromID ident =
     (let parts = splitN2 CHR '':'' ident in
      if length parts \<noteq> 2 then Inl (NotAllowed ''invalid ID'') else Inr (parts ! 1))"

definition maxIDLength :: nat where
  "maxIDLength = 255"

definition checkID :: "string \<Rightarrow> char \<Rightarrow> string result" where
  "checkID ident sigil =
     bindR (domainFromID ident) (\<lambda>domain.
       if ident = [] then Inl (Panic ''index out of range'')
       else if hd ident \<noteq> sigil then Inl (Error ''invalid ID'')
       else if length ident > maxIDLength then Inl (Error ''ID is too long'')
       else Inr domain)"

definition SplitID :: "char \<Rightarrow> string \<Rightarrow> (string \<times> string) result" where
  "SplitID sigil ident =
     (if ident = [] \<or> hd ident \<noteq> sigil then Inl (Error ''invalid ID'')
      else
        (let parts = splitN2 CHR '':'' ident in
         if length parts \<noteq> 2 then Inl (Error ''missing separator'')
         else Inr (tl (parts ! 0), parts ! 1)))"

definition isValidUserID :: "string \<Rightarrow> bool result" where
  "isValidUserID userID =
     (if userID = [] then Inl (Panic ''index out of range'')
      else Inr (hd userID = CHR ''@'' \<and> CHR '':'' \<in> set userID))"

text \<open>The decimal of an \<open>int64\<close>, the \<open>%d\<close> of an event identifier.\<close>

fun show_nat :: "nat \<Rightarrow> string" where
  "show_nat n = (if n < 10 then [char_of (48 + n)] else show_nat (n div 10) @ [char_of (48 + n mod 10)])"

definition show_int :: "int \<Rightarrow> string" where
  "show_int i = (if i < 0 then CHR ''-'' # show_nat (nat (- i)) else show_nat (nat i))"

section \<open>Building an event\<close>

definition CheckFields :: "'c Event \<Rightarrow> unit result" where
  "CheckFields e =
     bindR (ensure (length (EvType e) \<le> maxIDLength) (Error ''event type is too long'')) (\<lambda>_.
     bindR (ensure (case StateKey e of None \<Rightarrow> True | Some k \<Rightarrow> length k \<le> maxIDLength)
              (Error ''state key is too long'')) (\<lambda>_.
     bindR (checkID (RoomID e) CHR ''!'') (\<lambda>_.
     bindR (checkID (Sender e) CHR ''@'') (\<lambda>senderDomain.
     bindR (checkID (EventID e) CHR ''$'') (\<lambda>eventDomain.
     bindR (ensure (Origin e = eventDomain) (Error ''event ID domain does not match origin'')) (\<lambda>_.
     ensure (Origin e = senderDomain \<or> EvType e = MRoomMember)
       (Error ''sender domain does not match origin'')))))))"

definition Build :: "'c EventBuilder \<Rightarrow> int \<Rightarrow> string \<Rightarrow> 'c Event result" where
  "Build eb eventNID origin =
     (let e = \<lparr>RoomID = eb_RoomID eb,
               EventID = CHR ''$'' # show_int eventNID @ CHR '':'' # origin,
               EventNID = eventNID, DomainOffset = eb_DomainOffset eb, Sender = eb_Sender eb,
               EvType = eb_Type eb, StateKey = eb_StateKey eb, Content = eb_Content eb,
               Redacts = eb_Redacts eb, Depth = eb_Depth eb, Unsigned = eb_Unsigned eb,
               OriginServerTS = 0, Origin = origin, RedactsSender = eb_RedactsSender eb\<rparr>
      in bindR (CheckFields e) (\<lambda>_. Inr e))"

section \<open>Contents\<close>

record memberThirdPartyInviteSigned =
  MXID :: string
  Signatures :: "string smap smap"
  Token :: string

record memberThirdPartyInvite =
  DisplayName :: string
  Signed :: memberThirdPartyInviteSigned

record memberContent =
  Membership :: string
  ThirdPartyInvite :: "memberThirdPartyInvite option"

record createContent =
  senderDomain :: string
  roomID :: string
  eventID :: string
  Federate :: "bool option"
  Creator :: string
  IsOrganizationRoom :: bool
  IsGroupRoom :: bool

record powerLevelContent =
  banLevel :: int
  inviteLevel :: int
  kickLevel :: int
  redactLevel :: int
  userLevels :: "int smap"
  userDefaultLevel :: int
  eventLevels :: "int smap"
  eventDefaultLevel :: int
  stateDefaultLevel :: int
  onlyOneMember :: bool

text \<open>
  What is asked of the JSON library: the tagged fields of each content (for the power levels the
  raw JSON of every level that is present), and the readings of one raw level.
\<close>

record 'c levelsJSON =
  lj_invite :: "'c option"
  lj_ban :: "'c option"
  lj_kick :: "'c option"
  lj_redact :: "'c option"
  lj_users :: "'c smap"
  lj_users_default :: "'c option"
  lj_events :: "'c smap"
  lj_state_default :: "'c option"
  lj_events_default :: "'c option"
  lj_only_one_member :: "bool option"

record 'c codec =
  dec_create :: "'c \<Rightarrow> (bool option \<times> string \<times> bool \<times> bool) option"
  dec_member :: "'c \<Rightarrow> memberContent option"
  dec_join_rule :: "'c \<Rightarrow> string option"
  dec_public_keys :: "'c \<Rightarrow> string list option"
  dec_levels :: "'c \<Rightarrow> 'c levelsJSON option"
  as_int64 :: "'c \<Rightarrow> int option"
  as_string :: "'c \<Rightarrow> string option"
  as_float_truncated :: "'c \<Rightarrow> int option"

text \<open>\<open>strconv.ParseInt(s, 10, 64)\<close>.\<close>

definition digit_val :: "char \<Rightarrow> nat option" where
  "digit_val c = (let n = of_char c :: nat in if 48 \<le> n \<and> n \<le> 57 then Some (n - 48) else None)"

fun digits_val :: "nat \<Rightarrow> string \<Rightarrow> nat option" where
  "digits_val acc [] = Some acc"
| "digits_val acc (c # cs) =
     (case digit_val c of None \<Rightarrow> None | Some d \<Rightarrow> digits_val (acc * 10 + d) cs)"

definition ParseInt10 :: "string \<Rightarrow> int option" where
  "ParseInt10 s =
     (case s of
        [] \<Rightarrow> None
      | c # r \<Rightarrow>
          (let neg = (c = CHR ''-'');
               ds = (if c = CHR ''-'' \<or> c = CHR ''+'' then r else s)
           in if ds = [] then None
              else (case digits_val 0 ds of
                      None \<Rightarrow> None
                    | Some n \<Rightarrow>
                        (let i = (if neg then - int n else int n) in
                         if in_int64 i then Some i else None))))"

definition levelJSONValue_UnmarshalJSON :: "'c codec \<Rightarrow> 'c \<Rightarrow> int option" where
  "levelJSONValue_UnmarshalJSON cd d =
     (case as_int64 cd d of
        Some i \<Rightarrow> Some i
      | None \<Rightarrow>
          (case as_string cd d of
             Some s \<Rightarrow> ParseInt10 s
           | None \<Rightarrow> as_float_truncated cd d))"

text \<open>A level that is absent keeps its default; one that cannot be read fails the whole content.\<close>

definition assignIfExists :: "'c codec \<Rightarrow> 'c option \<Rightarrow> int \<Rightarrow> int option" where
  "assignIfExists cd v dflt = (case v of None \<Rightarrow> Some dflt | Some d \<Rightarrow> levelJSONValue_UnmarshalJSON cd d)"

fun levels_map :: "'c codec \<Rightarrow> 'c smap \<Rightarrow> int smap option" where
  "levels_map cd [] = Some []"
| "levels_map cd ((k, d) # r) =
     (case levelJSONValue_UnmarshalJSON cd d of
        None \<Rightarrow> None
      | Some i \<Rightarrow> (case levels_map cd r of None \<Rightarrow> None | Some m \<Rightarrow> Some ((k, i) # m)))"

section \<open>Power levels\<close>

definition userLevel :: "powerLevelContent \<Rightarrow> string \<Rightarrow> int" where
  "userLevel c userID =
     (case map_of (userLevels c) userID of Some level \<Rightarrow> level | None \<Rightarrow> userDefaultLevel c)"

definition eventLevel :: "powerLevelContent \<Rightarrow> string \<Rightarrow> bool \<Rightarrow> int" where
  "eventLevel c eventType isState =
     (if eventType = MRoomThirdPartyInvite then inviteLevel c
      else
        (case map_of (eventLevels c) eventType of
           Some level \<Rightarrow> level
         | None \<Rightarrow> if isState then stateDefaultLevel c else eventDefaultLevel c))"

definition thereIsOnlyOneMember :: "powerLevelContent \<Rightarrow> bool" where
  "thereIsOnlyOneMember c = onlyOneMember c"

definition defaults :: powerLevelContent where
  "defaults = \<lparr>banLevel = 50, inviteLevel = 0, kickLevel = 50, redactLevel = 50, userLevels = [],
     userDefaultLevel = 0, eventLevels = [], eventDefaultLevel = 0, stateDefaultLevel = 50,
     onlyOneMember = False\<rparr>"

definition newPowerLevelContentFromEvent :: "'c codec \<Rightarrow> 'c Event \<Rightarrow> powerLevelContent result" where
  "newPowerLevelContentFromEvent cd e =
     (case dec_levels cd (Content e) of
        None \<Rightarrow> Inl (NotAllowed ''unparsable power_levels event content'')
      | Some j \<Rightarrow>
          (case (assignIfExists cd (lj_invite j) (inviteLevel defaults),
                 assignIfExists cd (lj_ban j) (banLevel defaults),
                 assignIfExists cd (lj_kick j) (kickLevel defaults),
                 assignIfExists cd (lj_redact j) (redactLevel defaults),
                 assignIfExists cd (lj_users_default j) (userDefaultLevel defaults),
                 assignIfExists cd (lj_state_default j) (stateDefaultLevel defaults),
                 assignIfExists cd (lj_events_default j) (eventDefaultLevel defaults),
                 levels_map cd (lj_users j), levels_map cd (lj_events j)) of
             (Some iv, Some bn, Some kk, Some rd, Some ud, Some sd, Some ed, Some us, Some es) \<Rightarrow>
               Inr \<lparr>banLevel = bn, inviteLevel = iv, kickLevel = kk, redactLevel = rd,
                    userLevels = us, userDefaultLevel = ud, eventLevels = es,
                    eventDefaultLevel = ed, stateDefaultLevel = sd,
                    onlyOneMember = (case lj_only_one_member j of None \<Rightarrow> False | Some b \<Rightarrow> b)\<rparr>
           | _ \<Rightarrow> Inl (NotAllowed ''unparsable power_levels event content'')))"

section \<open>Loading from the authorisation events\<close>

text \<open>The interface \<open>AuthEventProvider\<close>: a nil event is \<open>None\<close>.\<close>

record 'c AuthEventProvider =
  get_Create :: "'c Event option result"
  get_JoinRules :: "'c Event option result"
  get_PowerLevels :: "'c Event option result"
  get_Member :: "string \<Rightarrow> 'c Event option result"
  get_ThirdPartyInvite :: "string \<Rightarrow> 'c Event option result"

definition newCreateContentFromAuthEvents ::
  "'c codec \<Rightarrow> 'c AuthEventProvider \<Rightarrow> createContent result" where
  "newCreateContentFromAuthEvents cd p =
     bindR (get_Create p) (\<lambda>oe.
       case oe of
         None \<Rightarrow> Inl (NotAllowed ''missing create event'')
       | Some e \<Rightarrow>
           (case dec_create cd (Content e) of
              None \<Rightarrow> Inl (NotAllowed ''unparsable create event content'')
            | Some (fed, creator, org, grp) \<Rightarrow>
                bindR (domainFromID (Sender e)) (\<lambda>d.
                  Inr \<lparr>senderDomain = d, roomID = RoomID e, eventID = EventID e, Federate = fed,
                       Creator = creator, IsOrganizationRoom = org, IsGroupRoom = grp\<rparr>)))"

text \<open>\<open>adapter.CheckSameDomain\<close>: all domains are among the configured ones.\<close>

definition CheckSameDomain :: "string list \<Rightarrow> string list \<Rightarrow> bool" where
  "CheckSameDomain cfg domains = list_all (\<lambda>d. d \<in> set cfg) domains"

definition domainAllowed :: "string list \<Rightarrow> createContent \<Rightarrow> string \<Rightarrow> unit result" where
  "domainAllowed cfg c domain =
     (if domain = senderDomain c then Inr ()
      else if Federate c = None \<or> Federate c = Some True then Inr ()
      else if CheckSameDomain cfg [domain, senderDomain c] then Inr ()
      else Inl (NotAllowed ''room is unfederatable''))"

definition userIDAllowed :: "string list \<Rightarrow> createContent \<Rightarrow> string \<Rightarrow> unit result" where
  "userIDAllowed cfg c ident = bindR (domainFromID ident) (domainAllowed cfg c)"

definition newMemberContentFromEvent :: "'c codec \<Rightarrow> 'c Event \<Rightarrow> memberContent result" where
  "newMemberContentFromEvent cd e =
     (case dec_member cd (Content e) of
        None \<Rightarrow> Inl (NotAllowed ''unparsable member event content'') | Some c \<Rightarrow> Inr c)"

definition newMemberContentFromAuthEvents ::
  "'c codec \<Rightarrow> 'c AuthEventProvider \<Rightarrow> string \<Rightarrow> memberContent result" where
  "newMemberContentFromAuthEvents cd p userID =
     bindR (get_Member p userID) (\<lambda>oe.
       case oe of
         None \<Rightarrow> Inr \<lparr>Membership = leave, ThirdPartyInvite = None\<rparr>
       | Some e \<Rightarrow> newMemberContentFromEvent cd e)"

definition newThirdPartyInviteContentFromAuthEvents ::
  "'c codec \<Rightarrow> 'c AuthEventProvider \<Rightarrow> string \<Rightarrow> string list result" where
  "newThirdPartyInviteContentFromAuthEvents cd p token =
     bindR (get_ThirdPartyInvite p token) (\<lambda>oe.
       case oe of
         None \<Rightarrow> Inl (NotAllowed ''no third party invite event'')
       | Some e \<Rightarrow>
           (case dec_public_keys cd (Content e) of
              None \<Rightarrow> Inl (NotAllowed ''unparsable third party invite event content'')
            | Some ks \<Rightarrow> Inr ks))"

definition newJoinRuleContentFromAuthEvents ::
  "'c codec \<Rightarrow> 'c AuthEventProvider \<Rightarrow> string result" where
  "newJoinRuleContentFromAuthEvents cd p =
     bindR (get_JoinRules p) (\<lambda>oe.
       case oe of
         None \<Rightarrow> Inr invite
       | Some e \<Rightarrow>
           (case dec_join_rule cd (Content e) of
              None \<Rightarrow> Inl (NotAllowed ''unparsable join_rules event content'')
            | Some r \<Rightarrow> Inr r))"

definition newPowerLevelContentFromAuthEvents ::
  "'c codec \<Rightarrow> 'c AuthEventProvider \<Rightarrow> string \<Rightarrow> powerLevelContent result" where
  "newPowerLevelContentFromAuthEvents cd p creatorUserID =
     bindR (get_PowerLevels p) (\<lambda>oe.
       case oe of
         Some e \<Rightarrow> newPowerLevelContentFromEvent cd e
       | None \<Rightarrow> Inr (defaults\<lparr>userLevels := [(creatorUserID, 100)], stateDefaultLevel := 0\<rparr>))"

definition EventMembership :: "'c codec \<Rightarrow> 'c Event \<Rightarrow> string result" where
  "EventMembership cd e =
     (if EvType e \<noteq> MRoomMember then Inl (Error ''not an m.room.member event'')
      else (case dec_member cd (Content e) of
              None \<Rightarrow> Inl (Error ''invalid m.room.member content'')
            | Some c \<Rightarrow> Inr (Membership c)))"

section \<open>Specification\<close>

text \<open>An identifier with the given sigil and domain, within the length limit.\<close>

definition good_id :: "char \<Rightarrow> string \<Rightarrow> string \<Rightarrow> bool" where
  "good_id sigil ident d \<longleftrightarrow> length ident \<le> maxIDLength \<and>
     (\<exists>l. ident = sigil # l @ CHR '':'' # d \<and> CHR '':'' \<notin> set l)"

definition built :: "'c EventBuilder \<Rightarrow> int \<Rightarrow> string \<Rightarrow> 'c Event" where
  "built eb eventNID origin =
     \<lparr>RoomID = eb_RoomID eb, EventID = CHR ''$'' # show_int eventNID @ CHR '':'' # origin,
      EventNID = eventNID, DomainOffset = eb_DomainOffset eb, Sender = eb_Sender eb,
      EvType = eb_Type eb, StateKey = eb_StateKey eb, Content = eb_Content eb,
      Redacts = eb_Redacts eb, Depth = eb_Depth eb, Unsigned = eb_Unsigned eb,
      OriginServerTS = 0, Origin = origin, RedactsSender = eb_RedactsSender eb\<rparr>"

text \<open>What an event must satisfy to be built.\<close>

definition valid_fields :: "'c Event \<Rightarrow> bool" where
  "valid_fields e \<longleftrightarrow>
     length (EvType e) \<le> maxIDLength \<and> (\<forall>k. StateKey e = Some k \<longrightarrow> length k \<le> maxIDLength) \<and>
     (\<exists>d. good_id CHR ''!'' (RoomID e) d) \<and>
     (\<exists>d. good_id CHR ''@'' (Sender e) d \<and> (d = Origin e \<or> EvType e = MRoomMember)) \<and>
     good_id CHR ''$'' (EventID e) (Origin e)"

section \<open>Lemmas\<close>

declare show_nat.simps [simp del]

lemma domainFromID_iff:
  "domainFromID ident = Inr d \<longleftrightarrow> (\<exists>l. ident = l @ CHR '':'' # d \<and> CHR '':'' \<notin> set l)"
proof -
  have "domainFromID ident = Inr d \<longleftrightarrow> (\<exists>l. splitN2 CHR '':'' ident = [l, d])"
    by (auto simp: domainFromID_def Let_def length_Suc_conv numeral_2_eq_2)
  then show ?thesis by (simp add: splitN2_two_iff)
qed

lemma domainFromID_append [simp]:
  "CHR '':'' \<notin> set l \<Longrightarrow> domainFromID (l @ CHR '':'' # d) = Inr d"
  by (auto simp: domainFromID_iff)

lemma domainFromID_Inl_iff:
  "(\<exists>x. domainFromID ident = Inl x) \<longleftrightarrow> CHR '':'' \<notin> set ident"
proof -
  have "(\<exists>x. domainFromID ident = Inl x) \<longleftrightarrow> (\<nexists>d. domainFromID ident = Inr d)"
    by (cases "domainFromID ident") auto
  then show ?thesis using split_list_first [of "CHR '':''" ident] by (auto simp: domainFromID_iff)
qed

lemma checkID_iff:
  assumes "sigil \<noteq> CHR '':''"
  shows "checkID ident sigil = Inr d \<longleftrightarrow> good_id sigil ident d"
proof
  assume *: "checkID ident sigil = Inr d"
  then obtain l where l: "ident = l @ CHR '':'' # d" "CHR '':'' \<notin> set l"
    by (auto simp: checkID_def result_simps domainFromID_iff split: if_splits)
  from * have "hd ident = sigil" "length ident \<le> maxIDLength"
    by (auto simp: checkID_def result_simps split: if_splits)
  with l assms show "good_id sigil ident d" by (cases l) (auto simp: good_id_def)
next
  assume "good_id sigil ident d"
  then obtain l where l: "ident = (sigil # l) @ CHR '':'' # d" "CHR '':'' \<notin> set (sigil # l)"
    "length ident \<le> maxIDLength"
    using assms by (auto simp: good_id_def)
  then have "domainFromID ident = Inr d" using domainFromID_append by blast
  with l show "checkID ident sigil = Inr d" by (simp add: checkID_def)
qed

lemma good_id_unique: "good_id s i d \<Longrightarrow> good_id s i d' \<Longrightarrow> d = d'"
  by (auto simp: good_id_def append_eq_append_conv2 Cons_eq_append_conv append_eq_Cons_conv)

lemma CheckFields_iff: "CheckFields e = Inr () \<longleftrightarrow> valid_fields e"
proof -
  have "CheckFields e = Inr () \<longleftrightarrow>
    length (EvType e) \<le> maxIDLength \<and> (\<forall>k. StateKey e = Some k \<longrightarrow> length k \<le> maxIDLength) \<and>
     (\<exists>d. good_id CHR ''!'' (RoomID e) d) \<and>
     (\<exists>d. good_id CHR ''@'' (Sender e) d \<and> (\<exists>d'. good_id CHR ''$'' (EventID e) d' \<and>
       d' = Origin e \<and> (d = Origin e \<or> EvType e = MRoomMember)))"
    by (auto simp: CheckFields_def result_simps checkID_iff split: option.splits)
  then show ?thesis by (auto simp: valid_fields_def)
qed

lemma set_show_nat: "set (show_nat n) \<subseteq> {char_of k | k. 48 \<le> k \<and> k < (58::nat)}"
proof (induction n rule: show_nat.induct)
  case (1 n)
  show ?case
  proof (cases "n < 10")
    case True
    then show ?thesis by (auto simp: show_nat.simps [of n] intro!: exI [of _ "48 + n"])
  next
    case False
    have "char_of (48 + n mod 10) \<in> {char_of k | k. 48 \<le> k \<and> k < (58::nat)}"
      by (auto intro!: exI [of _ "48 + n mod 10"])
    with False 1 show ?thesis by (simp add: show_nat.simps [of n])
  qed
qed

lemma colon_show_nat: "CHR '':'' \<notin> set (show_nat n)"
proof
  assume "CHR '':'' \<in> set (show_nat n)"
  then obtain k :: nat where "CHR '':'' = char_of k" "48 \<le> k" "k < 58" using set_show_nat [of n] by auto
  from arg_cong [OF this(1), of "of_char :: char \<Rightarrow> nat"] this(2,3) show False by simp
qed

lemma colon_show_int: "CHR '':'' \<notin> set (show_int i)"
  by (auto simp: show_int_def colon_show_nat)

lemma digit_val_char_of: "d < 10 \<Longrightarrow> digit_val (char_of (48 + d)) = Some d"
  by (simp add: digit_val_def Let_def)

lemma digits_val_show_nat:
  "digits_val acc (show_nat n @ r) = digits_val (acc * 10 ^ length (show_nat n) + n) r"
proof (induction n arbitrary: acc r rule: show_nat.induct)
  case (1 n)
  show ?case
  proof (cases "n < 10")
    case True
    then show ?thesis by (simp add: show_nat.simps [of n] digit_val_char_of)
  next
    case False
    with 1 show ?thesis
      by (simp add: show_nat.simps [of n] digit_val_char_of ac_simps)
  qed
qed

lemma show_nat_nonempty: "show_nat n \<noteq> []"
  by (simp add: show_nat.simps [of n])

lemma show_nat_hd: "hd (show_nat n) \<noteq> CHR ''-'' \<and> hd (show_nat n) \<noteq> CHR ''+''"
proof -
  have "hd (show_nat n) \<in> set (show_nat n)" by (simp add: show_nat_nonempty)
  then obtain k :: nat where k: "hd (show_nat n) = char_of k" "48 \<le> k" "k < 58"
    using set_show_nat [of n] by auto
  then have "of_char (hd (show_nat n)) = k" by simp
  with k(2) show ?thesis by auto
qed

lemma ParseInt10_show_int: "in_int64 i \<Longrightarrow> ParseInt10 (show_int i) = Some i"
proof (cases "i < 0")
  case True
  moreover assume "in_int64 i"
  ultimately show ?thesis
    using digits_val_show_nat [of 0 "nat (- i)" "[]"] show_nat_nonempty [of "nat (- i)"]
    by (simp add: ParseInt10_def show_int_def)
next
  case False
  moreover assume "in_int64 i"
  moreover obtain c r where "show_nat (nat i) = c # r" using show_nat_nonempty [of "nat i"] by (cases "show_nat (nat i)") auto
  ultimately show ?thesis
    using digits_val_show_nat [of 0 "nat i" "[]"] show_nat_hd [of "nat i"]
    by (simp add: ParseInt10_def show_int_def)
qed

lemma checkID_no_panic: "\<not> is_panic (checkID ident sigil)"
proof (cases "domainFromID ident")
  case (Inl x)
  then show ?thesis by (auto simp: checkID_def is_panic_def domainFromID_def Let_def split: if_splits)
next
  case (Inr d)
  then have "ident \<noteq> []" by (auto simp: domainFromID_iff)
  with Inr show ?thesis by (simp add: checkID_def is_panic_def)
qed

lemma CheckFields_no_panic: "\<not> is_panic (CheckFields e)"
  by (simp add: CheckFields_def is_panic_bindR checkID_no_panic)

section \<open>Properties\<close>

text \<open>
  \<open>Build\<close> succeeds exactly when the type and the state key are within the length limit, the room
  and sender identifiers have their sigil, a domain and an admissible length, the sender is a
  user of the origin server (member events excepted) and the generated event identifier is not
  too long. The event then has the builder's fields, an identifier on the origin's domain and the
  given number. It never panics.
\<close>

theorem Build_iff:
  "(Build eb eventNID origin = Inr e \<longleftrightarrow>
      e = built eb eventNID origin \<and>
      length (eb_Type eb) \<le> 255 \<and> (case eb_StateKey eb of None \<Rightarrow> True | Some k \<Rightarrow> length k \<le> 255) \<and>
      (\<exists>d. good_id CHR ''!'' (eb_RoomID eb) d) \<and>
      (\<exists>d. good_id CHR ''@'' (eb_Sender eb) d \<and> (d = origin \<or> eb_Type eb = MRoomMember)) \<and>
      length (show_int eventNID) + length origin + 2 \<le> 255) \<and>
    \<not> is_panic (Build eb eventNID origin)"
proof
  let ?e = "built eb eventNID origin"
  have B: "Build eb eventNID origin = bindR (CheckFields ?e) (\<lambda>_. Inr ?e)"
    by (simp add: Build_def built_def Let_def)
  have "good_id CHR ''$'' (EventID ?e) origin \<longleftrightarrow> length (show_int eventNID) + length origin + 2 \<le> 255"
    using colon_show_int [of eventNID] by (auto simp: good_id_def built_def maxIDLength_def)
  then show "Build eb eventNID origin = Inr e \<longleftrightarrow> e = ?e \<and>
      length (eb_Type eb) \<le> 255 \<and> (case eb_StateKey eb of None \<Rightarrow> True | Some k \<Rightarrow> length k \<le> 255) \<and>
      (\<exists>d. good_id CHR ''!'' (eb_RoomID eb) d) \<and>
      (\<exists>d. good_id CHR ''@'' (eb_Sender eb) d \<and> (d = origin \<or> eb_Type eb = MRoomMember)) \<and>
      length (show_int eventNID) + length origin + 2 \<le> 255"
    using CheckFields_iff [of ?e] unfolding B
    by (auto simp: result_simps valid_fields_def built_def maxIDLength_def split: option.splits)
  show "\<not> is_panic (Build eb eventNID origin)"
    unfolding B by (simp add: is_panic_bindR CheckFields_no_panic)
qed

text \<open>
  A power level given as the decimal string of a 64-bit integer is read as that integer, and one
  given as a JSON integer as itself.
\<close>

theorem level_string_roundtrip:
  assumes "as_int64 cd d = None" "as_string cd d = Some (show_int i)" "in_int64 i"
    "as_int64 cd d' = Some j"
  shows "levelJSONValue_UnmarshalJSON cd d = Some i \<and> levelJSONValue_UnmarshalJSON cd d' = Some j"
  using assms by (simp add: levelJSONValue_UnmarshalJSON_def ParseInt10_show_int)

end
