(* ===== verification/Unique_Sort.thy ===== *)
theory Unique_Sort
  imports Prelude
begin

text \<open>
  Sorting and removal of duplicates in place (\<open>src/skunkworks/gomatrixutil/unique.go\<close>), on string
  slices: the loop with its swaps, and that it computes the sorted list of the distinct elements.
\<close>

section \<open>Model\<close>

definition swap :: "nat \<Rightarrow> nat \<Rightarrow> 'a list \<Rightarrow> 'a list" where
  "swap i j xs = xs[i := xs ! j, j := xs ! i]"

text \<open>One round of the loop: \<open>j\<close> is the next index to output an element to.\<close>

definition unique_step :: "nat \<Rightarrow> nat \<times> string list \<Rightarrow> nat \<times> string list" where
  "unique_step i = (\<lambda>(j, xs). if xs ! (i - 1) < xs ! i then (j + 1, swap (i - 1) j xs) else (j, xs))"

definition Unique :: "string list \<Rightarrow> (nat \<times> string list) result" where
  "Unique xs =
     (if \<not> sorted xs then Inl (Panic ''the input to Unique() must be sorted'')
      else if xs = [] then Inr (0, xs)
      else
        (case fold unique_step [1..<length xs] (0, xs) of
           (j, ys) \<Rightarrow> Inr (j + 1, swap (length xs - 1) j ys)))"

definition SortAndUnique :: "string list \<Rightarrow> (nat \<times> string list) result" where
  "SortAndUnique xs = Unique (sort xs)"

text \<open>The panic branch is never taken, as the argument of \<open>Unique\<close> has just been sorted.\<close>

definition UniqueStrings :: "string list \<Rightarrow> string list" where
  "UniqueStrings xs = (case SortAndUnique xs of Inr (n, ys) \<Rightarrow> take n ys | Inl _ \<Rightarrow> [])"

section \<open>Lemmas\<close>

lemma swap_length [simp]: "length (swap i j xs) = length xs"
  by (simp add: swap_def)

lemma take_Suc_swap:
  "j \<le> i \<Longrightarrow> i < length xs \<Longrightarrow> take (Suc j) (swap i j xs) = take j xs @ [xs ! i]"
  by (auto simp: swap_def take_Suc_conv_app_nth)

lemma swap_nth_above: "j \<le> i \<Longrightarrow> i < p \<Longrightarrow> swap i j xs ! p = xs ! p"
  by (simp add: swap_def)

lemma take_Suc_Suc:
  "Suc m < length xs \<Longrightarrow> take (Suc (Suc m)) xs = take m xs @ [xs ! m, xs ! Suc m]"
  by (simp add: take_Suc_conv_app_nth)

text \<open>After the rounds below \<open>Suc m\<close> the output is what removal of adjacent duplicates gives for the prefix read.\<close>

lemma unique_loop:
  assumes "sorted xs" "m < length xs"
  shows "\<exists>j ys. fold unique_step [1..<Suc m] (0, xs) = (j, ys) \<and> length ys = length xs \<and> j \<le> m \<and>
    take j ys @ [xs ! m] = remdups_adj (take (Suc m) xs) \<and> (\<forall>p \<ge> m. p < length xs \<longrightarrow> ys ! p = xs ! p)"
  using assms(2)
proof (induction m)
  case 0
  then show ?case by (cases xs) auto
next
  case (Suc m)
  then obtain j ys where IH: "fold unique_step [1..<Suc m] (0, xs) = (j, ys)" "length ys = length xs" "j \<le> m"
    "take j ys @ [xs ! m] = remdups_adj (take (Suc m) xs)" "\<forall>p \<ge> m. p < length xs \<longrightarrow> ys ! p = xs ! p"
    by auto
  have step: "fold unique_step [1..<Suc (Suc m)] (0, xs) = unique_step (Suc m) (j, ys)"
    using IH(1) by simp
  have at: "ys ! m = xs ! m" "ys ! Suc m = xs ! Suc m" using IH(5) Suc.prems by auto
  have rem: "remdups_adj (take (Suc (Suc m)) xs) =
      remdups_adj (take (Suc m) xs) @ (if xs ! m = xs ! Suc m then [] else [xs ! Suc m])"
    using take_Suc_Suc [OF Suc.prems] Suc.prems
    by (simp add: remdups_adj_append_two take_Suc_conv_app_nth)
  have le: "xs ! m \<le> xs ! Suc m" using assms(1) Suc.prems by (simp add: sorted_nth_mono)
  show ?case
  proof (cases "xs ! m < xs ! Suc m")
    case True
    have "take (Suc j) (swap m j ys) = remdups_adj (take (Suc m) xs)"
      using take_Suc_swap [of j m ys] IH Suc.prems at by simp
    moreover have "\<forall>p \<ge> Suc m. p < length xs \<longrightarrow> swap m j ys ! p = xs ! p"
      using IH(3,5) by (simp add: swap_nth_above)
    moreover have st: "fold unique_step [1..<Suc (Suc m)] (0, xs) = (Suc j, swap m j ys)"
      unfolding step using True at by (simp add: unique_step_def)
    ultimately show ?thesis
      using True rem IH(2,3) unfolding st by auto
  next
    case False
    with le have "xs ! Suc m = xs ! m" by simp
    moreover have st: "fold unique_step [1..<Suc (Suc m)] (0, xs) = (j, ys)"
      unfolding step using False at by (simp add: unique_step_def)
    ultimately show ?thesis using rem IH(2-5) unfolding st by auto
  qed
qed

lemma Unique_remdups:
  assumes "sorted xs"
  shows "\<exists>n ys. Unique xs = Inr (n, ys) \<and> take n ys = remdups_adj xs"
proof (cases "xs = []")
  case False
  then obtain j ys where j: "fold unique_step [1..<length xs] (0, xs) = (j, ys)" "length ys = length xs"
    "j \<le> length xs - 1" "take j ys @ [xs ! (length xs - 1)] = remdups_adj xs"
    "ys ! (length xs - 1) = xs ! (length xs - 1)"
    using unique_loop [OF assms, of "length xs - 1"] by auto
  then have "take (j + 1) (swap (length xs - 1) j ys) = remdups_adj xs"
    using take_Suc_swap [of j "length xs - 1" ys] False by simp
  with j(1) False assms show ?thesis by (simp add: Unique_def)
qed (simp add: Unique_def)

lemma UniqueStrings_remdups: "UniqueStrings xs = remdups_adj (sort xs)"
  using Unique_remdups [of "sort xs"] by (auto simp: UniqueStrings_def SortAndUnique_def)

lemma set_UniqueStrings [simp]: "set (UniqueStrings xs) = set xs"
  by (simp add: UniqueStrings_remdups)

lemma distinct_remdups_adj_sorted: "sorted xs \<Longrightarrow> distinct (remdups_adj xs)"
  by (induction xs rule: remdups_adj.induct) (auto simp: less_le_not_le)

section \<open>Properties\<close>

text \<open>
  \<open>UniqueStrings\<close> returns the sorted list of the distinct strings of its argument, and the in-place
  loop does not reach its panic.
\<close>

theorem UniqueStrings_sorted_set:
  "UniqueStrings xs = sorted_list_of_set (set xs) \<and> \<not> is_panic (SortAndUnique xs)"
proof
  have "sorted (remdups_adj (sort xs))" "distinct (remdups_adj (sort xs))"
    by (simp_all add: sorted_remdups_adj distinct_remdups_adj_sorted)
  then show "UniqueStrings xs = sorted_list_of_set (set xs)"
    using sorted_list_of_set.idem_if_sorted_distinct [of "remdups_adj (sort xs)"]
    by (simp add: UniqueStrings_remdups)
  show "\<not> is_panic (SortAndUnique xs)"
    using Unique_remdups [of "sort xs"] by (auto simp: SortAndUnique_def)
qed

end
