(* ===== verification/Event_Auth.thy ===== *)
theory Event_Auth
  imports Matrix_Events Unique_Sort
begin

text \<open>
  The authorisation rules of room events (\<open>src/skunkworks/gomatrixserverlib/eventauth.go\<close>): the state
  an event needs, the map-backed provider of authorisation events, and \<open>Allowed\<close> with all its
  rules. The process-wide table of event types that skip the power check is an explicit state,
  threaded through the checks, because the code fills its cache while it answers.
  The matcher of regular expressions and the verification of signed JSON are arguments.
\<close>

section \<open>State needed\<close>

record StateNeeded =
  sn_Create :: bool
  sn_JoinRules :: bool
  sn_PowerLevels :: bool
  sn_Member :: "string list"
  sn_ThirdPartyInvite :: "string list"

definition no_state :: StateNeeded where
  "no_state = \<lparr>sn_Create = False, sn_JoinRules = False, sn_PowerLevels = False, sn_Member = [],
     sn_ThirdPartyInvite = []\<rparr>"

definition Tuples :: "StateNeeded \<Rightarrow> StateKeyTuple list" where
  "Tuples s =
     (if sn_Create s then [(MRoomCreate, [])] else []) @
     (if sn_JoinRules s then [(MRoomJoinRules, [])] else []) @
     (if sn_PowerLevels s then [(MRoomPowerLevels, [])] else []) @
     map (\<lambda>userID. (MRoomMember, userID)) (sn_Member s) @
     map (\<lambda>token. (MRoomThirdPartyInvite, token)) (sn_ThirdPartyInvite s)"

text \<open>The references of the events found, in the order of \<open>Tuples\<close>; the first error ends the collection.\<close>

fun append_refs :: "('c Event \<Rightarrow> 'r) \<Rightarrow> 'c Event option result list \<Rightarrow> 'r list result" where
  "append_refs eref [] = Inr []"
| "append_refs eref (x # xs) =
     bindR x (\<lambda>oe. bindR (append_refs eref xs) (\<lambda>refs.
       Inr (case oe of None \<Rightarrow> refs | Some e \<Rightarrow> eref e # refs)))"

definition AuthEventReferences ::
  "('c Event \<Rightarrow> 'r) \<Rightarrow> StateNeeded \<Rightarrow> 'c AuthEventProvider \<Rightarrow> 'r list result" where
  "AuthEventReferences eref s p =
     append_refs eref
       ((if sn_Create s then [get_Create p] else []) @
        (if sn_JoinRules s then [get_JoinRules p] else []) @
        (if sn_PowerLevels s then [get_PowerLevels p] else []) @
        map (get_Member p) (sn_Member s) @
        map (get_ThirdPartyInvite p) (sn_ThirdPartyInvite s))"

definition thirdPartyInviteToken :: "memberThirdPartyInvite \<Rightarrow> string result" where
  "thirdPartyInviteToken t =
     (if Token (Signed t) = [] then Inl (Error ''missing third_party_invite.signed.token'')
      else Inr (Token (Signed t)))"

text \<open>The second component is the error: what was accumulated before it stays.\<close>

definition accumulateStateNeeded ::
  "StateNeeded \<Rightarrow> string \<Rightarrow> string \<Rightarrow> string option \<Rightarrow> memberContent option \<Rightarrow>
    StateNeeded \<times> unit result" where
  "accumulateStateNeeded s eventType sender stateKey content =
     (if eventType = MRoomCreate then (s, Inr ())
      else if eventType = MRoomAliases then (s\<lparr>sn_Create := True\<rparr>, Inr ())
      else if eventType = MRoomMember then
        (case content of
           None \<Rightarrow> (s, Inl (NotAllowed ''missing memberContent for m.room.member event''))
         | Some c \<Rightarrow>
             (let s1 = s\<lparr>sn_Create := True, sn_PowerLevels := True\<rparr>;
                  s2 = (case stateKey of
                          None \<Rightarrow> s1
                        | Some k \<Rightarrow> s1\<lparr>sn_Member := sn_Member s1 @ [sender, k]\<rparr>);
                  s3 = (if Membership c = join then s2\<lparr>sn_JoinRules := True\<rparr> else s2)
              in case ThirdPartyInvite c of
                   None \<Rightarrow> (s3, Inr ())
                 | Some t \<Rightarrow>
                     (case thirdPartyInviteToken t of
                        Inl _ \<Rightarrow> (s3, Inl (NotAllowed ''could not get third-party token''))
                      | Inr token \<Rightarrow>
                          (s3\<lparr>sn_ThirdPartyInvite := sn_ThirdPartyInvite s3 @ [token]\<rparr>, Inr ()))))
      else
        (s\<lparr>sn_Create := True, sn_PowerLevels := True, sn_Member := sn_Member s @ [sender]\<rparr>, Inr ()))"

definition dedup_needed :: "StateNeeded \<Rightarrow> StateNeeded" where
  "dedup_needed s = s\<lparr>sn_Member := UniqueStrings (sn_Member s),
     sn_ThirdPartyInvite := UniqueStrings (sn_ThirdPartyInvite s)\<rparr>"

text \<open>An unparsable member content ends the function with the empty result and the error.\<close>

definition StateNeededForEventBuilder ::
  "'c codec \<Rightarrow> 'c EventBuilder \<Rightarrow> StateNeeded \<times> unit result" where
  "StateNeededForEventBuilder cd b =
     (let content = (if eb_Type b = MRoomMember then dec_member cd (eb_Content b) else None)
      in if eb_Type b = MRoomMember \<and> content = None
         then (no_state, Inl (NotAllowed ''unparsable member event content''))
         else
           (case accumulateStateNeeded no_state (eb_Type b) (eb_Sender b) (eb_StateKey b) content of
              (s, err) \<Rightarrow> (dedup_needed s, err)))"

definition accumulate_event :: "'c codec \<Rightarrow> 'c Event \<Rightarrow> StateNeeded \<Rightarrow> StateNeeded" where
  "accumulate_event cd e s =
     fst (accumulateStateNeeded s (EvType e) (Sender e) (StateKey e)
            (if EvType e = MRoomMember
             then (case newMemberContentFromEvent cd e of Inl _ \<Rightarrow> None | Inr c \<Rightarrow> Some c)
             else None))"

definition StateNeededForAuth :: "'c codec \<Rightarrow> 'c Event list \<Rightarrow> StateNeeded" where
  "StateNeededForAuth cd events = dedup_needed (fold (accumulate_event cd) events no_state)"

section \<open>Authorisation events held in a map\<close>

type_synonym 'c AuthEvents = "StateKeyTuple \<rightharpoonup> 'c Event"

definition AddEvent :: "'c Event \<Rightarrow> 'c AuthEvents \<Rightarrow> unit result \<times> 'c AuthEvents" where
  "AddEvent e a =
     (case StateKey e of
        None \<Rightarrow> (Inl (Error ''AddEvent: event does not have a state key''), a)
      | Some k \<Rightarrow> (Inr (), a((EvType e, k) \<mapsto> e)))"

definition NewAuthEvents :: "'c Event list \<Rightarrow> 'c AuthEvents" where
  "NewAuthEvents events = fold (\<lambda>e a. snd (AddEvent e a)) events Map.empty"

definition AuthEvents_provider :: "'c AuthEvents \<Rightarrow> 'c AuthEventProvider" where
  "AuthEvents_provider a =
     \<lparr>get_Create = Inr (a (MRoomCreate, [])), get_JoinRules = Inr (a (MRoomJoinRules, [])),
      get_PowerLevels = Inr (a (MRoomPowerLevels, [])), get_Member = (\<lambda>k. Inr (a (MRoomMember, k))),
      get_ThirdPartyInvite = (\<lambda>k. Inr (a (MRoomThirdPartyInvite, k)))\<rparr>"

section \<open>Event types that skip the power check\<close>

text \<open>\<open>skipMapConf\<close> holds patterns with a flag for regular expressions, \<open>skipMap\<close> the cached answers.\<close>

record skip_state =
  skipMapConf :: "bool smap"
  skipMap :: "bool smap"

definition AddSkipItem :: "string \<Rightarrow> bool \<Rightarrow> skip_state \<Rightarrow> skip_state" where
  "AddSkipItem patten isReg st = st\<lparr>skipMapConf := store patten isReg (skipMapConf st)\<rparr>"

fun skip_range :: "(string \<Rightarrow> string \<Rightarrow> bool) \<Rightarrow> string \<Rightarrow> bool smap \<Rightarrow> bool" where
  "skip_range MatchString ty [] = False"
| "skip_range MatchString ty ((patten, isReg) # r) =
     (if \<not> isReg
      then (if patten = ty then True else skip_range MatchString ty r)
      else (if MatchString patten ty then True else skip_range MatchString ty r))"

definition skip_lookup ::
  "(string \<Rightarrow> string \<Rightarrow> bool) \<Rightarrow> string \<Rightarrow> skip_state \<Rightarrow> bool \<times> skip_state" where
  "skip_lookup MatchString ty st =
     (case map_of (skipMap st) ty of
        Some v \<Rightarrow> (v, st)
      | None \<Rightarrow>
          (let skip = skip_range MatchString ty (skipMapConf st)
           in (skip, st\<lparr>skipMap := store ty skip (skipMap st)\<rparr>)))"

section \<open>The checks\<close>

text \<open>The surroundings of the checks: library functions, the configured domains.\<close>

record 'c auth_env =
  env_codec :: "'c codec"
  env_domains :: "string list"
  env_MatchString :: "string \<Rightarrow> string \<Rightarrow> bool"
  env_VerifyJSON :: "string \<Rightarrow> string \<Rightarrow> string \<Rightarrow> memberThirdPartyInviteSigned \<Rightarrow> bool"

definition createEventAllowed :: "'c Event \<Rightarrow> 'c AuthEventProvider \<Rightarrow> unit result" where
  "createEventAllowed e p =
     (case get_Create p of
        Inr (Some _) \<Rightarrow> Inl (NotAllowed ''create event must be the first event in the room'')
      | _ \<Rightarrow>
          bindR (ensure (StateKeyEquals e []) (NotAllowed ''create event state key is not empty'')) (\<lambda>_.
          bindR (domainFromID (RoomID e)) (\<lambda>roomIDDomain.
          bindR (domainFromID (Sender e)) (\<lambda>senderDomain.
            ensure (senderDomain = roomIDDomain)
              (NotAllowed ''create event room ID domain does not match sender'')))))"

definition aliasEventAllowed :: "'c auth_env \<Rightarrow> 'c Event \<Rightarrow> 'c AuthEventProvider \<Rightarrow> unit result" where
  "aliasEventAllowed env e p =
     bindR (newCreateContentFromAuthEvents (env_codec env) p) (\<lambda>create.
     bindR (domainFromID (Sender e)) (\<lambda>sd.
     bindR (ensure (RoomID e = roomID create) (NotAllowed ''create event has different roomID'')) (\<lambda>_.
     bindR (domainAllowed (env_domains env) create sd) (\<lambda>_.
       ensure (StateKeyEquals e sd) (NotAllowed ''alias state_key does not match sender domain'')))))"

record eventAllower =
  ea_create :: createContent
  ea_member :: memberContent
  ea_powerLevels :: powerLevelContent

definition newEventAllower ::
  "'c codec \<Rightarrow> 'c AuthEventProvider \<Rightarrow> string \<Rightarrow> eventAllower result" where
  "newEventAllower cd p senderID =
     bindR (newCreateContentFromAuthEvents cd p) (\<lambda>c.
     bindR (newMemberContentFromAuthEvents cd p senderID) (\<lambda>m.
     bindR (newPowerLevelContentFromAuthEvents cd p (Creator c)) (\<lambda>pl.
       Inr \<lparr>ea_create = c, ea_member = m, ea_powerLevels = pl\<rparr>)))"

text \<open>The checks on the level and on the state key, once it is known whether the type skips.\<close>

definition level_checks :: "eventAllower \<Rightarrow> 'c Event \<Rightarrow> bool \<Rightarrow> unit result" where
  "level_checks a e skip =
     bindR (ensure (skip \<or>
              \<not> (userLevel (ea_powerLevels a) (Sender e)
                   < eventLevel (ea_powerLevels a) (EvType e) (StateKey e \<noteq> None) \<and>
                 EvType e \<noteq> MRoomArchive))
            (NotAllowed ''sender is not allowed to send event'')) (\<lambda>_.
       ensure (case StateKey e of
                 None \<Rightarrow> True
               | Some k \<Rightarrow> \<not> (k \<noteq> [] \<and> hd k = CHR ''@'') \<or> k = Sender e)
         (NotAllowed ''sender is not allowed to modify the state belonging to another user''))"

definition commonChecks ::
  "'c auth_env \<Rightarrow> eventAllower \<Rightarrow> 'c Event \<Rightarrow> skip_state \<Rightarrow> unit result \<times> skip_state" where
  "commonChecks env a e st =
     (if RoomID e \<noteq> roomID (ea_create a)
      then (Inl (NotAllowed ''create event has different roomID''), st)
      else
        (case userIDAllowed (env_domains env) (ea_create a) (Sender e) of
           Inl err \<Rightarrow> (Inl err, st)
         | Inr _ \<Rightarrow>
             (if Membership (ea_member a) \<noteq> join then (Inl (NotAllowed ''sender not in room''), st)
              else
                (case skip_lookup (env_MatchString env) (EvType e) st of
                   (skip, st') \<Rightarrow> (level_checks a e skip, st')))))"

definition defaultEventAllowed ::
  "'c auth_env \<Rightarrow> 'c Event \<Rightarrow> 'c AuthEventProvider \<Rightarrow> skip_state \<Rightarrow> unit result \<times> skip_state" where
  "defaultEventAllowed env e p st =
     (case newEventAllower (env_codec env) p (Sender e) of
        Inl err \<Rightarrow> (Inl err, st)
      | Inr a \<Rightarrow> commonChecks env a e st)"

fun check_event_pairs :: "int \<Rightarrow> (int \<times> int) list \<Rightarrow> unit result" where
  "check_event_pairs senderLevel [] = Inr ()"
| "check_event_pairs senderLevel ((old, new) # r) =
     (if old = new then check_event_pairs senderLevel r
      else if senderLevel < new then Inl (NotAllowed ''the new level is above the level of the sender'')
      else if senderLevel < old then Inl (NotAllowed ''the current level is above the level of the sender'')
      else check_event_pairs senderLevel r)"

definition checkEventLevels :: "int \<Rightarrow> powerLevelContent \<Rightarrow> powerLevelContent \<Rightarrow> unit result" where
  "checkEventLevels senderLevel old new =
     check_event_pairs senderLevel
       ([(banLevel old, banLevel new), (inviteLevel old, inviteLevel new),
         (kickLevel old, kickLevel new), (redactLevel old, redactLevel new),
         (stateDefaultLevel old, stateDefaultLevel new),
         (eventDefaultLevel old, eventDefaultLevel new)] @
        map (\<lambda>(ty, _). (eventLevel old ty False, eventLevel new ty False)) (eventLevels new) @
        map (\<lambda>(ty, _). (eventLevel old ty False, eventLevel new ty False)) (eventLevels old))"

fun check_user_pairs :: "int \<Rightarrow> string \<Rightarrow> bool \<Rightarrow> (int \<times> int \<times> string) list \<Rightarrow> unit result" where
  "check_user_pairs senderLevel senderID only_one [] = Inr ()"
| "check_user_pairs senderLevel senderID only_one ((old, new, userID) # r) =
     (if old = new then check_user_pairs senderLevel senderID only_one r
      else if senderLevel < new then Inl (NotAllowed ''the new level is above the level of the sender'')
      else if userID = senderID then check_user_pairs senderLevel senderID only_one r
      else if only_one then check_user_pairs senderLevel senderID only_one r
      else if senderLevel \<le> old
      then Inl (NotAllowed ''the old level is equal to or above the level of the sender'')
      else check_user_pairs senderLevel senderID only_one r)"

definition checkUserLevels ::
  "int \<Rightarrow> string \<Rightarrow> powerLevelContent \<Rightarrow> powerLevelContent \<Rightarrow> unit result" where
  "checkUserLevels senderLevel senderID old new =
     check_user_pairs senderLevel senderID (thereIsOnlyOneMember new)
       ([(userDefaultLevel old, userDefaultLevel new, [])] @
        map (\<lambda>(u, _). (userLevel old u, userLevel new u, u)) (userLevels new) @
        map (\<lambda>(u, _). (userLevel old u, userLevel new u, u)) (userLevels old))"

fun check_user_ids :: "string list \<Rightarrow> unit result" where
  "check_user_ids [] = Inr ()"
| "check_user_ids (u # us) =
     bindR (isValidUserID u) (\<lambda>ok. if ok then check_user_ids us
                                     else Inl (NotAllowed ''Not a valid user ID''))"

definition powerLevelsEventAllowed ::
  "'c auth_env \<Rightarrow> 'c Event \<Rightarrow> 'c AuthEventProvider \<Rightarrow> skip_state \<Rightarrow> unit result \<times> skip_state" where
  "powerLevelsEventAllowed env e p st =
     (case newEventAllower (env_codec env) p (Sender e) of
        Inl err \<Rightarrow> (Inl err, st)
      | Inr a \<Rightarrow>
          (case commonChecks env a e st of
             (Inl err, st') \<Rightarrow> (Inl err, st')
           | (Inr _, st') \<Rightarrow>
               (bindR (newPowerLevelContentFromEvent (env_codec env) e) (\<lambda>new.
                bindR (check_user_ids (map fst (userLevels new))) (\<lambda>_.
                bindR (get_PowerLevels p) (\<lambda>oldEvent.
                  case oldEvent of
                    None \<Rightarrow> Inr ()
                  | Some _ \<Rightarrow>
                      (let old = ea_powerLevels a; senderLevel = userLevel old (Sender e)
                       in bindR (checkEventLevels senderLevel old new) (\<lambda>_.
                            checkUserLevels senderLevel (Sender e) old new))))), st')))"

definition redact_rule :: "eventAllower \<Rightarrow> 'c Event \<Rightarrow> unit result" where
  "redact_rule a e =
     bindR (domainFromID (Sender e)) (\<lambda>sd.
     bindR (domainFromID (Redacts e)) (\<lambda>redactDomain.
       if sd = redactDomain then
         (if Sender e = RedactsSender e then Inr ()
          else if Sender e = Creator (ea_create a) then Inr ()
          else Inl (NotAllowed ''not allowed to redact message''))
       else
         (if userLevel (ea_powerLevels a) (Sender e) \<ge> redactLevel (ea_powerLevels a) then Inr ()
          else Inl (NotAllowed ''not allowed to redact message''))))"

definition redactEventAllowed ::
  "'c auth_env \<Rightarrow> 'c Event \<Rightarrow> 'c AuthEventProvider \<Rightarrow> skip_state \<Rightarrow> unit result \<times> skip_state" where
  "redactEventAllowed env e p st =
     (case newEventAllower (env_codec env) p (Sender e) of
        Inl err \<Rightarrow> (Inl err, st)
      | Inr a \<Rightarrow>
          (case commonChecks env a e st of
             (Inl err, st') \<Rightarrow> (Inl err, st')
           | (Inr _, st') \<Rightarrow> (redact_rule a e, st')))"

section \<open>Membership\<close>

record membershipAllower =
  ma_targetID :: string
  ma_senderID :: string
  ma_senderMember :: memberContent
  ma_oldMember :: memberContent
  ma_newMember :: memberContent
  ma_create :: createContent
  ma_powerLevels :: powerLevelContent
  ma_joinRule :: string
  ma_thirdPartyInvite :: "string list"

definition newMembershipAllower ::
  "'c codec \<Rightarrow> 'c AuthEventProvider \<Rightarrow> 'c Event \<Rightarrow> membershipAllower result" where
  "newMembershipAllower cd p e =
     (case StateKey e of
        None \<Rightarrow> Inl (NotAllowed ''m.room.member must be a state event'')
      | Some targetID \<Rightarrow>
          bindR (newCreateContentFromAuthEvents cd p) (\<lambda>create.
          bindR (newMemberContentFromEvent cd e) (\<lambda>new0.
          (let new = (if Membership new0 = ''kick'' then new0\<lparr>Membership := leave\<rparr> else new0) in
          bindR (newMemberContentFromAuthEvents cd p targetID) (\<lambda>old.
          bindR (newMemberContentFromAuthEvents cd p (Sender e)) (\<lambda>sm.
          bindR (newPowerLevelContentFromAuthEvents cd p (Creator create)) (\<lambda>pl.
          bindR (if Membership new = join then newJoinRuleContentFromAuthEvents cd p else Inr []) (\<lambda>jr.
          bindR (case ThirdPartyInvite new of
                   None \<Rightarrow> Inr []
                 | Some t \<Rightarrow> newThirdPartyInviteContentFromAuthEvents cd p (Token (Signed t))) (\<lambda>keys.
            Inr \<lparr>ma_targetID = targetID, ma_senderID = Sender e, ma_senderMember = sm,
                 ma_oldMember = old, ma_newMember = new, ma_create = create, ma_powerLevels = pl,
                 ma_joinRule = jr, ma_thirdPartyInvite = keys\<rparr>))))))))) "

definition membershipFailed :: "membershipAllower \<Rightarrow> unit result" where
  "membershipFailed m =
     (if ma_senderID m = ma_targetID m
      then Inl (NotAllowed ''not allowed to change their membership'')
      else Inl (NotAllowed ''not allowed to change the membership of another user''))"

text \<open>The first signature that verifies with a published key accepts the invite.\<close>

definition membershipAllowedFromThirdPartyInvite ::
  "'c auth_env \<Rightarrow> membershipAllower \<Rightarrow> memberThirdPartyInvite \<Rightarrow> unit result" where
  "membershipAllowedFromThirdPartyInvite env m t =
     (if ma_targetID m \<noteq> MXID (Signed t)
      then Inl (NotAllowed ''The invite target does not match with the Matrix ID provided'')
      else if list_ex (\<lambda>publicKey.
             list_ex (\<lambda>(domain, signatures).
               list_ex (\<lambda>(keyID, _).
                 has_prefix ''ed25519'' keyID \<and> env_VerifyJSON env domain keyID publicKey (Signed t))
               signatures) (Signatures (Signed t))) (ma_thirdPartyInvite m)
      then Inr ()
      else Inl (NotAllowed ''no verifiable signature on third-party invite''))"

definition membershipAllowedSelf :: "membershipAllower \<Rightarrow> unit result" where
  "membershipAllowedSelf m =
     (let new = Membership (ma_newMember m); old = Membership (ma_oldMember m); jr = ma_joinRule m
      in if new = join \<and> old = leave \<and> jr = public then Inr ()
         else if new = join \<and> old = forget \<and> jr = public then Inr ()
         else if new = join \<and> old = invite \<and> jr = public then Inr ()
         else if new = join \<and> old = invite \<and> jr = invite then Inr ()
         else if new = join \<and> old = join then Inr ()
         else if new = leave \<and> old = join then Inr ()
         else if new = leave \<and> old = invite then Inr ()
         else if new = forget \<and> old = leave then Inr ()
         else if new = forget \<and> old = ban then Inr ()
         else membershipFailed m)"

definition membershipAllowedOther :: "membershipAllower \<Rightarrow> unit result" where
  "membershipAllowedOther m =
     (let pl = ma_powerLevels m;
          senderLevel = userLevel pl (ma_senderID m);
          targetLevel = userLevel pl (ma_targetID m);
          new = Membership (ma_newMember m); old = Membership (ma_oldMember m)
      in if Membership (ma_senderMember m) \<noteq> join
         then Inl (NotAllowed ''sender is not in the room'')
         else if new = ban \<and> senderLevel \<ge> banLevel pl \<and> senderLevel \<ge> targetLevel then Inr ()
         else if new = leave \<and> old = ban \<and> senderLevel \<ge> banLevel pl then Inr ()
         else if new = leave \<and> old \<noteq> ban \<and> senderLevel \<ge> kickLevel pl \<and> senderLevel > targetLevel
         then Inr ()
         else if new = invite \<and> old = leave \<and> senderLevel \<ge> inviteLevel pl then Inr ()
         else if new = invite \<and> old = invite \<and> senderLevel \<ge> inviteLevel pl then Inr ()
         else if new = invite \<and> old = forget \<and> senderLevel \<ge> inviteLevel pl then Inr ()
         else membershipFailed m)"

definition membershipAllowed ::
  "'c auth_env \<Rightarrow> membershipAllower \<Rightarrow> 'c Event \<Rightarrow> 'c Event option \<Rightarrow> unit result" where
  "membershipAllowed env m e prevEvent =
     bindR (ensure (roomID (ma_create m) = RoomID e) (NotAllowed ''create event has different roomID'')) (\<lambda>_.
     bindR (userIDAllowed (env_domains env) (ma_create m) (ma_senderID m)) (\<lambda>_.
     bindR (userIDAllowed (env_domains env) (ma_create m) (ma_targetID m)) (\<lambda>_.
       if (IsOrganizationRoom (ma_create m) \<or> IsGroupRoom (ma_create m)) \<and>
          ma_senderID m = ma_targetID m \<and> Membership (ma_newMember m) = invite
       then Inr ()
       else if ma_targetID m = Creator (ma_create m) \<and> Membership (ma_newMember m) = join \<and>
          ma_senderID m = ma_targetID m \<and> prevEvent = None
       then Inr ()
       else if Membership (ma_newMember m) = join \<and> ma_senderID m = Creator (ma_create m) \<and>
          ma_targetID m \<noteq> Creator (ma_create m) \<and> prevEvent \<noteq> None
       then Inr ()
       else
         (case (Membership (ma_newMember m) = invite, ThirdPartyInvite (ma_newMember m)) of
            (True, Some t) \<Rightarrow> membershipAllowedFromThirdPartyInvite env m t
          | _ \<Rightarrow> if ma_targetID m = ma_senderID m then membershipAllowedSelf m
                 else membershipAllowedOther m))))"

definition memberEventAllowed :: "'c auth_env \<Rightarrow> 'c Event \<Rightarrow> 'c AuthEventProvider \<Rightarrow> unit result" where
  "memberEventAllowed env e p =
     bindR (newMembershipAllower (env_codec env) p e) (\<lambda>m.
       case StateKey e of
         None \<Rightarrow> Inl (Panic ''nil pointer dereference'')
       | Some k \<Rightarrow>
           membershipAllowed env m e (case get_Member p k of Inl _ \<Rightarrow> None | Inr oe \<Rightarrow> oe))"

definition Allowed ::
  "'c auth_env \<Rightarrow> 'c Event \<Rightarrow> 'c AuthEventProvider \<Rightarrow> skip_state \<Rightarrow> unit result \<times> skip_state" where
  "Allowed env e p st =
     (if EvType e = MRoomCreate then (createEventAllowed e p, st)
      else if EvType e = MRoomAliases then (aliasEventAllowed env e p, st)
      else if EvType e = MRoomMember then (memberEventAllowed env e p, st)
      else if EvType e = MRoomPowerLevels then powerLevelsEventAllowed env e p st
      else if EvType e = MRoomRedaction \<or> EvType e = MRoomUpdate then redactEventAllowed env e p st
      else defaultEventAllowed env e p st)"

section \<open>Specification\<close>

definition skip_coherent :: "(string \<Rightarrow> string \<Rightarrow> bool) \<Rightarrow> skip_state \<Rightarrow> bool" where
  "skip_coherent MatchString st \<longleftrightarrow>
     (\<forall>ty v. map_of (skipMap st) ty = Some v \<longrightarrow> v = skip_range MatchString ty (skipMapConf st))"

text \<open>The permitted changes of one's own membership, by join rule, old and new membership.\<close>

inductive self_change :: "string \<Rightarrow> string \<Rightarrow> string \<Rightarrow> bool" where
  public_join: "old \<in> {leave, forget, invite} \<Longrightarrow> self_change public old join"
| invited_join: "self_change invite invite join"
| rejoin: "self_change rule join join"
| quit: "old \<in> {join, invite} \<Longrightarrow> self_change rule old leave"
| forgo: "old \<in> {leave, ban} \<Longrightarrow> self_change rule old forget"

text \<open>The permitted changes of somebody else's membership by a joined sender.\<close>

inductive other_change :: "powerLevelContent \<Rightarrow> int \<Rightarrow> int \<Rightarrow> string \<Rightarrow> string \<Rightarrow> bool" where
  banning: "banLevel pl \<le> s \<Longrightarrow> t \<le> s \<Longrightarrow> other_change pl s t old ban"
| unbanning: "banLevel pl \<le> s \<Longrightarrow> other_change pl s t ban leave"
| kicking: "kickLevel pl \<le> s \<Longrightarrow> t < s \<Longrightarrow> old \<noteq> ban \<Longrightarrow> other_change pl s t old leave"
| inviting: "inviteLevel pl \<le> s \<Longrightarrow> old \<in> {leave, invite, forget} \<Longrightarrow> other_change pl s t old invite"

text \<open>The rule of membership events, as a table.\<close>

definition third_party_ok :: "'c auth_env \<Rightarrow> membershipAllower \<Rightarrow> memberThirdPartyInvite \<Rightarrow> bool" where
  "third_party_ok env m t \<longleftrightarrow> ma_targetID m = MXID (Signed t) \<and>
     (\<exists>publicKey \<in> set (ma_thirdPartyInvite m). \<exists>(domain, signatures) \<in> set (Signatures (Signed t)).
        \<exists>(keyID, s) \<in> set signatures.
          has_prefix ''ed25519'' keyID \<and> env_VerifyJSON env domain keyID publicKey (Signed t))"

definition member_rule :: "'c auth_env \<Rightarrow> membershipAllower \<Rightarrow> 'c Event option \<Rightarrow> bool" where
  "member_rule env m prev \<longleftrightarrow>
     (let new = Membership (ma_newMember m); old = Membership (ma_oldMember m);
          creator = Creator (ma_create m); sender = ma_senderID m; target = ma_targetID m;
          pl = ma_powerLevels m
      in (IsOrganizationRoom (ma_create m) \<or> IsGroupRoom (ma_create m)) \<and> sender = target \<and> new = invite \<or>
         new = join \<and> sender = creator \<and> target = creator \<and> prev = None \<or>
         new = join \<and> sender = creator \<and> target \<noteq> creator \<and> prev \<noteq> None \<or>
         (case (new = invite, ThirdPartyInvite (ma_newMember m)) of
            (True, Some t) \<Rightarrow> third_party_ok env m t
          | _ \<Rightarrow> if target = sender then self_change (ma_joinRule m) old new
                 else Membership (ma_senderMember m) = join \<and>
                      other_change pl (userLevel pl sender) (userLevel pl target) old new))"

text \<open>The look-up of a tuple in a provider, and agreement of two providers on some tuples.\<close>

definition provider_get :: "'c AuthEventProvider \<Rightarrow> StateKeyTuple \<Rightarrow> 'c Event option result" where
  "provider_get p t =
     (if fst t = MRoomCreate then get_Create p
      else if fst t = MRoomJoinRules then get_JoinRules p
      else if fst t = MRoomPowerLevels then get_PowerLevels p
      else if fst t = MRoomMember then get_Member p (snd t)
      else if fst t = MRoomThirdPartyInvite then get_ThirdPartyInvite p (snd t)
      else Inr None)"

definition agree_on :: "StateKeyTuple list \<Rightarrow> 'c AuthEventProvider \<Rightarrow> 'c AuthEventProvider \<Rightarrow> bool" where
  "agree_on ts p q \<longleftrightarrow> list_all (\<lambda>t. provider_get p t = provider_get q t) ts"

text \<open>A provider that does not panic.\<close>

definition provider_safe :: "'c AuthEventProvider \<Rightarrow> bool" where
  "provider_safe p \<longleftrightarrow> \<not> is_panic (get_Create p) \<and> \<not> is_panic (get_JoinRules p) \<and>
     \<not> is_panic (get_PowerLevels p) \<and> (\<forall>k. \<not> is_panic (get_Member p k)) \<and>
     (\<forall>k. \<not> is_panic (get_ThirdPartyInvite p k))"

text \<open>The type and state key of a state event.\<close>

definition event_key :: "'c Event \<Rightarrow> StateKeyTuple" where
  "event_key e = (EvType e, case StateKey e of Some k \<Rightarrow> k | None \<Rightarrow> [])"

text \<open>The last event of a list that sets a tuple.\<close>

fun last_setting :: "StateKeyTuple \<Rightarrow> 'c Event list \<Rightarrow> 'c Event option" where
  "last_setting t [] = None"
| "last_setting t (e # es) =
     (case last_setting t es of
        Some e' \<Rightarrow> Some e'
      | None \<Rightarrow> if StateKey e = Some (snd t) \<and> EvType e = fst t then Some e else None)"

section \<open>Lemmas\<close>

inductive_simps self_change_iff: "self_change rule old new"

inductive_simps other_change_iff: "other_change pl s t old new"

lemma skip_range_iff:
  "skip_range MatchString ty conf \<longleftrightarrow>
    (\<exists>(patten, isReg) \<in> set conf. if isReg then MatchString patten ty else patten = ty)"
  by (induction MatchString ty conf rule: skip_range.induct) auto

lemma skip_lookup_coherent:
  assumes "skip_coherent M st"
  shows "fst (skip_lookup M ty st) = skip_range M ty (skipMapConf st)"
    and "skip_coherent M (snd (skip_lookup M ty st))"
    and "skipMapConf (snd (skip_lookup M ty st)) = skipMapConf st"
  using assms by (auto simp: skip_lookup_def skip_coherent_def Let_def split: option.splits if_splits)

lemmas content_loaders = newCreateContentFromAuthEvents_def newMemberContentFromAuthEvents_def
  newMemberContentFromEvent_def newPowerLevelContentFromAuthEvents_def
  newJoinRuleContentFromAuthEvents_def newThirdPartyInviteContentFromAuthEvents_def

lemma create_content_iff:
  "newCreateContentFromAuthEvents cd p = Inr c \<longleftrightarrow>
    (\<exists>e. get_Create p = Inr (Some e) \<and> roomID c = RoomID e \<and> eventID c = EventID e \<and>
      domainFromID (Sender e) = Inr (senderDomain c) \<and>
      dec_create cd (Content e) =
        Some (Federate c, Creator c, IsOrganizationRoom c, IsGroupRoom c))"
  by (cases c) (auto simp: newCreateContentFromAuthEvents_def result_simps)

lemma member_content_join:
  "newMemberContentFromAuthEvents cd p u = Inr m \<Longrightarrow> Membership m = join \<Longrightarrow>
    \<exists>e. get_Member p u = Inr (Some e) \<and> dec_member cd (Content e) = Some m"
  by (auto simp: content_loaders result_simps split: option.splits)

lemma newEventAllower_iff:
  "newEventAllower cd p s = Inr a \<longleftrightarrow>
    newCreateContentFromAuthEvents cd p = Inr (ea_create a) \<and>
    newMemberContentFromAuthEvents cd p s = Inr (ea_member a) \<and>
    newPowerLevelContentFromAuthEvents cd p (Creator (ea_create a)) = Inr (ea_powerLevels a)"
  by (cases a) (auto simp: newEventAllower_def result_simps)

lemma level_checks_iff:
  "level_checks a e skip = Inr () \<longleftrightarrow>
    (skip \<or> EvType e = MRoomArchive \<or>
     eventLevel (ea_powerLevels a) (EvType e) (StateKey e \<noteq> None)
       \<le> userLevel (ea_powerLevels a) (Sender e)) \<and>
    (\<forall>k. StateKey e = Some k \<and> k \<noteq> [] \<and> hd k = CHR ''@'' \<longrightarrow> k = Sender e)"
  by (auto simp: level_checks_def result_simps split: option.splits)

lemma commonChecks_iff:
  "fst (commonChecks env a e st) = Inr () \<longleftrightarrow>
    RoomID e = roomID (ea_create a) \<and> userIDAllowed (env_domains env) (ea_create a) (Sender e) = Inr () \<and>
    Membership (ea_member a) = join \<and>
    level_checks a e (fst (skip_lookup (env_MatchString env) (EvType e) st)) = Inr ()"
  by (auto simp: commonChecks_def split: sum.splits prod.splits)

text \<open>Every event but creations, aliases and memberships passes the common checks.\<close>

lemma Allowed_common:
  assumes "fst (Allowed env e p st) = Inr ()"
    "EvType e \<notin> {MRoomCreate, MRoomAliases, MRoomMember}"
  shows "\<exists>a. newEventAllower (env_codec env) p (Sender e) = Inr a \<and> fst (commonChecks env a e st) = Inr ()"
proof -
  have "fst (powerLevelsEventAllowed env e p st) = Inr () \<or> fst (redactEventAllowed env e p st) = Inr () \<or>
      fst (defaultEventAllowed env e p st) = Inr ()"
    using assms by (simp only: Allowed_def insert_iff empty_iff de_Morgan_disj simp_thms split: if_splits)
  then show ?thesis
    by (cases "newEventAllower (env_codec env) p (Sender e)")
      (auto simp: powerLevelsEventAllowed_def redactEventAllowed_def defaultEventAllowed_def
        split: sum.splits prod.splits)
qed

lemma check_event_pairs_iff:
  "check_event_pairs s ps = Inr () \<longleftrightarrow>
    (\<forall>(old, new) \<in> set ps. old = new \<or> old \<le> s \<and> new \<le> s)"
proof (induction ps)
  case (Cons x ps)
  obtain old new where x: "x = (old, new)" by (cases x)
  show ?case using Cons unfolding x
    by (cases "old = new"; cases "s < new"; cases "s < old") (simp_all add: not_less)
qed simp

lemma check_user_pairs_iff:
  "check_user_pairs s u one ps = Inr () \<longleftrightarrow>
    (\<forall>(old, new, v) \<in> set ps. old = new \<or> new \<le> s \<and> (v = u \<or> one \<or> old < s))"
proof (induction ps)
  case (Cons x ps)
  obtain old new v where x: "x = (old, new, v)" by (cases x)
  show ?case using Cons unfolding x
    by (cases "old = new"; cases "s < new"; cases "v = u"; cases one; cases "s \<le> old") (simp_all add: not_less)
qed simp

lemma checkEventLevels_iff:
  "checkEventLevels s old new = Inr () \<longleftrightarrow>
    (\<forall>f \<in> {banLevel, inviteLevel, kickLevel, redactLevel, stateDefaultLevel, eventDefaultLevel}.
       f old = f new \<or> f old \<le> s \<and> f new \<le> s) \<and>
    (\<forall>ty \<in> fst ` set (eventLevels new) \<union> fst ` set (eventLevels old).
       eventLevel old ty False = eventLevel new ty False \<or>
       eventLevel old ty False \<le> s \<and> eventLevel new ty False \<le> s)"
  unfolding checkEventLevels_def check_event_pairs_iff
  by (simp only: set_append ball_Un set_map list.set image_Un ball_simps split_beta fst_conv snd_conv
      simp_thms conj_assoc)

lemma checkUserLevels_iff:
  "checkUserLevels s u old new = Inr () \<longleftrightarrow>
    (userDefaultLevel old = userDefaultLevel new \<or>
      userDefaultLevel new \<le> s \<and> ([] = u \<or> onlyOneMember new \<or> userDefaultLevel old < s)) \<and>
    (\<forall>v \<in> fst ` set (userLevels new) \<union> fst ` set (userLevels old).
       userLevel old v = userLevel new v \<or>
       userLevel new v \<le> s \<and> (v = u \<or> onlyOneMember new \<or> userLevel old v < s))"
  by (simp add: checkUserLevels_def check_user_pairs_iff ball_Un split_beta thereIsOnlyOneMember_def)

lemma membershipAllowedSelf_iff:
  "membershipAllowedSelf m = Inr () \<longleftrightarrow>
    self_change (ma_joinRule m) (Membership (ma_oldMember m)) (Membership (ma_newMember m))"
  by (auto simp: membershipAllowedSelf_def membershipFailed_def self_change_iff Let_def)

lemma membershipAllowedOther_iff:
  "membershipAllowedOther m = Inr () \<longleftrightarrow> Membership (ma_senderMember m) = join \<and>
    other_change (ma_powerLevels m) (userLevel (ma_powerLevels m) (ma_senderID m))
      (userLevel (ma_powerLevels m) (ma_targetID m)) (Membership (ma_oldMember m))
      (Membership (ma_newMember m))"
  by (auto simp: membershipAllowedOther_def membershipFailed_def other_change_iff Let_def)

lemma membershipAllowedFromThirdPartyInvite_iff:
  "membershipAllowedFromThirdPartyInvite env m t = Inr () \<longleftrightarrow> third_party_ok env m t"
  by (auto simp: membershipAllowedFromThirdPartyInvite_def third_party_ok_def list_ex_iff split_beta)

lemma membershipAllowed_iff:
  "membershipAllowed env m e prev = Inr () \<longleftrightarrow>
    roomID (ma_create m) = RoomID e \<and>
    userIDAllowed (env_domains env) (ma_create m) (ma_senderID m) = Inr () \<and>
    userIDAllowed (env_domains env) (ma_create m) (ma_targetID m) = Inr () \<and>
    member_rule env m prev"
proof -
  have chain: "(if a then Inr () else if b then Inr () else if c then Inr () else r) = Inr () \<longleftrightarrow>
      a \<or> b \<or> c \<or> r = Inr ()" for a b c and r :: "unit result"
    by simp
  have last: "(case (inv, tp) of
        (True, Some t) \<Rightarrow> membershipAllowedFromThirdPartyInvite env m t
      | _ \<Rightarrow> if ma_targetID m = ma_senderID m then membershipAllowedSelf m else membershipAllowedOther m)
      = Inr () \<longleftrightarrow>
     (case (inv, tp) of
        (True, Some t) \<Rightarrow> third_party_ok env m t
      | _ \<Rightarrow> if ma_targetID m = ma_senderID m
             then self_change (ma_joinRule m) (Membership (ma_oldMember m)) (Membership (ma_newMember m))
             else Membership (ma_senderMember m) = join \<and>
               other_change (ma_powerLevels m) (userLevel (ma_powerLevels m) (ma_senderID m))
                 (userLevel (ma_powerLevels m) (ma_targetID m)) (Membership (ma_oldMember m))
                 (Membership (ma_newMember m)))" for inv tp
    by (simp add: membershipAllowedSelf_iff membershipAllowedOther_iff
        membershipAllowedFromThirdPartyInvite_iff split: option.split bool.split)
  show ?thesis
    unfolding membershipAllowed_def bindR_Inr_iff ensure_Inr_iff chain last member_rule_def Let_def
    by auto
qed

lemma newMembershipAllowerD:
  assumes "newMembershipAllower cd p e = Inr m"
  shows "StateKey e = Some (ma_targetID m)" "ma_senderID m = Sender e"
    "newCreateContentFromAuthEvents cd p = Inr (ma_create m)"
    "\<exists>n. dec_member cd (Content e) = Some n \<and>
      ma_newMember m = (if Membership n = ''kick'' then n\<lparr>Membership := leave\<rparr> else n)"
    "newMemberContentFromAuthEvents cd p (ma_targetID m) = Inr (ma_oldMember m)"
    "newMemberContentFromAuthEvents cd p (ma_senderID m) = Inr (ma_senderMember m)"
    "newPowerLevelContentFromAuthEvents cd p (Creator (ma_create m)) = Inr (ma_powerLevels m)"
proof -
  obtain k where k: "StateKey e = Some k"
    using assms by (auto simp: newMembershipAllower_def split: option.splits)
  from assms obtain c n old sm pl jr keys where *:
    "newCreateContentFromAuthEvents cd p = Inr c" "newMemberContentFromEvent cd e = Inr n"
    "newMemberContentFromAuthEvents cd p k = Inr old"
    "newMemberContentFromAuthEvents cd p (Sender e) = Inr sm"
    "newPowerLevelContentFromAuthEvents cd p (Creator c) = Inr pl"
    "m = \<lparr>ma_targetID = k, ma_senderID = Sender e, ma_senderMember = sm, ma_oldMember = old,
      ma_newMember = (if Membership n = ''kick'' then n\<lparr>Membership := leave\<rparr> else n), ma_create = c,
      ma_powerLevels = pl, ma_joinRule = jr, ma_thirdPartyInvite = keys\<rparr>"
    unfolding newMembershipAllower_def k option.case bindR_Inr_iff Let_def by auto
  from *(2) have "dec_member cd (Content e) = Some n"
    by (simp add: newMemberContentFromEvent_def split: option.splits)
  with * k show "StateKey e = Some (ma_targetID m)" "ma_senderID m = Sender e"
    "newCreateContentFromAuthEvents cd p = Inr (ma_create m)"
    "\<exists>n. dec_member cd (Content e) = Some n \<and>
      ma_newMember m = (if Membership n = ''kick'' then n\<lparr>Membership := leave\<rparr> else n)"
    "newMemberContentFromAuthEvents cd p (ma_targetID m) = Inr (ma_oldMember m)"
    "newMemberContentFromAuthEvents cd p (ma_senderID m) = Inr (ma_senderMember m)"
    "newPowerLevelContentFromAuthEvents cd p (Creator (ma_create m)) = Inr (ma_powerLevels m)"
    by simp_all
qed

lemma memberEventAllowed_iff:
  "memberEventAllowed env e p = Inr () \<longleftrightarrow>
    (\<exists>m. newMembershipAllower (env_codec env) p e = Inr m \<and>
      roomID (ma_create m) = RoomID e \<and>
      userIDAllowed (env_domains env) (ma_create m) (Sender e) = Inr () \<and>
      userIDAllowed (env_domains env) (ma_create m) (ma_targetID m) = Inr () \<and>
      member_rule env m (case get_Member p (ma_targetID m) of Inl _ \<Rightarrow> None | Inr oe \<Rightarrow> oe))"
proof -
  have "(case StateKey e of None \<Rightarrow> Inl (Panic ''nil pointer dereference'')
        | Some k \<Rightarrow> membershipAllowed env m e (case get_Member p k of Inl _ \<Rightarrow> None | Inr oe \<Rightarrow> oe)) = Inr () \<longleftrightarrow>
      roomID (ma_create m) = RoomID e \<and>
      userIDAllowed (env_domains env) (ma_create m) (Sender e) = Inr () \<and>
      userIDAllowed (env_domains env) (ma_create m) (ma_targetID m) = Inr () \<and>
      member_rule env m (case get_Member p (ma_targetID m) of Inl _ \<Rightarrow> None | Inr oe \<Rightarrow> oe)"
    if "newMembershipAllower (env_codec env) p e = Inr m" for m
    unfolding newMembershipAllowerD(1) [OF that] option.case membershipAllowed_iff
      newMembershipAllowerD(2) [OF that] by (rule refl)
  then show ?thesis unfolding memberEventAllowed_def bindR_Inr_iff by blast
qed

section \<open>Locality\<close>

lemma set_Tuples:
  "set (Tuples s) =
    (if sn_Create s then {(MRoomCreate, [])} else {}) \<union>
    (if sn_JoinRules s then {(MRoomJoinRules, [])} else {}) \<union>
    (if sn_PowerLevels s then {(MRoomPowerLevels, [])} else {}) \<union>
    (\<lambda>u. (MRoomMember, u)) ` set (sn_Member s) \<union>
    (\<lambda>u. (MRoomThirdPartyInvite, u)) ` set (sn_ThirdPartyInvite s)"
  by (auto simp: Tuples_def)

lemma agree_onD: "agree_on ts p q \<Longrightarrow> t \<in> set ts \<Longrightarrow> provider_get p t = provider_get q t"
  by (auto simp: agree_on_def list_all_iff)

lemma provider_get_simps [simp]:
  "provider_get p (MRoomCreate, k) = get_Create p"
  "provider_get p (MRoomJoinRules, k) = get_JoinRules p"
  "provider_get p (MRoomPowerLevels, k) = get_PowerLevels p"
  "provider_get p (MRoomMember, k) = get_Member p k"
  "provider_get p (MRoomThirdPartyInvite, k) = get_ThirdPartyInvite p k"
  by (simp_all add: provider_get_def)

lemma needed_default:
  assumes "EvType e \<notin> {MRoomCreate, MRoomAliases, MRoomMember}"
    and "agree_on (Tuples (StateNeededForAuth cd [e])) p q"
  shows "get_Create p = get_Create q" "get_PowerLevels p = get_PowerLevels q"
    "get_Member p (Sender e) = get_Member q (Sender e)"
proof -
  have "{(MRoomCreate, []), (MRoomPowerLevels, []), (MRoomMember, Sender e)}
      \<subseteq> set (Tuples (StateNeededForAuth cd [e]))"
    using assms(1) by (simp add: StateNeededForAuth_def accumulate_event_def accumulateStateNeeded_def
        set_Tuples dedup_needed_def no_state_def)
  then show "get_Create p = get_Create q" "get_PowerLevels p = get_PowerLevels q"
    "get_Member p (Sender e) = get_Member q (Sender e)"
    using agree_onD [OF assms(2)] provider_get_simps by (metis insert_subset)+
qed

lemma needed_alias:
  assumes "EvType e = MRoomAliases" "agree_on (Tuples (StateNeededForAuth cd [e])) p q"
  shows "get_Create p = get_Create q"
proof -
  have "(MRoomCreate, []) \<in> set (Tuples (StateNeededForAuth cd [e]))"
    using assms(1) by (simp add: StateNeededForAuth_def accumulate_event_def accumulateStateNeeded_def
        set_Tuples dedup_needed_def no_state_def)
  from agree_onD [OF assms(2) this] show ?thesis by simp
qed

lemma needed_member:
  assumes "EvType e = MRoomMember" "StateKey e = Some k" "dec_member cd (Content e) = Some c"
    and "agree_on (Tuples (StateNeededForAuth cd [e])) p q"
  shows "get_Create p = get_Create q" "get_PowerLevels p = get_PowerLevels q"
    "get_Member p (Sender e) = get_Member q (Sender e)" "get_Member p k = get_Member q k"
    "Membership c = join \<Longrightarrow> get_JoinRules p = get_JoinRules q"
    "ThirdPartyInvite c = Some t \<Longrightarrow> Token (Signed t) \<noteq> [] \<Longrightarrow>
      get_ThirdPartyInvite p (Token (Signed t)) = get_ThirdPartyInvite q (Token (Signed t))"
proof -
  let ?T = "set (Tuples (StateNeededForAuth cd [e]))"
  have T: "StateNeededForAuth cd [e] = dedup_needed (fst (accumulateStateNeeded no_state MRoomMember (Sender e) (Some k) (Some c)))"
    using assms(1-3)
    by (simp add: StateNeededForAuth_def accumulate_event_def newMemberContentFromEvent_def)
  have base: "{(MRoomCreate, []), (MRoomPowerLevels, []), (MRoomMember, Sender e), (MRoomMember, k)} \<subseteq> ?T"
    unfolding T by (simp add: accumulateStateNeeded_def Let_def set_Tuples dedup_needed_def no_state_def
        split: option.split sum.split)
  have jr: "Membership c = join \<Longrightarrow> (MRoomJoinRules, []) \<in> ?T"
    unfolding T by (simp add: accumulateStateNeeded_def Let_def set_Tuples dedup_needed_def no_state_def
        split: option.split sum.split)
  have tp: "ThirdPartyInvite c = Some t \<Longrightarrow> Token (Signed t) \<noteq> [] \<Longrightarrow>
      (MRoomThirdPartyInvite, Token (Signed t)) \<in> ?T"
    unfolding T by (simp add: accumulateStateNeeded_def thirdPartyInviteToken_def Let_def set_Tuples
        dedup_needed_def no_state_def)
  note a = agree_onD [OF assms(4)]
  show "get_Create p = get_Create q" "get_PowerLevels p = get_PowerLevels q"
    "get_Member p (Sender e) = get_Member q (Sender e)" "get_Member p k = get_Member q k"
    using a base provider_get_simps by (metis insert_subset)+
  show "Membership c = join \<Longrightarrow> get_JoinRules p = get_JoinRules q"
    using a [OF jr] by simp
  show "ThirdPartyInvite c = Some t \<Longrightarrow> Token (Signed t) \<noteq> [] \<Longrightarrow>
      get_ThirdPartyInvite p (Token (Signed t)) = get_ThirdPartyInvite q (Token (Signed t))"
    using a [OF tp] by simp
qed

lemma newEventAllower_cong:
  assumes "get_Create p = get_Create q" "get_PowerLevels p = get_PowerLevels q"
    "get_Member p s = get_Member q s"
  shows "newEventAllower cd p s = newEventAllower cd q s"
  using assms by (simp add: newEventAllower_def content_loaders)

lemma newMembershipAllower_cong:
  assumes "EvType e = MRoomMember" "StateKey e = Some k" "dec_member cd (Content e) = Some c"
    and "agree_on (Tuples (StateNeededForAuth cd [e])) p q"
    and tok: "\<And>t. ThirdPartyInvite c = Some t \<Longrightarrow> Token (Signed t) \<noteq> []"
  shows "newMembershipAllower cd p e = newMembershipAllower cd q e"
proof -
  note n = needed_member [OF assms(1-4)]
  have jr: "(if Membership c = join then newJoinRuleContentFromAuthEvents cd p else Inr [])
      = (if Membership c = join then newJoinRuleContentFromAuthEvents cd q else Inr [])"
    using n(5) by (simp add: content_loaders)
  have tp: "(case ThirdPartyInvite c of None \<Rightarrow> Inr []
        | Some t \<Rightarrow> newThirdPartyInviteContentFromAuthEvents cd p (Token (Signed t)))
      = (case ThirdPartyInvite c of None \<Rightarrow> Inr []
        | Some t \<Rightarrow> newThirdPartyInviteContentFromAuthEvents cd q (Token (Signed t)))"
    using n(6) tok by (simp add: newThirdPartyInviteContentFromAuthEvents_def split: option.split)
  have c: "newCreateContentFromAuthEvents cd p = newCreateContentFromAuthEvents cd q"
    "newMemberContentFromAuthEvents cd p k = newMemberContentFromAuthEvents cd q k"
    "newMemberContentFromAuthEvents cd p (Sender e) = newMemberContentFromAuthEvents cd q (Sender e)"
    "\<And>u. newPowerLevelContentFromAuthEvents cd p u = newPowerLevelContentFromAuthEvents cd q u"
    using n(1-4) by (simp_all add: content_loaders)
  show ?thesis
    using jr tp
    by (cases "Membership c = ''kick''")
      (simp_all add: newMembershipAllower_def assms(2) newMemberContentFromEvent_def assms(3) Let_def c)
qed

text \<open>An event is accepted on the strength of the state the code says it needs.\<close>

lemma Allowed_local_member:
  assumes ty: "EvType e = MRoomMember"
    and ag: "agree_on (Tuples (StateNeededForAuth (env_codec env) [e])) p q"
    and tok: "\<And>c t. dec_member (env_codec env) (Content e) = Some c \<Longrightarrow> ThirdPartyInvite c = Some t \<Longrightarrow>
      Token (Signed t) \<noteq> []"
    and ok: "memberEventAllowed env e p = Inr ()"
  shows "memberEventAllowed env e q = Inr ()"
proof -
  obtain m where m: "newMembershipAllower (env_codec env) p e = Inr m"
    using ok by (auto simp: memberEventAllowed_def result_simps)
  obtain k c where kc: "StateKey e = Some k" "dec_member (env_codec env) (Content e) = Some c"
    using newMembershipAllowerD(1,4) [OF m] by blast
  have "newMembershipAllower (env_codec env) p e = newMembershipAllower (env_codec env) q e"
    using newMembershipAllower_cong [OF ty kc ag] tok [OF kc(2)] by blast
  moreover have "get_Member p k = get_Member q k" by (rule needed_member(4) [OF ty kc ag])
  ultimately show ?thesis using ok kc(1) by (simp add: memberEventAllowed_def)
qed

lemma agree_on_sym: "agree_on ts p q \<longleftrightarrow> agree_on ts q p"
  by (auto simp: agree_on_def list_all_iff)

lemma Allowed_local_default:
  assumes "EvType e \<notin> {MRoomCreate, MRoomAliases, MRoomMember}"
    and "agree_on (Tuples (StateNeededForAuth (env_codec env) [e])) p q"
  shows "Allowed env e p st = Allowed env e q st"
proof -
  note n = needed_default [OF assms]
  have a: "newEventAllower (env_codec env) p (Sender e) = newEventAllower (env_codec env) q (Sender e)"
    using n by (intro newEventAllower_cong)
  have "powerLevelsEventAllowed env e p st = powerLevelsEventAllowed env e q st"
    "redactEventAllowed env e p st = redactEventAllowed env e q st"
    "defaultEventAllowed env e p st = defaultEventAllowed env e q st"
    unfolding powerLevelsEventAllowed_def redactEventAllowed_def defaultEventAllowed_def a n(2)
    by (rule refl)+
  with assms(1) show ?thesis by (simp add: Allowed_def)
qed

lemma eventLevel_absent:
  "ty \<notin> fst ` set (eventLevels c) \<Longrightarrow> eventLevel c ty False =
    (if ty = MRoomThirdPartyInvite then inviteLevel c else eventDefaultLevel c)"
  by (simp add: eventLevel_def map_of_eq_None_iff [THEN iffD2])

lemma userLevel_absent: "u \<notin> fst ` set (userLevels c) \<Longrightarrow> userLevel c u = userDefaultLevel c"
  by (simp add: userLevel_def map_of_eq_None_iff [THEN iffD2])

lemma checkEventLevels_all:
  assumes "checkEventLevels s old new = Inr ()"
  shows "eventLevel old ty False = eventLevel new ty False \<or>
    eventLevel old ty False \<le> s \<and> eventLevel new ty False \<le> s"
proof (cases "ty \<in> fst ` set (eventLevels new) \<union> fst ` set (eventLevels old)")
  case True
  with assms show ?thesis by (simp only: checkEventLevels_iff)
next
  case False
  then have a: "eventLevel old ty False = (if ty = MRoomThirdPartyInvite then inviteLevel old else eventDefaultLevel old)"
    "eventLevel new ty False = (if ty = MRoomThirdPartyInvite then inviteLevel new else eventDefaultLevel new)"
    by (auto simp: eventLevel_absent)
  show ?thesis using assms unfolding a checkEventLevels_iff by simp
qed

lemma checkUserLevels_all:
  assumes "checkUserLevels s u old new = Inr ()" "u \<noteq> []"
  shows "userLevel old v = userLevel new v \<or>
    userLevel new v \<le> s \<and> (v = u \<or> onlyOneMember new \<or> userLevel old v < s)"
proof (cases "v \<in> fst ` set (userLevels new) \<union> fst ` set (userLevels old)")
  case True
  with assms(1) show ?thesis by (simp only: checkUserLevels_iff)
next
  case False
  then have "userLevel old v = userDefaultLevel old" "userLevel new v = userDefaultLevel new"
    by (simp_all add: userLevel_absent)
  with assms show ?thesis unfolding checkUserLevels_iff by auto
qed

lemma sender_nonempty: "userIDAllowed cfg c s = Inr () \<Longrightarrow> s \<noteq> []"
  by (auto simp: userIDAllowed_def result_simps domainFromID_iff)

lemma powerLevels_checked:
  assumes "fst (Allowed env e p st) = Inr ()" "EvType e = MRoomPowerLevels"
    and "get_PowerLevels p = Inr (Some oe)"
    and "newPowerLevelContentFromEvent (env_codec env) oe = Inr old"
    and "newPowerLevelContentFromEvent (env_codec env) e = Inr new"
  shows "checkEventLevels (userLevel old (Sender e)) old new = Inr ()"
    "checkUserLevels (userLevel old (Sender e)) (Sender e) old new = Inr ()" "Sender e \<noteq> []"
proof -
  have pl: "fst (powerLevelsEventAllowed env e p st) = Inr ()" using assms(1,2) by (simp add: Allowed_def)
  obtain a where a: "newEventAllower (env_codec env) p (Sender e) = Inr a"
    "fst (commonChecks env a e st) = Inr ()"
    using Allowed_common [OF assms(1)] assms(2) by auto
  have old: "ea_powerLevels a = old"
    using a(1) assms(3,4) by (simp add: newEventAllower_iff newPowerLevelContentFromAuthEvents_def)
  obtain st' where "commonChecks env a e st = (Inr (), st')"
    using a(2) by (cases "commonChecks env a e st") auto
  with pl a(1) assms(3,5) old
  show "checkEventLevels (userLevel old (Sender e)) old new = Inr ()"
    "checkUserLevels (userLevel old (Sender e)) (Sender e) old new = Inr ()"
    by (auto simp: powerLevelsEventAllowed_def result_simps Let_def)
  show "Sender e \<noteq> []" using a(2) by (auto simp: commonChecks_iff dest: sender_nonempty)
qed

section \<open>Panics\<close>

lemma no_panic_simps:
  "\<not> is_panic (domainFromID i)" "\<not> is_panic (domainAllowed cfg c d)" "\<not> is_panic (userIDAllowed cfg c i)"
  "\<not> is_panic (newMemberContentFromEvent cd e)" "\<not> is_panic (newPowerLevelContentFromEvent cd e)"
  "\<not> is_panic (level_checks a e skip)" "\<not> is_panic (redact_rule a e)"
  by (auto simp: domainFromID_def domainAllowed_def userIDAllowed_def newMemberContentFromEvent_def
      newPowerLevelContentFromEvent_def level_checks_def redact_rule_def is_panic_bindR Let_def
      split: option.splits)

lemma event_pairs_no_panic: "\<not> is_panic (check_event_pairs s ps)"
proof (induction ps)
  case (Cons x ps)
  then show ?case by (cases x) simp
qed simp

lemma user_pairs_no_panic: "\<not> is_panic (check_user_pairs s u one ps)"
proof (induction ps)
  case (Cons x ps)
  then show ?case by (cases x; cases one) simp_all
qed simp

lemma check_user_ids_panic: "is_panic (check_user_ids us) \<Longrightarrow> [] \<in> set us"
  by (induction us) (auto simp: is_panic_bindR isValidUserID_def split: if_splits)

lemma loaders_no_panic:
  assumes "provider_safe p"
  shows "\<not> is_panic (newCreateContentFromAuthEvents cd p)" "\<not> is_panic (newMemberContentFromAuthEvents cd p u)"
    "\<not> is_panic (newPowerLevelContentFromAuthEvents cd p u)"
    "\<not> is_panic (newJoinRuleContentFromAuthEvents cd p)"
    "\<not> is_panic (newThirdPartyInviteContentFromAuthEvents cd p u)"
  using assms
  by (auto simp: newCreateContentFromAuthEvents_def newMemberContentFromAuthEvents_def
      newPowerLevelContentFromAuthEvents_def newJoinRuleContentFromAuthEvents_def
      newThirdPartyInviteContentFromAuthEvents_def is_panic_bindR provider_safe_def no_panic_simps
      split: option.splits)

lemma newEventAllower_no_panic: "provider_safe p \<Longrightarrow> \<not> is_panic (newEventAllower cd p s)"
  by (auto simp: newEventAllower_def is_panic_bindR loaders_no_panic)

lemma membership_no_panic:
  "\<not> is_panic (membershipAllowed env m e prev)"
proof -
  have "\<not> is_panic (membershipAllowedSelf m)" "\<not> is_panic (membershipAllowedOther m)"
    "\<not> is_panic (membershipAllowedFromThirdPartyInvite env m t)" for t
    by (simp_all add: membershipAllowedSelf_def membershipAllowedOther_def membershipFailed_def Let_def
        membershipAllowedFromThirdPartyInvite_def)
  then show ?thesis
    by (simp add: membershipAllowed_def is_panic_bindR no_panic_simps split: option.split bool.split)
qed

lemma newMembershipAllower_no_panic: "provider_safe p \<Longrightarrow> \<not> is_panic (newMembershipAllower cd p e)"
  by (simp add: newMembershipAllower_def is_panic_bindR loaders_no_panic no_panic_simps Let_def
      split: option.split)

lemma memberEventAllowed_no_panic: "provider_safe p \<Longrightarrow> \<not> is_panic (memberEventAllowed env e p)"
  by (auto simp: memberEventAllowed_def is_panic_bindR newMembershipAllower_no_panic membership_no_panic
      dest: newMembershipAllowerD(1))

lemma commonChecks_no_panic: "\<not> is_panic (fst (commonChecks env a e st))"
  using no_panic_simps(3) [of "env_domains env" "ea_create a" "Sender e"]
  by (auto simp: commonChecks_def no_panic_simps(6) split: sum.splits prod.splits)

lemma fst_powerLevels:
  "fst (powerLevelsEventAllowed env e p st) =
    bindR (newEventAllower (env_codec env) p (Sender e)) (\<lambda>a.
    bindR (fst (commonChecks env a e st)) (\<lambda>_.
    bindR (newPowerLevelContentFromEvent (env_codec env) e) (\<lambda>new.
    bindR (check_user_ids (map fst (userLevels new))) (\<lambda>_.
    bindR (get_PowerLevels p) (\<lambda>oldEvent.
      case oldEvent of
        None \<Rightarrow> Inr ()
      | Some _ \<Rightarrow>
          bindR (checkEventLevels (userLevel (ea_powerLevels a) (Sender e)) (ea_powerLevels a) new) (\<lambda>_.
            checkUserLevels (userLevel (ea_powerLevels a) (Sender e)) (Sender e) (ea_powerLevels a) new))))))"
proof (cases "newEventAllower (env_codec env) p (Sender e)")
  case (Inr a)
  obtain r st' where "commonChecks env a e st = (r, st')" by (cases "commonChecks env a e st")
  with Inr show ?thesis by (cases r) (simp_all add: powerLevelsEventAllowed_def Let_def)
qed (simp add: powerLevelsEventAllowed_def)

lemma fst_redact:
  "fst (redactEventAllowed env e p st) =
    bindR (newEventAllower (env_codec env) p (Sender e)) (\<lambda>a.
    bindR (fst (commonChecks env a e st)) (\<lambda>_. redact_rule a e))"
  by (simp add: redactEventAllowed_def bindR_def split: sum.split prod.split)

lemma fst_default:
  "fst (defaultEventAllowed env e p st) =
    bindR (newEventAllower (env_codec env) p (Sender e)) (\<lambda>a. fst (commonChecks env a e st))"
  by (simp add: defaultEventAllowed_def bindR_def split: sum.split)

lemma create_alias_no_panic:
  assumes "provider_safe p"
  shows "\<not> is_panic (createEventAllowed e p)" "\<not> is_panic (aliasEventAllowed env e p)"
  by (auto simp: createEventAllowed_def aliasEventAllowed_def is_panic_bindR no_panic_simps
      loaders_no_panic [OF assms] split: sum.split option.split)

lemma levels_no_panic:
  "\<not> is_panic (checkEventLevels s old new)" "\<not> is_panic (checkUserLevels s u old new)"
  unfolding checkEventLevels_def checkUserLevels_def by (rule event_pairs_no_panic user_pairs_no_panic)+

lemma powerLevels_panic:
  assumes "provider_safe p" "is_panic (fst (powerLevelsEventAllowed env e p st))"
  shows "\<exists>new. newPowerLevelContentFromEvent (env_codec env) e = Inr new \<and> [] \<in> fst ` set (userLevels new)"
proof -
  have lv: "\<not> is_panic (case oe of None \<Rightarrow> Inr () | Some (x :: 'a Event) \<Rightarrow>
      bindR (checkEventLevels s old new) (\<lambda>_. checkUserLevels s u old new))" for oe s u old new
    by (simp add: levels_no_panic is_panic_bindR split: option.split)
  have "\<not> is_panic (get_PowerLevels p)" using assms(1) by (simp add: provider_safe_def)
  with assms(2) obtain new where "newPowerLevelContentFromEvent (env_codec env) e = Inr new"
    "is_panic (check_user_ids (map fst (userLevels new)))"
    using newEventAllower_no_panic [OF assms(1)] commonChecks_no_panic no_panic_simps(5) lv
    unfolding fst_powerLevels is_panic_bindR by blast
  then show ?thesis by (auto dest!: check_user_ids_panic)
qed

lemma others_no_panic:
  assumes "provider_safe p"
  shows "\<not> is_panic (fst (redactEventAllowed env e p st))" "\<not> is_panic (fst (defaultEventAllowed env e p st))"
  by (simp_all add: fst_redact fst_default is_panic_bindR newEventAllower_no_panic [OF assms]
      commonChecks_no_panic no_panic_simps)

section \<open>The cache of skipped types\<close>

lemma commonChecks_cache:
  assumes "skip_coherent (env_MatchString env) st"
  shows "fst (commonChecks env a e st) = fst (commonChecks env a e (st\<lparr>skipMap := []\<rparr>))"
    "skip_coherent (env_MatchString env) (snd (commonChecks env a e st))"
    "skipMapConf (snd (commonChecks env a e st)) = skipMapConf st"
proof -
  have c0: "skip_coherent (env_MatchString env) (st\<lparr>skipMap := []\<rparr>)" by (simp add: skip_coherent_def)
  show "fst (commonChecks env a e st) = fst (commonChecks env a e (st\<lparr>skipMap := []\<rparr>))"
    using skip_lookup_coherent(1) [OF assms, of "EvType e"] skip_lookup_coherent(1) [OF c0, of "EvType e"]
    by (auto simp: commonChecks_def split: sum.split prod.split)
  show "skip_coherent (env_MatchString env) (snd (commonChecks env a e st))"
    "skipMapConf (snd (commonChecks env a e st)) = skipMapConf st"
    using assms skip_lookup_coherent(2,3) [OF assms, of "EvType e"]
    by (auto simp: commonChecks_def split: sum.split prod.split)
qed

lemma snd_Allowed:
  "snd (Allowed env e p st) = st \<or> (\<exists>a. snd (Allowed env e p st) = snd (commonChecks env a e st))"
proof -
  have "snd (powerLevelsEventAllowed env e p st) = st \<or>
      (\<exists>a. snd (powerLevelsEventAllowed env e p st) = snd (commonChecks env a e st))"
    by (auto simp: powerLevelsEventAllowed_def split: sum.split prod.split) (metis snd_conv)+
  moreover have "snd (redactEventAllowed env e p st) = st \<or>
      (\<exists>a. snd (redactEventAllowed env e p st) = snd (commonChecks env a e st))"
    by (auto simp: redactEventAllowed_def split: sum.split prod.split) (metis snd_conv)+
  moreover have "snd (defaultEventAllowed env e p st) = st \<or>
      (\<exists>a. snd (defaultEventAllowed env e p st) = snd (commonChecks env a e st))"
    by (auto simp: defaultEventAllowed_def split: sum.split)
  ultimately show ?thesis unfolding Allowed_def by (simp del: snd_conv add: snd_def)
qed

lemma fst_Allowed_cache:
  assumes "skip_coherent (env_MatchString env) st"
  shows "fst (Allowed env e p st) = fst (Allowed env e p (st\<lparr>skipMap := []\<rparr>))"
  unfolding Allowed_def
  by (simp add: fst_powerLevels fst_redact fst_default commonChecks_cache(1) [OF assms])

lemma snd_Allowed_cache:
  assumes "skip_coherent (env_MatchString env) st"
  shows "skip_coherent (env_MatchString env) (snd (Allowed env e p st))"
    "skipMapConf (snd (Allowed env e p st)) = skipMapConf st"
  using snd_Allowed [of env e p st] assms commonChecks_cache(2,3) [OF assms] by auto

lemma Allowed_panicD:
  assumes "provider_safe p" "is_panic (fst (Allowed env e p st))"
  shows "EvType e = MRoomPowerLevels"
    "\<exists>new. newPowerLevelContentFromEvent (env_codec env) e = Inr new \<and> [] \<in> fst ` set (userLevels new)"
proof -
  show pl: "EvType e = MRoomPowerLevels"
  proof (rule ccontr)
    assume "EvType e \<noteq> MRoomPowerLevels"
    with assms(2) show False
      using create_alias_no_panic [OF assms(1)] memberEventAllowed_no_panic [OF assms(1)]
        others_no_panic [OF assms(1)]
      by (simp add: Allowed_def split: if_splits)
  qed
  with assms show "\<exists>new. newPowerLevelContentFromEvent (env_codec env) e = Inr new \<and>
      [] \<in> fst ` set (userLevels new)"
    using powerLevels_panic [OF assms(1), of env e st] by (simp add: Allowed_def)
qed

section \<open>Stores of state events\<close>

text \<open>
  What the authorisation code relies on when it fills a provider: an event the provider takes is found
  under its type and state key until another one replaces it, and nothing else changes; an event
  the provider does not take changes nothing.
\<close>

locale state_store =
  fixes put :: "'c Event \<Rightarrow> 's \<Rightarrow> 's"
    and look :: "'s \<Rightarrow> StateKeyTuple \<Rightarrow> 'c Event option"
    and takes :: "'c Event \<Rightarrow> bool"
  assumes takes_state: "takes e \<Longrightarrow> StateKey e \<noteq> None"
    and look_put: "takes e \<Longrightarrow> look (put e s) t = (if t = event_key e then Some e else look s t)"
    and look_put_other: "\<not> takes e \<Longrightarrow> look (put e s) t = look s t"
begin

lemma look_fold:
  "look (fold put es s) t = (case last_setting t (filter takes es) of Some e \<Rightarrow> Some e | None \<Rightarrow> look s t)"
proof (induction es arbitrary: s)
  case (Cons e es)
  show ?case
  proof (cases "takes e")
    case True
    then obtain k where "StateKey e = Some k" using takes_state by blast
    with True show ?thesis
      by (cases "last_setting t (filter takes es)") (auto simp: Cons.IH look_put event_key_def)
  qed (simp add: Cons.IH look_put_other split: option.split)
qed simp

end

interpretation auth_events: state_store "\<lambda>e a. snd (AddEvent e a)" "\<lambda>a t. a t" "\<lambda>e. StateKey e \<noteq> None"
  by unfold_locales (auto simp: AddEvent_def event_key_def split: if_splits)

lemma last_setting_state: "last_setting t (filter (\<lambda>e. StateKey e \<noteq> None) es) = last_setting t es"
  by (induction es) (auto split: option.splits)

section \<open>Properties\<close>

text \<open>
  C1. An event other than a creation, an alias or a membership is accepted only if the room has a
  create event of the same room, the sender has a member event saying \<open>join\<close>, the sender's level
  reaches the level of the event (unless the type is configured to skip the check, or is
  \<open>m.room.archive\<close>), and a state key that starts with \<open>@\<close> is the sender's.
\<close>

theorem Allowed_sender_joined:
  assumes "fst (Allowed env e p st) = Inr ()" "skip_coherent (env_MatchString env) st"
    and "EvType e \<notin> {MRoomCreate, MRoomAliases, MRoomMember}"
  shows "\<exists>ce me c a. get_Create p = Inr (Some ce) \<and> RoomID ce = RoomID e \<and>
    get_Member p (Sender e) = Inr (Some me) \<and> dec_member (env_codec env) (Content me) = Some c \<and>
    Membership c = join \<and>
    newEventAllower (env_codec env) p (Sender e) = Inr a \<and>
    (skip_range (env_MatchString env) (EvType e) (skipMapConf st) \<or> EvType e = MRoomArchive \<or>
     eventLevel (ea_powerLevels a) (EvType e) (StateKey e \<noteq> None)
       \<le> userLevel (ea_powerLevels a) (Sender e)) \<and>
    (\<forall>k. StateKey e = Some k \<and> k \<noteq> [] \<and> hd k = CHR ''@'' \<longrightarrow> k = Sender e)"
proof -
  obtain a where a: "newEventAllower (env_codec env) p (Sender e) = Inr a"
    "fst (commonChecks env a e st) = Inr ()"
    using Allowed_common [OF assms(1,3)] by blast
  note cc = a(2) [unfolded commonChecks_iff level_checks_iff skip_lookup_coherent(1) [OF assms(2)]]
  obtain ce where "get_Create p = Inr (Some ce)" "roomID (ea_create a) = RoomID ce"
    using a(1) unfolding newEventAllower_iff create_content_iff by blast
  moreover obtain me where "get_Member p (Sender e) = Inr (Some me)"
    "dec_member (env_codec env) (Content me) = Some (ea_member a)"
    using a(1) cc member_content_join unfolding newEventAllower_iff by blast
  ultimately show ?thesis using a(1) cc by auto
qed



text \<open>
  C4. A ban holds: if the member event of a user says \<open>ban\<close>, an accepted member event can make that
  user joined only if it is sent by the room's creator for somebody else, the case the code
  reserves for automatic joins. In particular a banned user cannot join by themselves, whatever the
  join rule.
\<close>

theorem banned_user_joins_only_by_creator:
  assumes "fst (Allowed env e p st) = Inr ()" "EvType e = MRoomMember" "StateKey e = Some u"
    and "dec_member (env_codec env) (Content e) = Some new" "Membership new = join"
    and "get_Member p u = Inr (Some be)" "dec_member (env_codec env) (Content be) = Some old"
    and "Membership old = ban"
  shows "u \<noteq> Sender e \<and>
    (\<exists>ce fed org grp. get_Create p = Inr (Some ce) \<and>
      dec_create (env_codec env) (Content ce) = Some (fed, Sender e, org, grp))"
proof -
  obtain m where m: "newMembershipAllower (env_codec env) p e = Inr m"
    "member_rule env m (case get_Member p (ma_targetID m) of Inl _ \<Rightarrow> None | Inr oe \<Rightarrow> oe)"
    using assms(1,2) by (auto simp: Allowed_def memberEventAllowed_iff)
  note d = newMembershipAllowerD [OF m(1)]
  have t: "ma_targetID m = u" "ma_senderID m = Sender e" using d(1,2) assms(3) by simp_all
  have o: "Membership (ma_oldMember m) = ban"
    using d(5) assms(6-8) t by (simp add: content_loaders)
  have n: "Membership (ma_newMember m) = join" using d(4) assms(4,5) by auto
  obtain ce where ce: "get_Create p = Inr (Some ce)" "dec_create (env_codec env) (Content ce) =
      Some (Federate (ma_create m), Creator (ma_create m), IsOrganizationRoom (ma_create m), IsGroupRoom (ma_create m))"
    using d(3) unfolding create_content_iff by blast
  have "u \<noteq> Sender e \<and> Sender e = Creator (ma_create m)"
    using m(2) unfolding member_rule_def Let_def t o n assms(6)
    by (auto simp: self_change_iff other_change_iff split: if_splits)
  with ce show ?thesis by auto
qed




text \<open>
  The cache of skipped types is transparent: as long as its entries agree with the configured
  patterns, a check answers as it would with an empty cache, and leaves an agreeing cache and the
  patterns behind.
\<close>

theorem Allowed_skip_cache:
  assumes "skip_coherent (env_MatchString env) st"
  shows "fst (Allowed env e p st) = fst (Allowed env e p (st\<lparr>skipMap := []\<rparr>)) \<and>
    skip_coherent (env_MatchString env) (snd (Allowed env e p st)) \<and>
    skipMapConf (snd (Allowed env e p st)) = skipMapConf st"
  using fst_Allowed_cache [OF assms] snd_Allowed_cache [OF assms] by blast

text \<open>
  A provider built from a list of events answers every look-up with the last state event of the list
  that has the type and state key asked for.
\<close>

theorem NewAuthEvents_lookup:
  "provider_get (AuthEvents_provider (NewAuthEvents es)) (ty, k) =
    Inr (if ty \<in> {MRoomCreate, MRoomJoinRules, MRoomPowerLevels} then last_setting (ty, []) es
         else if ty \<in> {MRoomMember, MRoomThirdPartyInvite} then last_setting (ty, k) es else None)"
proof -
  have "NewAuthEvents es t = last_setting t es" for t
    using auth_events.look_fold [of es Map.empty t, unfolded last_setting_state]
    by (simp add: NewAuthEvents_def split: option.splits)
  then show ?thesis by (simp add: provider_get_def AuthEvents_provider_def)
qed

text \<open>
  Room creation: a create event is accepted exactly if the room has none yet, its state key is
  empty and the room identifier is on the sender's domain; every other event is rejected as long as
  the room has no create event.
\<close>

theorem creation_rules:
  assumes "get_Create p = Inr oc"
  shows "(EvType e = MRoomCreate \<longrightarrow>
      (fst (Allowed env e p st) = Inr () \<longleftrightarrow>
        oc = None \<and> StateKey e = Some [] \<and>
        (\<exists>d. domainFromID (RoomID e) = Inr d \<and> domainFromID (Sender e) = Inr d))) \<and>
    (EvType e \<noteq> MRoomCreate \<and> oc = None \<longrightarrow>
      (\<exists>msg. fst (Allowed env e p st) = Inl (NotAllowed msg)))"
proof (intro conjI impI)
  assume "EvType e = MRoomCreate"
  then show "fst (Allowed env e p st) = Inr () \<longleftrightarrow> oc = None \<and> StateKey e = Some [] \<and>
        (\<exists>d. domainFromID (RoomID e) = Inr d \<and> domainFromID (Sender e) = Inr d)"
    using assms by (cases oc)
      (auto simp: Allowed_def createEventAllowed_def result_simps StateKeyEquals_def split: option.splits)
next
  assume a: "EvType e \<noteq> MRoomCreate \<and> oc = None"
  then have c: "newCreateContentFromAuthEvents cd p = Inl (NotAllowed ''missing create event'')" for cd
    using assms by (simp add: newCreateContentFromAuthEvents_def)
  show "\<exists>msg. fst (Allowed env e p st) = Inl (NotAllowed msg)"
    using a by (cases "StateKey e")
      (simp_all add: Allowed_def aliasEventAllowed_def memberEventAllowed_def newMembershipAllower_def
        fst_powerLevels fst_redact fst_default newEventAllower_def c)
qed

end
