(* ===== verification/Event_Crypto.thy ===== *)
theory Event_Crypto
  imports Server_Keys Byte_Strings Event_Auth
begin

text \<open>
  Redaction, hashes and signatures of events (\<open>skunkworks/gomatrixserverlib/redactevent.go\<close>, \<open>eventcrypto.go\<close>) and the
  checks of the responses that carry the state of a room (\<open>federationtypes.go\<close>).
\<close>

section \<open>Specification\<close>

subsection \<open>Redaction\<close>

text \<open>
  The structs that \<open>redactEvent\<close> decodes an event into. A raw field that the event does not have is
  empty and left out again when the event is written.
\<close>

record allContent =
  Creator_raw :: string
  JoinRule_raw :: string
  Users_raw :: string
  UsersDefault_raw :: string
  Events_raw :: string
  EventsDefault_raw :: string
  StateDefault_raw :: string
  Ban_raw :: string
  Kick_raw :: string
  Redact_raw :: string
  Membership_raw :: string
  Aliases_raw :: string
  HistoryVisibility_raw :: string

record redactable =
  r_EventID :: string
  r_Sender :: string
  r_RoomID :: string
  r_Hashes :: string
  r_Signatures :: string
  r_Content :: allContent
  r_Type :: string
  r_StateKey :: string
  r_Depth :: string
  r_PrevEvents :: string
  r_PrevState :: string
  r_AuthEvents :: string
  r_Origin :: string
  r_OriginServerTS :: string
  r_Membership :: string

definition newContent :: allContent where
  "newContent = \<lparr>Creator_raw = [], JoinRule_raw = [], Users_raw = [], UsersDefault_raw = [], Events_raw = [],
     EventsDefault_raw = [], StateDefault_raw = [], Ban_raw = [], Kick_raw = [], Redact_raw = [],
     Membership_raw = [], Aliases_raw = [], HistoryVisibility_raw = []\<rparr>"

definition redact_content :: "string \<Rightarrow> allContent \<Rightarrow> allContent" where
  "redact_content ty c =
     (if ty = MRoomCreate then newContent\<lparr>Creator_raw := Creator_raw c\<rparr>
      else if ty = MRoomMember then newContent\<lparr>Membership_raw := Membership_raw c\<rparr>
      else if ty = MRoomJoinRules then newContent\<lparr>JoinRule_raw := JoinRule_raw c\<rparr>
      else if ty = MRoomPowerLevels then
        newContent\<lparr>Users_raw := Users_raw c, UsersDefault_raw := UsersDefault_raw c, Events_raw := Events_raw c,
          EventsDefault_raw := EventsDefault_raw c, StateDefault_raw := StateDefault_raw c,
          Ban_raw := Ban_raw c, Kick_raw := Kick_raw c, Redact_raw := Redact_raw c\<rparr>
      else if ty = MRoomHistoryVisibility then newContent\<lparr>HistoryVisibility_raw := HistoryVisibility_raw c\<rparr>
      else if ty = MRoomAliases then newContent\<lparr>Aliases_raw := Aliases_raw c\<rparr>
      else newContent)"

text \<open>
  The JSON library on these structs and on objects with raw members (\<open>map[string]rawJSON\<close>), the
  SHA-256 digest, and the two functions of gjson and sjson that work on a text directly.
\<close>

record event_lib =
  unmarshalRedactable :: "string \<Rightarrow> redactable result"
  marshalRedactable :: "redactable \<Rightarrow> string result"
  unmarshalRawMap :: "string \<Rightarrow> string smap option result"
  marshalRawMap :: "string smap option \<Rightarrow> string result"
  marshalHashes :: "string \<Rightarrow> string result"
  unmarshalText :: "string \<Rightarrow> string result"
  unmarshalSignedEvent :: "string \<Rightarrow> string result"
  sha256 :: "string \<Rightarrow> string"
  gjson_GetStr :: "string \<Rightarrow> string \<Rightarrow> string"
  sjson_DeleteBytes :: "string \<Rightarrow> string \<Rightarrow> string result"

definition redact_fields :: "redactable \<Rightarrow> redactable" where
  "redact_fields event = event\<lparr>r_Content := redact_content (r_Type event) (r_Content event)\<rparr>"

definition redactEvent :: "event_lib \<Rightarrow> string \<Rightarrow> string result" where
  "redactEvent V eventJSON =
     bindR (unmarshalRedactable V eventJSON) (\<lambda>event. marshalRedactable V (redact_fields event))"

subsection \<open>Hashes and signatures of events\<close>

text \<open>A member of an object with raw members: empty when it is missing.\<close>

definition raw_member :: "string smap option \<Rightarrow> string \<Rightarrow> string" where
  "raw_member m k = (case map_get m k of None \<Rightarrow> [] | Some raw \<Rightarrow> raw)"

definition addContentHashesToEvent :: "event_lib \<Rightarrow> json_lib \<Rightarrow> string \<Rightarrow> string result" where
  "addContentHashesToEvent V L eventJSON =
     bindR (unmarshalRawMap V eventJSON) (\<lambda>event.
     let unsignedJSON = raw_member event ''unsigned'';
         event = map_delete ''hashes'' (map_delete ''unsigned'' event) in
     bindR (marshalRawMap V event) (\<lambda>hashable.
     bindR (CanonicalJSON (lib_gjson L) hashable) (\<lambda>hashable.
     bindR (marshalHashes V (Base64String_Encode (sha256 V hashable))) (\<lambda>hashesJSON.
     bindR (if length unsignedJSON > 0 then map_assign ''unsigned'' unsignedJSON event else Inr event) (\<lambda>event.
     bindR (map_assign ''hashes'' hashesJSON event) (\<lambda>event.
     marshalRawMap V event))))))"

definition checkEventContentHash :: "event_lib \<Rightarrow> string \<Rightarrow> unit result" where
  "checkEventContentHash V eventJSON =
     (let str = gjson_GetStr V eventJSON ''hashes.sha256'' in
      if str = [] then Inr ()
      else
        bindR (Base64String_Decode str) (\<lambda>hash.
        bindR (foldR (\<lambda>key hashable. sjson_DeleteBytes V hashable key)
          [''signatures'', ''unsigned'', ''hashes''] eventJSON) (\<lambda>hashable.
        if sha256 V hashable = hash then Inr () else Inl (Error ''Invalid Sha256 content hash''))))"

text \<open>A reference is the identifier of the event and the digest of its redacted form.\<close>

definition referenceOfEvent :: "event_lib \<Rightarrow> json_lib \<Rightarrow> string \<Rightarrow> (string \<times> string) result" where
  "referenceOfEvent V L eventJSON =
     bindR (redactEvent V eventJSON) (\<lambda>redactedJSON.
     bindR (unmarshalRawMap V redactedJSON) (\<lambda>event.
     let event = map_delete ''unsigned'' (map_delete ''signatures'' event) in
     bindR (marshalRawMap V event) (\<lambda>hashable.
     bindR (CanonicalJSON (lib_gjson L) hashable) (\<lambda>hashable.
     bindR (unmarshalText V (raw_member event ''event_id'')) (\<lambda>eventID.
     Inr (eventID, sha256 V hashable))))))"

definition signEvent ::
  "event_lib \<Rightarrow> json_lib \<Rightarrow> ed25519 \<Rightarrow> string \<Rightarrow> string \<Rightarrow> string \<Rightarrow> string \<Rightarrow> string result" where
  "signEvent V L E signingName keyID privateKey eventJSON =
     bindR (redactEvent V eventJSON) (\<lambda>redactedJSON.
     bindR (SignJSON L E signingName keyID privateKey redactedJSON) (\<lambda>signedJSON.
     bindR (unmarshalSignedEvent V signedJSON) (\<lambda>signatures.
     bindR (unmarshalRawMap V eventJSON) (\<lambda>event.
     bindR (map_assign ''signatures'' signatures event) (\<lambda>event.
     marshalRawMap V event)))))"

definition verifyEventSignature ::
  "event_lib \<Rightarrow> json_lib \<Rightarrow> ed25519 \<Rightarrow> string \<Rightarrow> string \<Rightarrow> string \<Rightarrow> string \<Rightarrow> unit result" where
  "verifyEventSignature V L E signingName keyID publicKey eventJSON =
     bindR (redactEvent V eventJSON) (VerifyJSON L E signingName keyID publicKey)"

text \<open>The redacted form of an event that has been read is written so that it is read back.\<close>

definition redacted_reads_back :: "event_lib \<Rightarrow> bool" where
  "redacted_reads_back V \<longleftrightarrow> (\<forall>t e s. unmarshalRedactable V t = Inr e \<longrightarrow>
     marshalRedactable V (redact_fields e) = Inr s \<longrightarrow> unmarshalRedactable V s = Inr (redact_fields e))"

subsection \<open>Signatures of many events\<close>

text \<open>
  The servers that must have signed an event: the origin, the server of the sender, and for an
  invitation the server of the invited user.
\<close>

definition event_domains :: "'c codec \<Rightarrow> 'c Event \<Rightarrow> string list result" where
  "event_domains cd event =
     bindR (domainFromID (Sender event)) (\<lambda>senderDomain.
     let domains = List.insert senderDomain [Origin event] in
     case StateKey event of
       Some stateKey \<Rightarrow>
         if EvType event = MRoomMember then
           bindR (domainFromID stateKey) (\<lambda>targetDomain.
           if targetDomain \<noteq> Origin event then
             bindR (newMemberContentFromEvent cd event) (\<lambda>c.
             Inr (if Membership c = invite then List.insert targetDomain domains else domains))
           else Inr domains)
         else Inr domains
     | None \<Rightarrow> Inr domains)"

text \<open>The messages to verify for one event; \<open>js\<close> writes an event as JSON.\<close>

definition event_requests ::
  "event_lib \<Rightarrow> 'c codec \<Rightarrow> ('c Event \<Rightarrow> string) \<Rightarrow> 'c Event \<Rightarrow> VerifyJSONRequest list result" where
  "event_requests V cd js event =
     bindR (redactEvent V (js event)) (\<lambda>redactedJSON.
     bindR (event_domains cd event) (\<lambda>domains.
     Inr (map (\<lambda>domain. \<lparr>req_ServerName = domain, AtTS = of_int (OriginServerTS event), Message = redactedJSON\<rparr>) domains)))"

definition collect_requests ::
  "event_lib \<Rightarrow> 'c codec \<Rightarrow> ('c Event \<Rightarrow> string) \<Rightarrow> 'c Event \<Rightarrow>
     VerifyJSONRequest list \<times> nat list list \<Rightarrow> (VerifyJSONRequest list \<times> nat list list) result" where
  "collect_requests V cd js event st = (case st of (toVerify, verificationMap) \<Rightarrow>
     bindR (event_requests V cd js event) (\<lambda>requests.
     Inr (toVerify @ requests, verificationMap @ [[length toVerify ..< length toVerify + length requests]])))"

text \<open>The first error among the results of an event.\<close>

fun first_error :: "VerifyJSONResult list \<Rightarrow> nat list \<Rightarrow> VerifyJSONResult result" where
  "first_error results [] = Inr None"
| "first_error results (i # is) =
     (if i < length results then
        (case results ! i of Some e \<Rightarrow> Inr (Some e) | None \<Rightarrow> first_error results is)
      else Inl (Panic ''index out of range''))"

fun event_errors :: "VerifyJSONResult list \<Rightarrow> nat list list \<Rightarrow> VerifyJSONResult list result" where
  "event_errors results [] = Inr []"
| "event_errors results (is # verificationMap) =
     bindR (first_error results is) (\<lambda>e.
     bindR (event_errors results verificationMap) (\<lambda>es. Inr (e # es)))"

definition VerifyEventSignatures ::
  "event_lib \<Rightarrow> 'c codec \<Rightarrow> ('c Event \<Rightarrow> string) \<Rightarrow> (VerifyJSONRequest list \<Rightarrow> (VerifyJSONResult list, 's) action) \<Rightarrow>
     'c Event list \<Rightarrow> (VerifyJSONResult list, 's) action" where
  "VerifyEventSignatures V cd js verify events =
     bindS (liftS (foldR (collect_requests V cd js) events ([], []))) (\<lambda>(toVerify, verificationMap).
     bindS (verify toVerify) (\<lambda>results.
     liftS (event_errors results verificationMap)))"

definition VerifyAllEventSignatures ::
  "event_lib \<Rightarrow> 'c codec \<Rightarrow> ('c Event \<Rightarrow> string) \<Rightarrow> (VerifyJSONRequest list \<Rightarrow> (VerifyJSONResult list, 's) action) \<Rightarrow>
     'c Event list \<Rightarrow> (unit, 's) action" where
  "VerifyAllEventSignatures V cd js verify events =
     bindS (VerifyEventSignatures V cd js verify events) (\<lambda>verificationErrors.
     case filter (\<lambda>ve. ve \<noteq> None) verificationErrors of
       Some e # _ \<Rightarrow> liftS (Inl e)
     | _ \<Rightarrow> returnS ())"

subsection \<open>Responses with the state of a room\<close>

record 'c RespState =
  StateEvents :: "'c Event list"
  AuthEvents :: "'c Event list"

text \<open>The check against the authorisation events of an event is commented out in the source.\<close>

definition checkAllowedByAuthEvents :: "'c Event \<Rightarrow> 'c Event smap \<Rightarrow> unit result" where
  "checkAllowedByAuthEvents event eventsByID = Inr ()"

definition check_auth_event :: "'c Event \<Rightarrow> 'c Event list \<Rightarrow> 'c Event list result" where
  "check_auth_event event allEvents =
     (if StateKey event = None then Inl (Error ''event does not have a state key'') else Inr (allEvents @ [event]))"

definition check_state_event ::
  "'c Event \<Rightarrow> StateKeyTuple list \<times> 'c Event list \<Rightarrow> (StateKeyTuple list \<times> 'c Event list) result" where
  "check_state_event event st = (case st of (stateTuples, allEvents) \<Rightarrow>
     case StateKey event of
       None \<Rightarrow> Inl (Error ''event does not have a state key'')
     | Some k \<Rightarrow>
         if (EvType event, k) \<in> set stateTuples then Inl (Error ''duplicate state key tuple'')
         else Inr ((EvType event, k) # stateTuples, allEvents @ [event]))"

definition by_id :: "'c Event list \<Rightarrow> 'c Event smap" where
  "by_id events = fold (\<lambda>e m. store (EventID e) e m) events []"

definition RespState_Check ::
  "event_lib \<Rightarrow> 'c codec \<Rightarrow> ('c Event \<Rightarrow> string) \<Rightarrow> (VerifyJSONRequest list \<Rightarrow> (VerifyJSONResult list, 's) action) \<Rightarrow>
     'c RespState \<Rightarrow> (unit, 's) action" where
  "RespState_Check V cd js verify r =
     bindS (liftS (foldR check_auth_event (AuthEvents r) [])) (\<lambda>authEvents.
     bindS (liftS (foldR check_state_event (StateEvents r) ([], authEvents))) (\<lambda>(_, allEvents).
     bindS (VerifyAllEventSignatures V cd js verify allEvents) (\<lambda>_.
     liftS (foldR (\<lambda>event _. checkAllowedByAuthEvents event (by_id allEvents)) allEvents ()))))"

text \<open>The events of a response: each once, the authorisation events over the state events of the same identifier.\<close>

definition RespState_Events :: "'c RespState \<Rightarrow> 'c Event list" where
  "RespState_Events r = map snd (by_id (StateEvents r @ AuthEvents r))"

definition add_state_event :: "'c Event \<Rightarrow> 'c AuthEvents \<Rightarrow> 'c AuthEvents result" where
  "add_state_event event authEvents =
     (case AddEvent event authEvents of (Inl e, _) \<Rightarrow> Inl e | (Inr _, a) \<Rightarrow> Inr a)"

definition RespSendJoin_Check ::
  "event_lib \<Rightarrow> 'c auth_env \<Rightarrow> ('c Event \<Rightarrow> string) \<Rightarrow> (VerifyJSONRequest list \<Rightarrow> (VerifyJSONResult list, 's) action) \<Rightarrow>
     'c RespState \<Rightarrow> 'c Event \<Rightarrow> skip_state \<Rightarrow> (unit \<times> skip_state, 's) action" where
  "RespSendJoin_Check V env js verify r joinEvent st =
     bindS (RespState_Check V (env_codec env) js verify r) (\<lambda>_.
     bindS (liftS (foldR add_state_event (StateEvents r) Map.empty)) (\<lambda>authEvents.
     bindS (liftS (checkAllowedByAuthEvents joinEvent (by_id (StateEvents r)))) (\<lambda>_.
     case Allowed env joinEvent (AuthEvents_provider authEvents) st of
       (Inl (Panic p), st) \<Rightarrow> liftS (Inl (Panic p))
     | (Inl _, st) \<Rightarrow> liftS (Inl (Error ''event is not allowed by the supplied state''))
     | (Inr u, st) \<Rightarrow> returnS (u, st))))"

section \<open>Lemmas\<close>

lemma redact_content_idem: "redact_content ty (redact_content ty c) = redact_content ty c"
  by (simp add: redact_content_def newContent_def)

lemma redact_fields_idem: "redact_fields (redact_fields e) = redact_fields e"
  by (simp add: redact_fields_def redact_content_idem)

lemma redactEvent_idem:
  "redacted_reads_back V \<Longrightarrow> redactEvent V s = Inr r \<Longrightarrow> redactEvent V r = Inr r"
  unfolding redacted_reads_back_def
  by (auto simp: redactEvent_def bindR_Inr_iff redact_fields_idem)

lemma bindS_Inr: "bindS m f s = (Inr y, s') \<longleftrightarrow> (\<exists>x s1. m s = (Inr x, s1) \<and> f x s1 = (Inr y, s'))"
  by (auto simp: bindS_def split: prod.splits sum.splits)

lemma collect_step:
  "collect_requests V cd js e (tv, vm) = Inr st \<longleftrightarrow> (\<exists>rs. event_requests V cd js e = Inr rs \<and>
     st = (tv @ rs, vm @ [[length tv ..< length tv + length rs]]))"
  by (auto simp: collect_requests_def bindR_Inr_iff)

lemma check_auth_step: "check_auth_event e acc = Inr all \<longleftrightarrow> StateKey e \<noteq> None \<and> all = acc @ [e]"
  by (auto simp: check_auth_event_def)

lemma check_state_step:
  "check_state_event e (ts, acc) = Inr st \<longleftrightarrow> (\<exists>k. StateKey e = Some k \<and> (EvType e, k) \<notin> set ts \<and>
     st = ((EvType e, k) # ts, acc @ [e]))"
  by (auto simp: check_state_event_def split: option.splits)

lemma collect_covers:
  "foldR (collect_requests V cd js) events (tv0, vm0) = Inr (tv, vm) \<Longrightarrow>
    (\<exists>more. tv = tv0 @ more) \<and> set vm0 \<subseteq> set vm \<and>
    (\<forall>e \<in> set events. \<exists>rs. event_requests V cd js e = Inr rs \<and>
       (\<forall>r \<in> set rs. \<exists>ids \<in> set vm. \<exists>i \<in> set ids. i < length tv \<and> tv ! i = r))"
proof (induction events arbitrary: tv0 vm0)
  case (Cons e events)
  from Cons.prems obtain rs where e: "event_requests V cd js e = Inr rs"
    and rest: "foldR (collect_requests V cd js) events
      (tv0 @ rs, vm0 @ [[length tv0 ..< length tv0 + length rs]]) = Inr (tv, vm)"
    by (auto simp: collect_step bindR_Inr_iff)
  from Cons.IH [OF rest] obtain more where more: "tv = tv0 @ rs @ more"
    and vm: "set vm0 \<subseteq> set vm" "[length tv0 ..< length tv0 + length rs] \<in> set vm" by auto
  have "\<exists>ids \<in> set vm. \<exists>i \<in> set ids. i < length tv \<and> tv ! i = r" if "r \<in> set rs" for r
  proof -
    from that obtain j where j: "j < length rs" "rs ! j = r" by (auto simp: in_set_conv_nth)
    then have "length tv0 + j \<in> set [length tv0 ..< length tv0 + length rs]" "length tv0 + j < length tv"
      "tv ! (length tv0 + j) = r" by (simp_all add: more nth_append)
    with vm(2) show ?thesis by blast
  qed
  with e more vm(1) Cons.IH [OF rest] show ?case by auto
qed simp

lemma first_error_None:
  "first_error results is = Inr None \<Longrightarrow> i \<in> set is \<Longrightarrow> i < length results \<and> results ! i = None"
  by (induction "is") (auto split: if_splits option.splits)

lemma event_errors_None:
  "event_errors results vm = Inr es \<Longrightarrow> list_all (\<lambda>e. e = None) es \<Longrightarrow> ids \<in> set vm \<Longrightarrow> first_error results ids = Inr None"
  by (induction vm arbitrary: es) (auto simp: bindR_Inr_iff)

lemma VerifyAll_Inr:
  assumes "VerifyAllEventSignatures V cd js verify events s = (Inr (), s')"
  obtains es where "VerifyEventSignatures V cd js verify events s = (Inr es, s')" "list_all (\<lambda>e. e = None) es"
proof -
  from assms obtain es s1 where v: "VerifyEventSignatures V cd js verify events s = (Inr es, s1)"
    and r: "(case filter (\<lambda>ve. ve \<noteq> None) es of Some e # _ \<Rightarrow> liftS (Inl e) | _ \<Rightarrow> returnS ()) s1 = (Inr (), s')"
    by (auto simp: VerifyAllEventSignatures_def bindS_Inr)
  have "filter (\<lambda>ve. ve \<noteq> None) es = []"
  proof (cases "filter (\<lambda>ve. ve \<noteq> None) es")
    case (Cons a list)
    then have "a \<in> set (filter (\<lambda>ve. ve \<noteq> None) es)" by simp
    then obtain x where "a = Some x" by auto
    with r Cons show ?thesis by simp
  qed
  then have "list_all (\<lambda>e. e = None) es" "s1 = s'" using r by (auto simp: filter_empty_conv list_all_iff)
  with v that show thesis by blast
qed

context json_verifier
begin

lemma all_events_genuine:
  assumes "VerifyAllEventSignatures V cd js verify events s = (Inr (), s')" "e \<in> set events"
  shows "\<exists>rs. event_requests V cd js e = Inr rs \<and> (\<forall>r \<in> set rs. genuine r)"
proof -
  from VerifyAll_Inr [OF assms(1)] obtain es where
    v: "VerifyEventSignatures V cd js verify events s = (Inr es, s')" and es: "list_all (\<lambda>e. e = None) es" .
  from v obtain tv vm results s1 where c: "foldR (collect_requests V cd js) events ([], []) = Inr (tv, vm)"
    and f: "verify tv s = (Inr results, s1)" and ee: "event_errors results vm = Inr es"
    by (auto simp: VerifyEventSignatures_def bindS_Inr)
  from collect_covers [OF c] assms(2) obtain rs where rs: "event_requests V cd js e = Inr rs"
    and cov: "\<And>r. r \<in> set rs \<Longrightarrow> \<exists>ids \<in> set vm. \<exists>i \<in> set ids. i < length tv \<and> tv ! i = r" by blast
  have "genuine r" if "r \<in> set rs" for r
  proof -
    from cov [OF that] obtain ids i where i: "ids \<in> set vm" "i \<in> set ids" "i < length tv" "tv ! i = r" by blast
    from first_error_None [OF event_errors_None [OF ee es i(1)] i(2)] have "results ! i = None" by simp
    from verify_nth [OF f i(3) this] i(4) show ?thesis by simp
  qed
  with rs show ?thesis by blast
qed

end

lemma event_domains_cover:
  assumes "event_domains cd e = Inr ds"
  shows "Origin e \<in> set ds" "domainFromID (Sender e) = Inr d \<Longrightarrow> d \<in> set ds"
    "EvType e = MRoomMember \<Longrightarrow> StateKey e = Some k \<Longrightarrow> domainFromID k = Inr d \<Longrightarrow>
       newMemberContentFromEvent cd e = Inr c \<Longrightarrow> Membership c = invite \<Longrightarrow> d \<in> set ds"
proof -
  from assms obtain x where x: "domainFromID (Sender e) = Inr x" by (auto simp: event_domains_def bindR_Inr_iff)
  with assms show o: "Origin e \<in> set ds" and "domainFromID (Sender e) = Inr d \<Longrightarrow> d \<in> set ds"
    by (auto simp: event_domains_def Let_def bindR_Inr_iff split: option.splits if_splits)
  show "d \<in> set ds" if m: "EvType e = MRoomMember" "StateKey e = Some k" "domainFromID k = Inr d"
    "newMemberContentFromEvent cd e = Inr c" "Membership c = invite"
  proof (cases "d = Origin e")
    case False
    with m x assms have "Inr (List.insert d (List.insert x [Origin e])) = (Inr ds :: string list result)"
      by (simp add: event_domains_def)
    then have "set ds = insert d (set (List.insert x [Origin e]))" by (metis set_insert sum.inject(2))
    then show ?thesis by simp
  qed (use o in simp)
qed

lemma check_auth_events: "foldR check_auth_event es acc = Inr all \<Longrightarrow> all = acc @ es \<and> (\<forall>e \<in> set es. StateKey e \<noteq> None)"
  by (induction es arbitrary: acc) (fastforce simp: check_auth_step bindR_Inr_iff)+

lemma check_state_events:
  "foldR check_state_event es (ts, acc) = Inr (ts', all) \<Longrightarrow> all = acc @ es \<and> (\<forall>e \<in> set es. StateKey e \<noteq> None) \<and>
    (distinct ts \<longrightarrow> distinct (map (\<lambda>e. (EvType e, the (StateKey e))) es @ ts))"
proof (induction es arbitrary: ts acc)
  case (Cons e es)
  from Cons.prems obtain k where k: "StateKey e = Some k" "(EvType e, k) \<notin> set ts"
    and rest: "foldR check_state_event es ((EvType e, k) # ts, acc @ [e]) = Inr (ts', all)"
    by (auto simp: check_state_step bindR_Inr_iff)
  from Cons.IH [OF rest] k show ?case by auto
qed simp

lemma RespState_Check_Inr:
  assumes "RespState_Check V cd js verify r s = (Inr (), s')"
  shows "VerifyAllEventSignatures V cd js verify (AuthEvents r @ StateEvents r) s = (Inr (), s')"
    "\<forall>e \<in> set (AuthEvents r @ StateEvents r). StateKey e \<noteq> None"
    "distinct (map (\<lambda>e. (EvType e, the (StateKey e))) (StateEvents r))"
proof -
  from assms obtain auth ts all s1 where a: "foldR check_auth_event (AuthEvents r) [] = Inr auth"
    and st: "foldR check_state_event (StateEvents r) ([], auth) = Inr (ts, all)"
    and v: "VerifyAllEventSignatures V cd js verify all s = (Inr (), s1)" and s1: "s1 = s'"
    by (auto simp: RespState_Check_def bindS_Inr)
  note a' = check_auth_events [OF a] and st' = check_state_events [OF st]
  show "VerifyAllEventSignatures V cd js verify (AuthEvents r @ StateEvents r) s = (Inr (), s')"
    using v s1 a' st' by simp
  show "\<forall>e \<in> set (AuthEvents r @ StateEvents r). StateKey e \<noteq> None"
    "distinct (map (\<lambda>e. (EvType e, the (StateKey e))) (StateEvents r))"
    using a' st' by auto
qed

section \<open>Properties\<close>

text \<open>
  Redacting an event that is already redacted changes nothing, and an event and its redacted form
  have the same reference and pass the same signature checks: a signature stays valid when the event
  is redacted.
\<close>

theorem redaction_keeps_signatures:
  assumes "redacted_reads_back V" "redactEvent V s = Inr r"
  shows "redactEvent V r = Inr r \<and> referenceOfEvent V L r = referenceOfEvent V L s \<and>
    verifyEventSignature V L E name kid pk r = verifyEventSignature V L E name kid pk s"
  using redactEvent_idem [OF assms] assms(2)
  by (simp add: referenceOfEvent_def verifyEventSignature_def)

text \<open>
  C14. When the response with the state of a room passes its check against a key ring, every event of it has a
  state key, no two state events have the same type and state key, and the redacted form of every event carries
  valid signatures of its origin, of the server of its sender, and for an invitation of the server of the
  invited user, each at the time of the event.
\<close>

theorem state_response_signed:
  assumes "RespState_Check V cd js (VerifyJSONs L E k) r s = (Inr (), s')" "e \<in> set (AuthEvents r @ StateEvents r)"
  shows "StateKey e \<noteq> None \<and> distinct (map (\<lambda>e. (EvType e, the (StateKey e))) (StateEvents r)) \<and>
    (\<exists>redacted senderDomain. redactEvent V (js e) = Inr redacted \<and> domainFromID (Sender e) = Inr senderDomain \<and>
      (\<forall>d. d = Origin e \<or> d = senderDomain \<or>
           (EvType e = MRoomMember \<and> domainFromID (the (StateKey e)) = Inr d \<and>
            (\<exists>c. newMemberContentFromEvent cd e = Inr c \<and> Membership c = invite)) \<longrightarrow>
         vouched L E k \<lparr>req_ServerName = d, AtTS = of_int (OriginServerTS e), Message = redacted\<rparr>))"
proof -
  note c = RespState_Check_Inr [OF assms(1)]
  from ring.all_events_genuine [OF c(1) assms(2)] obtain rs where rs: "event_requests V cd js e = Inr rs"
    "\<And>r. r \<in> set rs \<Longrightarrow> vouched L E k r" by blast
  from rs(1) obtain redacted ds where r: "redactEvent V (js e) = Inr redacted" and ds: "event_domains cd e = Inr ds"
    and eq: "rs = map (\<lambda>d. \<lparr>req_ServerName = d, AtTS = of_int (OriginServerTS e), Message = redacted\<rparr>) ds"
    by (auto simp: event_requests_def bindR_Inr_iff)
  from ds obtain sd where sd: "domainFromID (Sender e) = Inr sd" by (auto simp: event_domains_def bindR_Inr_iff)
  obtain sk where sk: "StateKey e = Some sk" using c(2) assms(2) by blast
  note cov = event_domains_cover [OF ds]
  have v: "vouched L E k \<lparr>req_ServerName = d, AtTS = of_int (OriginServerTS e), Message = redacted\<rparr>" if "d \<in> set ds" for d
    using that rs(2) eq by simp
  show ?thesis using c(2,3) assms(2) r sd v cov(1) cov(2) [OF sd] cov(3) [OF _ sk] sk by auto
qed

end
