(* ===== verification/Federation_Requests.thy ===== *)
theory Federation_Requests
  imports Server_Keys
begin

text \<open>
  Requests between servers (\<open>skunkworks/gomatrixserverlib/request.go\<close>): writing one as an HTTP request, reading it back,
  and the entry that receives it (\<open>common/httpapi.go\<close>, \<open>proxy/routing/processor.go\<close>).
\<close>

section \<open>Specification\<close>

subsection \<open>Strings\<close>

text \<open>\<open>strings.Split\<close> with a separator of one byte, \<open>strings.Trim\<close> with the cut set of one quote.\<close>

fun str_split :: "char \<Rightarrow> string \<Rightarrow> string list" where
  "str_split c [] = [[]]"
| "str_split c (x # s) =
     (if x = c then [] # str_split c s
      else (case str_split c s of [] \<Rightarrow> [[x]] | p # ps \<Rightarrow> (x # p) # ps))"

definition trim_quotes :: "string \<Rightarrow> string" where
  "trim_quotes s = rev (dropWhile (\<lambda>c. c = quote) (rev (dropWhile (\<lambda>c. c = quote) s)))"

text \<open>\<open>strings.ToUpper\<close> of an ASCII string.\<close>

definition toUpper :: "string \<Rightarrow> string" where
  "toUpper = map (\<lambda>c. if CHR ''a'' \<le> c \<and> c \<le> CHR ''z'' then char_of (of_char c - 32 :: nat) else c)"

subsection \<open>Requests between servers\<close>

record FederationRequest =
  fr_Content :: "string option"
  fr_Destination :: string
  fr_Method :: string
  fr_Origin :: string
  fr_RequestURI :: string
  fr_Signatures :: "string smap smap option"

text \<open>What is used of \<open>net/http\<close>: a request with its headers, and what parsing a URL gives; an empty method is \<open>GET\<close>.\<close>

record http_request =
  http_Method :: string
  http_RequestURI :: string
  http_Body :: "string result"
  http_ContentType :: string
  http_Authorization :: "string list"

record http_lib =
  NewRequest_URI :: "string \<Rightarrow> string \<Rightarrow> string result"
  marshalContent :: "FederationRequest \<Rightarrow> string result"
  unmarshalContent :: "string \<Rightarrow> FederationRequest \<Rightarrow> unit result \<times> FederationRequest"

definition NewFederationRequest :: "string \<Rightarrow> string \<Rightarrow> string \<Rightarrow> FederationRequest" where
  "NewFederationRequest method destination requestURI =
     \<lparr>fr_Content = None, fr_Destination = destination, fr_Method = toUpper method, fr_Origin = [],
      fr_RequestURI = requestURI, fr_Signatures = None\<rparr>"

text \<open>The argument is the content as the JSON library writes it.\<close>

definition FederationRequest_SetContent :: "string result \<Rightarrow> FederationRequest \<Rightarrow> FederationRequest result" where
  "FederationRequest_SetContent data r =
     (if fr_Content r \<noteq> None then Inl (Error ''gomatrixserverlib: content already set on the request'')
      else if fr_Signatures r \<noteq> None then Inl (Error ''gomatrixserverlib: the request is signed and cannot be modified'')
      else bindR data (\<lambda>data. Inr (r\<lparr>fr_Content := Some data\<rparr>)))"

text \<open>The request is changed in place: its origin is set also when signing fails afterwards.\<close>

definition FederationRequest_Sign ::
  "http_lib \<Rightarrow> json_lib \<Rightarrow> ed25519 \<Rightarrow> string \<Rightarrow> string \<Rightarrow> string \<Rightarrow> FederationRequest \<Rightarrow> unit result \<times> FederationRequest" where
  "FederationRequest_Sign H L E serverName keyID privateKey r =
     (if fr_Origin r \<noteq> [] \<and> fr_Origin r \<noteq> serverName
      then (Inl (Error ''gomatrixserverlib: the request is already signed by a different server''), r)
      else
        let r = r\<lparr>fr_Origin := serverName\<rparr> in
        case bindR (marshalContent H r) (SignJSON L E serverName keyID privateKey) of
          Inl err \<Rightarrow> (Inl err, r)
        | Inr signedData \<Rightarrow> unmarshalContent H signedData r)"

definition safe_byte :: "char \<Rightarrow> bool" where
  "safe_byte c = (let n = of_char c :: nat in
     n = 0x09 \<or> n = 0x20 \<or> n = 0x21 \<or> (0x23 \<le> n \<and> n \<le> 0x5B) \<or> (0x5D \<le> n \<and> n \<le> 0x7E) \<or> (0x80 \<le> n \<and> n \<le> 0xFF))"

definition isSafeInHTTPQuotedString :: "string \<Rightarrow> bool" where
  "isSafeInHTTPQuotedString t = list_all safe_byte t"

definition authorization_header :: "string \<Rightarrow> string \<Rightarrow> string \<Rightarrow> string" where
  "authorization_header origin key sig =
     ''X-Matrix origin='' @ [quote] @ origin @ [quote] @ '',key='' @ [quote] @ key @ [quote] @ '',sig='' @ [quote] @ sig @ [quote]"

definition HTTPRequest :: "http_lib \<Rightarrow> string \<Rightarrow> FederationRequest \<Rightarrow> http_request result" where
  "HTTPRequest H proto r =
     (let proto = (if proto = [] then ''http'' else proto);
          urlStr = proto @ ''://'' @ fr_Destination r @ fr_RequestURI r in
      bindR (NewRequest_URI H (fr_Method r) urlStr) (\<lambda>uri.
      if uri \<noteq> fr_RequestURI r then Inl (Error ''gomatrixserverlib: Request URI did not encode properly'')
      else if \<not> isSafeInHTTPQuotedString (fr_Origin r)
      then Inl (Error ''gomatrixserverlib: Request Origin is not safe to include in an HTTP header'')
      else Inr \<lparr>http_Method = (if fr_Method r = [] then ''GET'' else fr_Method r), http_RequestURI = uri,
        http_Body = Inr (case fr_Content r of None \<Rightarrow> [] | Some content \<Rightarrow> content),
        http_ContentType = (case fr_Content r of None \<Rightarrow> [] | Some _ \<Rightarrow> ''application/json''),
        http_Authorization = [authorization_header (fr_Origin r) ''emptykey'' ''emptysig'']\<rparr>))"

text \<open>One \<open>name=value\<close> pair of the header; the last pair of a name wins.\<close>

definition auth_pair :: "string \<Rightarrow> string \<times> string \<times> string \<Rightarrow> string \<times> string \<times> string" where
  "auth_pair data st = (case st of (origin, key, sig) \<Rightarrow>
     case splitN2 (CHR ''='') data of
       [name, v] \<Rightarrow>
         let value = trim_quotes v in
         (if name = ''origin'' then value else origin,
          if name = ''key'' then value else key,
          if name = ''sig'' then value else sig)
     | _ \<Rightarrow> (origin, key, sig))"

definition parseAuthorization :: "string \<Rightarrow> string \<times> string \<times> string \<times> string" where
  "parseAuthorization header =
     (case splitN2 (CHR '' '') header of
        [scheme, rest] \<Rightarrow>
          if scheme \<noteq> ''X-Matrix'' then (scheme, [], [], [])
          else (scheme, fold auth_pair (str_split (CHR '','') rest) ([], [], []))
      | parts \<Rightarrow> (hd parts, [], [], []))"

definition read_authorization :: "string \<Rightarrow> FederationRequest \<Rightarrow> FederationRequest result" where
  "read_authorization authorization result =
     (case parseAuthorization authorization of (scheme, origin, key, sig) \<Rightarrow>
        if scheme \<noteq> ''X-Matrix'' then Inr result
        else if origin = [] \<or> key = [] \<or> sig = []
        then Inl (Error ''gomatrixserverlib: invalid X-Matrix authorization header'')
        else if fr_Origin result \<noteq> [] \<and> fr_Origin result \<noteq> origin
        then Inl (Error ''gomatrixserverlib: different origins in X-Matrix authorization headers'')
        else Inr (result\<lparr>fr_Origin := origin,
          fr_Signatures := (case fr_Signatures result of
              None \<Rightarrow> Some [(origin, [(key, sig)])]
            | Some m \<Rightarrow> Some (store origin (store key sig (case map_of m origin of None \<Rightarrow> [] | Some ks \<Rightarrow> ks)) m))\<rparr>))"

definition readHTTPRequest :: "http_request \<Rightarrow> FederationRequest result" where
  "readHTTPRequest req =
     bindR (http_Body req) (\<lambda>content.
     bindR (if content = [] then Inr None
            else if http_ContentType req \<noteq> ''application/json''
            then Inl (Error ''gomatrixserverlib: The request must be application/json'')
            else Inr (Some content)) (\<lambda>content.
     foldR read_authorization (http_Authorization req)
       \<lparr>fr_Content = content, fr_Destination = [], fr_Method = http_Method req, fr_Origin = [],
        fr_RequestURI = http_RequestURI req, fr_Signatures = None\<rparr>))"

text \<open>The request, if it is accepted, and the code of the response. \<open>now\<close> is in nanoseconds after 1970.\<close>

definition VerifyHTTPRequest ::
  "http_lib \<Rightarrow> http_request \<Rightarrow> int \<Rightarrow> string \<Rightarrow> (VerifyJSONRequest list \<Rightarrow> (VerifyJSONResult list, 's) action) option \<Rightarrow>
     (FederationRequest option \<times> nat, 's) action" where
  "VerifyHTTPRequest H req now destination keys =
     (case readHTTPRequest req of
        Inl _ \<Rightarrow> returnS (None, 400)
      | Inr request \<Rightarrow>
          let request = request\<lparr>fr_Destination := destination\<rparr> in
          case marshalContent H request of
            Inl _ \<Rightarrow> returnS (None, 400)
          | Inr toVerify \<Rightarrow>
              if fr_Origin request = [] then returnS (None, 401)
              else
                (case keys of
                   None \<Rightarrow> returnS (Some request, 200)
                 | Some verify \<Rightarrow>
                     bindS (tryS (verify [\<lparr>req_ServerName = fr_Origin request, AtTS = of_int (now div 1000000), Message = toVerify\<rparr>]))
                       (\<lambda>r. case r of
                          Inl (Panic p) \<Rightarrow> liftS (Inl (Panic p))
                        | Inl _ \<Rightarrow> returnS (None, 500)
                        | Inr [] \<Rightarrow> liftS (Inl (Panic ''index out of range''))
                        | Inr (None # _) \<Rightarrow> returnS (Some request, 200)
                        | Inr (Some _ # _) \<Rightarrow> returnS (None, 401))))"

subsection \<open>The entry for other servers\<close>

text \<open>
  The handler that \<open>MakeFedAPI\<close> wraps calls the verification without keys. \<open>known\<close> are the domains of
  the white list; \<open>process\<close> reads the rest of the request and runs its processor.
\<close>

definition FilterRequest :: "string list \<Rightarrow> FederationRequest \<Rightarrow> bool" where
  "FilterRequest known req = (fr_Origin req \<in> set known)"

definition fed_handler ::
  "string list \<Rightarrow> (FederationRequest \<Rightarrow> (nat, 's) action) \<Rightarrow> FederationRequest option \<Rightarrow> (nat, 's) action" where
  "fed_handler known process request =
     (case request of
        None \<Rightarrow> returnS 500
      | Some request \<Rightarrow> if \<not> FilterRequest known request then returnS 500 else process request)"

definition MakeFedAPI ::
  "http_lib \<Rightarrow> int \<Rightarrow> string \<Rightarrow> (FederationRequest option \<Rightarrow> (nat, 's) action) \<Rightarrow> http_request \<Rightarrow> (nat, 's) action" where
  "MakeFedAPI H now serverName f req =
     bindS (VerifyHTTPRequest H req now serverName None) (\<lambda>(fedReq, _). f fedReq)"

section \<open>Lemmas\<close>

lemma str_split_append: "c \<notin> set a \<Longrightarrow> str_split c (a @ c # b) = a # str_split c b"
  by (induction a) auto

lemma str_split_single: "c \<notin> set a \<Longrightarrow> str_split c a = [a]"
  by (induction a) auto

lemma splitN2_append: "c \<notin> set a \<Longrightarrow> splitN2 c (a @ c # b) = [a, b]"
  by (simp add: splitN2_two_iff)

lemma dropWhile_none: "c \<notin> set s \<Longrightarrow> dropWhile (\<lambda>x. x = c) s = s"
  by (cases s) auto

lemma trim_quoted: "quote \<notin> set s \<Longrightarrow> trim_quotes (quote # s @ [quote]) = s"
proof -
  assume s: "quote \<notin> set s"
  have "dropWhile (\<lambda>c. c = quote) (s @ [quote]) = s @ (if s = [] then [] else [quote])"
    using s by (cases s) auto
  then show ?thesis using dropWhile_none [of quote "rev s"] s by (auto simp: trim_quotes_def)
qed

lemma parse_header:
  assumes "quote \<notin> set d" "quote \<notin> set k" "quote \<notin> set s" "CHR '','' \<notin> set d" "CHR '','' \<notin> set k" "CHR '','' \<notin> set s"
  shows "parseAuthorization (authorization_header d k s) = (''X-Matrix'', d, k, s)"
proof -
  define q where "q n v = n @ CHR ''='' # quote # v @ [quote]" for n v
  have h: "authorization_header d k s = ''X-Matrix'' @ CHR '' '' # (q ''origin'' d @ CHR '','' # q ''key'' k @ CHR '','' # q ''sig'' s)"
    by (simp add: authorization_header_def q_def)
  have split: "splitN2 (CHR '' '') (authorization_header d k s) =
      [''X-Matrix'', q ''origin'' d @ CHR '','' # q ''key'' k @ CHR '','' # q ''sig'' s]"
    unfolding h by (rule splitN2_append) simp
  have parts: "str_split (CHR '','') (q ''origin'' d @ CHR '','' # q ''key'' k @ CHR '','' # q ''sig'' s) =
      [q ''origin'' d, q ''key'' k, q ''sig'' s]"
  proof -
    have "CHR '','' \<notin> set (q ''origin'' d)" "CHR '','' \<notin> set (q ''key'' k)" "CHR '','' \<notin> set (q ''sig'' s)"
      using assms by (simp_all add: q_def)
    then show ?thesis by (simp only: str_split_append str_split_single not_False_eq_True)
  qed
  have pair: "auth_pair (q n v) (a, b, c) = (if n = ''origin'' then v else a, if n = ''key'' then v else b, if n = ''sig'' then v else c)"
    if "quote \<notin> set v" "CHR ''='' \<notin> set n" for n v a b c
    using that by (simp add: auth_pair_def q_def splitN2_append trim_quoted Let_def)
  show ?thesis unfolding parseAuthorization_def split using assms by (simp add: parts pair)
qed

lemma safe_no_quote: "isSafeInHTTPQuotedString t \<Longrightarrow> quote \<notin> set t"
  by (auto simp: isSafeInHTTPQuotedString_def list_all_iff safe_byte_def)

lemma read_header:
  assumes "quote \<notin> set d" "quote \<notin> set k" "quote \<notin> set s" "CHR '','' \<notin> set d" "CHR '','' \<notin> set k" "CHR '','' \<notin> set s"
    "d \<noteq> []" "k \<noteq> []" "s \<noteq> []" "fr_Origin r = []" "fr_Signatures r = None"
  shows "read_authorization (authorization_header d k s) r =
    Inr (r\<lparr>fr_Origin := d, fr_Signatures := Some [(d, [(k, s)])]\<rparr>)"
  using assms by (simp add: read_authorization_def parse_header)

context json_verifier
begin

lemma accepted_request_genuine:
  assumes "VerifyHTTPRequest H req now destination (Some verify) s = (Inr (Some r, code), s')"
  shows "\<exists>msg. marshalContent H r = Inr msg \<and>
    genuine \<lparr>req_ServerName = fr_Origin r, AtTS = of_int (now div 1000000), Message = msg\<rparr>"
proof -
  from assms obtain r0 msg where r0: "readHTTPRequest req = Inr r0"
    and m: "marshalContent H (r0\<lparr>fr_Destination := destination\<rparr>) = Inr msg"
    and o: "fr_Origin r0 \<noteq> []"
    by (auto simp: VerifyHTTPRequest_def Let_def split: sum.splits if_splits)
  let ?q = "[\<lparr>req_ServerName = fr_Origin r0, AtTS = of_int (now div 1000000), Message = msg\<rparr>]"
  obtain v s1 where v: "verify ?q s = (v, s1)" by (cases "verify ?q s")
  then have t: "tryS (verify ?q) s = (Inr v, s1)" by (simp add: tryS_def)
  have "(case v of
        Inl (Panic p) \<Rightarrow> liftS (Inl (Panic p))
      | Inl _ \<Rightarrow> returnS (None, 500)
      | Inr [] \<Rightarrow> liftS (Inl (Panic ''index out of range''))
      | Inr (None # _) \<Rightarrow> returnS (Some (r0\<lparr>fr_Destination := destination\<rparr>), 200)
      | Inr (Some _ # _) \<Rightarrow> returnS (None, 401)) s1 = (Inr (Some r, code), s')"
    using assms by (simp add: VerifyHTTPRequest_def r0 m o Let_def bindS_def t v)
  then obtain rest where "v = Inr (None # rest)" "r = r0\<lparr>fr_Destination := destination\<rparr>"
    by (auto split: sum.splits go_error.splits list.splits option.splits)
  with verify_nth [of ?q s "None # rest" s1 0] v m show ?thesis by simp
qed

end

text \<open>With the key ring, which the entry does not use, only requests signed by their origin are accepted.\<close>

lemma key_ring_request_genuine:
  assumes "VerifyHTTPRequest H req now destination (Some (VerifyJSONs L E k)) s = (Inr (Some r, code), s')"
  shows "\<exists>msg. marshalContent H r = Inr msg \<and>
    vouched L E k \<lparr>req_ServerName = fr_Origin r, AtTS = of_int (now div 1000000), Message = msg\<rparr>"
  using assms by (rule ring.accepted_request_genuine)

section \<open>Properties\<close>


text \<open>
  C18. The entry for other servers does not check who sends a request: for every domain of the white list, a
  request that names it as its origin, with any key and any signature, is handed to its processor as a
  request of that domain.
\<close>

theorem federation_origin_unchecked:
  assumes "d \<in> set known" "quote \<notin> set d" "CHR '','' \<notin> set d" "d \<noteq> []"
    "quote \<notin> set k" "CHR '','' \<notin> set k" "k \<noteq> []" "quote \<notin> set sg" "CHR '','' \<notin> set sg" "sg \<noteq> []"
    "http_Body req = Inr body" "body = [] \<or> http_ContentType req = ''application/json''"
    "http_Authorization req = [authorization_header d k sg]"
    "\<And>r. \<exists>msg. marshalContent H r = Inr msg"
  shows "\<exists>r. fr_Origin r = d \<and> fr_Method r = http_Method req \<and> fr_RequestURI r = http_RequestURI req \<and>
    fr_Content r = (if body = [] then None else Some body) \<and>
    MakeFedAPI H now serverName (fed_handler known process) req s = process r s"
proof -
  define r where "r = \<lparr>fr_Content = (if body = [] then None else Some body), fr_Destination = serverName,
    fr_Method = http_Method req, fr_Origin = d, fr_RequestURI = http_RequestURI req, fr_Signatures = Some [(d, [(k, sg)])]\<rparr>"
  have "readHTTPRequest req = Inr (r\<lparr>fr_Destination := []\<rparr>)"
    using assms by (auto simp: readHTTPRequest_def read_header r_def)
  moreover obtain msg where "marshalContent H r = Inr msg" using assms(14) by blast
  moreover have "fr_Origin r = d" by (simp add: r_def)
  ultimately have "VerifyHTTPRequest H req now serverName None s = (Inr (Some r, 200), s)"
    using assms(4) by (simp add: VerifyHTTPRequest_def) (simp add: r_def)
  then have "MakeFedAPI H now serverName (fed_handler known process) req s = process r s"
    using assms(1) by (simp add: MakeFedAPI_def fed_handler_def FilterRequest_def r_def)
  then show ?thesis by (intro exI [of _ r]) (simp add: r_def)
qed

end
