(* ===== verification/Sample_Signing.thy ===== *)
theory Sample_Signing
  imports Event_Crypto Federation_Requests
begin

text \<open>
  A small JSON library that knows an empty object and the same object signed, a signature scheme, the keys of
  one server, an event of it and a request from it, and witnesses: the message is signed and verified, the keys
  pass their checks, and the key ring fetches them and accepts the message.
\<close>

section \<open>Specification\<close>

text \<open>The signature of a message is its first 64 bytes, filled up.\<close>

definition sample_sign :: "string \<Rightarrow> string" where
  "sample_sign m = take 64 (m @ replicate 64 (CHR ''x''))"

definition sample_ed25519 :: ed25519 where
  "sample_ed25519 = \<lparr>ed25519_Sign = (\<lambda>_. sample_sign), ed25519_Verify = (\<lambda>_ m s. s = sample_sign m)\<rparr>"

definition sample_key :: string where
  "sample_key = replicate 32 (CHR ''k'')"

definition sample_signatures :: "string smap option smap" where
  "sample_signatures = [(''srv'', Some [(''ed25519:a'', sample_sign ''{}'')])]"

definition empty_gjson :: gjson where
  "empty_gjson = \<lparr>Valid = (\<lambda>_. True), ParseBytes = (\<lambda>s. GResult s 0 s (IsObject []))\<rparr>"

definition sample_lib :: json_lib where
  "sample_lib = \<lparr>lib_gjson = empty_gjson,
     unmarshalObject = (\<lambda>s.
       if s = ''{}'' then Inr (Some [])
       else if s = ''{signed}'' then Inr (Some [(''signatures'', Some ''{sigs}'')])
       else Inl (Error ''json'')),
     marshalObject = (\<lambda>ob.
       if ob = Some [] then Inr ''{}''
       else if ob = Some [(''signatures'', Some ''{sigs}'')] then Inr ''{signed}''
       else Inl (Error ''json'')),
     unmarshalSignatures = (\<lambda>s. if s = ''{sigs}'' then Inr (Some sample_signatures) else Inl (Error ''json'')),
     marshalSignatures = (\<lambda>m. if m = Some sample_signatures then Inr ''{sigs}'' else Inl (Error ''json'')),
     unmarshalSignatureKeys = (\<lambda>s. if s = ''{signed}'' then Inr (Some sample_signatures) else Inl (Error ''json''))\<rparr>"

definition sample_keys :: ServerKeys where
  "sample_keys = \<lparr>Raw_keys = ''{signed}'', ServerName = ''srv'', TLSFingerprints = [replicate 32 (CHR ''f'')],
     VerifyKeys = [(''ed25519:a'', sample_key)], ValidUntilTS = 10,
     OldVerifyKeys = [(''ed25519:b'', \<lparr>OldKey = sample_key, ExpiredTS = 5\<rparr>)]\<rparr>"

definition sample_client :: "unit key_client" where
  "sample_client = \<lparr>GetServerKeys = (\<lambda>_. returnS sample_keys), LookupServerKeys = (\<lambda>_ _. returnS [])\<rparr>"

definition sample_ring :: "unit KeyRing" where
  "sample_ring = CreateKeyRing sample_lib sample_ed25519 id sample_client (\<lambda>_. returnS []) (\<lambda>_. returnS ())"

definition sample_results :: key_results where
  "sample_results = [((''srv'', ''ed25519:a''), \<lparr>lookup_Key = sample_key, lookup_ExpiredTS = 0, lookup_ValidUntilTS = 10\<rparr>),
     ((''srv'', ''ed25519:b''), \<lparr>lookup_Key = sample_key, lookup_ExpiredTS = 5, lookup_ValidUntilTS = 0\<rparr>)]"

definition sample_request :: VerifyJSONRequest where
  "sample_request = \<lparr>req_ServerName = ''srv'', AtTS = 7, Message = ''{signed}''\<rparr>"

definition sample_redactable :: redactable where
  "sample_redactable = \<lparr>r_EventID = ''e'', r_Sender = ''s'', r_RoomID = ''r'', r_Hashes = [], r_Signatures = [],
     r_Content = newContent\<lparr>Creator_raw := ''s'', JoinRule_raw := ''public''\<rparr>, r_Type = MRoomCreate, r_StateKey = [],
     r_Depth = [], r_PrevEvents = [], r_PrevState = [], r_AuthEvents = [], r_Origin = ''srv'',
     r_OriginServerTS = [], r_Membership = []\<rparr>"

text \<open>The event in full is the text \<open>{event}\<close>, its redacted form the signed object.\<close>

definition sample_event_lib :: event_lib where
  "sample_event_lib = \<lparr>
     unmarshalRedactable = (\<lambda>s.
       if s = ''{event}'' then Inr sample_redactable
       else if s = ''{signed}'' then Inr (redact_fields sample_redactable) else Inl (Error ''json'')),
     marshalRedactable = (\<lambda>e. if e = redact_fields sample_redactable then Inr ''{signed}'' else Inl (Error ''json'')),
     unmarshalRawMap = (\<lambda>_. Inl (Error ''json'')), marshalRawMap = (\<lambda>_. Inl (Error ''json'')),
     marshalHashes = (\<lambda>_. Inl (Error ''json'')), unmarshalText = (\<lambda>_. Inl (Error ''json'')),
     unmarshalSignedEvent = (\<lambda>_. Inl (Error ''json'')), sha256 = id,
     gjson_GetStr = (\<lambda>_ _. []), sjson_DeleteBytes = (\<lambda>s _. Inr s)\<rparr>"

definition signed_event :: "unit Event" where
  "signed_event = \<lparr>RoomID = ''!r:srv'', EventID = ''$e:srv'', EventNID = 1, DomainOffset = 1, Sender = ''@a:srv'',
     EvType = MRoomCreate, StateKey = Some [], Content = (), Redacts = [], Depth = 1, Unsigned = (),
     OriginServerTS = 7, Origin = ''srv'', RedactsSender = []\<rparr>"

definition blank_codec :: "unit codec" where
  "blank_codec = \<lparr>dec_create = (\<lambda>_. None), dec_member = (\<lambda>_. None), dec_join_rule = (\<lambda>_. None),
     dec_public_keys = (\<lambda>_. None), dec_levels = (\<lambda>_. None), as_int64 = (\<lambda>_. None), as_string = (\<lambda>_. None),
     as_float_truncated = (\<lambda>_. None)\<rparr>"

definition sample_response :: "unit RespState" where
  "sample_response = \<lparr>StateEvents = [signed_event], AuthEvents = []\<rparr>"

definition sample_federation_request :: FederationRequest where
  "sample_federation_request = \<lparr>fr_Content = Some ''{}'', fr_Destination = ''dest'', fr_Method = ''PUT'',
     fr_Origin = ''srv'', fr_RequestURI = ''/send'', fr_Signatures = None\<rparr>"

definition sample_http :: http_lib where
  "sample_http = \<lparr>NewRequest_URI = (\<lambda>_ _. Inr ''/send''), marshalContent = (\<lambda>_. Inr ''{}''),
     unmarshalContent = (\<lambda>_ r. (Inr (), r))\<rparr>"

definition sample_http_request :: http_request where
  "sample_http_request = \<lparr>http_Method = ''PUT'', http_RequestURI = ''/send'', http_Body = Inr ''{}'',
     http_ContentType = ''application/json'', http_Authorization = [authorization_header ''srv'' ''k'' ''forged'']\<rparr>"

section \<open>Lemmas\<close>

lemma sample_canonical: "CanonicalJSON empty_gjson ''{}'' = Inr ''{}''"
  by code_simp

lemma sign_length [simp]: "length (sample_sign m) = 64"
  by (simp add: sample_sign_def)

lemma sample_signs: "signs_for sample_ed25519 sk sample_key"
  by (simp add: signs_for_def sample_ed25519_def sample_key_def PublicKeySize_def SignatureSize_def)

lemma distinct_one:
  assumes "distinct m" "set m = {x}"
  shows "m = [x]"
proof -
  have "length m = 1" using distinct_card [OF assms(1)] assms(2) by simp
  then obtain y where "m = [y]" by (cases m) auto
  with assms(2) show ?thesis by simp
qed

lemma same_short_maps:
  assumes "smap_ok m" "smap_ok m'" "map_of m = map_of m'"
  shows "m = [] \<longleftrightarrow> m' = []" "m = [x] \<longleftrightarrow> m' = [x]"
proof -
  have s: "set m = set m'"
    unfolding set_map_of_compr [OF assms(1) [unfolded smap_ok_def]] set_map_of_compr [OF assms(2) [unfolded smap_ok_def]] assms(3) ..
  then show "m = [] \<longleftrightarrow> m' = []" using set_empty [of m] set_empty [of m'] by simp
  have "distinct m" "distinct m'" using assms(1,2) by (auto simp: smap_ok_def distinct_map)
  then show "m = [x] \<longleftrightarrow> m' = [x]" using distinct_one [of m x] distinct_one [of m' x] s by fastforce
qed

lemma sample_objects:
  "unmarshalObject sample_lib s = Inr (Some ob) \<longleftrightarrow>
     s = ''{}'' \<and> ob = [] \<or> s = ''{signed}'' \<and> ob = [(''signatures'', Some ''{sigs}'')]"
  "marshalObject sample_lib (Some ob) = Inr s \<longleftrightarrow>
     s = ''{}'' \<and> ob = [] \<or> s = ''{signed}'' \<and> ob = [(''signatures'', Some ''{sigs}'')]"
  by (auto simp: sample_lib_def)

lemma sample_signature_texts:
  "unmarshalSignatures sample_lib ''{sigs}'' = Inr (Some sample_signatures)"
  "marshalSignatures sample_lib (Some m) = Inr s \<longleftrightarrow> s = ''{sigs}'' \<and> m = sample_signatures"
  by (auto simp: sample_lib_def)

lemma sample_faithful: "faithful_json sample_lib"
  unfolding faithful_json_def
proof (intro conjI allI impI)
  have V: "Valid (lib_gjson sample_lib) s" for s by (simp add: sample_lib_def empty_gjson_def)
  show "object_ok (lib_gjson sample_lib) ob" if "unmarshalObject sample_lib s = Inr (Some ob)" for s ob
    using that unfolding sample_objects by (auto simp: object_ok_def V smap_ok_def split: if_splits)
  show "marshalObject sample_lib (Some ob) = marshalObject sample_lib (Some ob')"
    if "smap_ok ob" "smap_ok ob'" "map_of ob = map_of ob'" for ob ob'
    using same_short_maps [OF that] by (simp add: sample_lib_def)
  show "\<exists>ob'. unmarshalObject sample_lib s = Inr (Some ob') \<and> map_of ob' = map_of ob"
    if "marshalObject sample_lib (Some ob) = Inr s" for ob s
    using that unfolding sample_objects by blast
  show "Valid (lib_gjson sample_lib) raw" for raw by (rule V)
  show "raw \<noteq> ''null''" if "marshalSignatures sample_lib (Some m) = Inr raw" for m raw
    using that unfolding sample_signature_texts by simp
  show "\<exists>m'. unmarshalSignatures sample_lib raw = Inr m' \<and>
      (\<forall>n k. map_get (signatures_of m' n) k = map_get (signatures_of (Some m) n) k)"
    if "marshalSignatures sample_lib (Some m) = Inr raw" for m raw
    using that unfolding sample_signature_texts by (auto simp: sample_signature_texts)
qed

lemma sample_SignJSON: "SignJSON sample_lib sample_ed25519 ''srv'' ''ed25519:a'' sk ''{}'' = Inr ''{signed}''"
  by (simp add: SignJSON_def sample_lib_def take_signatures_def add_signature_def sample_canonical
      sample_ed25519_def sample_signatures_def remove_def )

lemma sample_VerifyJSON:
  "VerifyJSON sample_lib sample_ed25519 ''srv'' ''ed25519:a'' sample_key ''{signed}'' = Inr ()"
  by (simp add: VerifyJSON_def sample_lib_def sample_signatures_def sample_canonical remove_def
      sample_ed25519_def sample_key_def PublicKeySize_def SignatureSize_def)

lemma sample_first: "hd (splitN2 (CHR '':'') ''ed25519:a'') = ''ed25519''"
  by code_simp

lemma sample_checkVerifyKeys:
  "\<exists>c. checkVerifyKeys sample_lib sample_ed25519 sample_keys (first_checks ''srv'' 0 sample_keys) =
      Inr (c, [(''ed25519:a'', sample_key)]) \<and> AllChecksOK c"
  by (simp add: checkVerifyKeys_def sample_keys_def checkVerifyKey_def sample_first checkEd25519Key_def
      sample_VerifyJSON sample_key_def [THEN arg_cong, of length] first_checks_def  Let_def)

lemma sample_CheckKeys:
  "\<exists>c. CheckKeys sample_lib sample_ed25519 id ''srv'' 0 sample_keys None =
      Inr (c, [(''ed25519:a'', sample_key)], [replicate 32 (CHR ''f'')]) \<and> AllChecksOK c"
  using sample_checkVerifyKeys
  by (auto simp: CheckKeys_def checkTLSFingerprints_def check_connection_def Let_def sample_keys_def)

lemma sample_fetch:
  "DirectKeyFetcher_FetchKeys sample_lib sample_ed25519 id sample_client [((''srv'', ''ed25519:a''), 7)] s =
    (Inr sample_results, s)"
proof -
  have "mapServerKeysToPublicKeyLookupResult sample_keys [] = sample_results"
    by (simp add: mapServerKeysToPublicKeyLookupResult_def sample_keys_def sample_results_def
        PublicKeyNotExpired_def PublicKeyNotValid_def)
  then have "checked_keys sample_lib sample_ed25519 id ''srv'' sample_keys [] = Inr sample_results"
    using sample_CheckKeys by (auto simp: checked_keys_def)
  then show ?thesis
    by (simp add: DirectKeyFetcher_FetchKeys_def byServer_def fetchKeysForServer_def sample_client_def)
      (simp add: sample_results_def)
qed

lemma sample_verified:
  "VerifyJSONs sample_lib sample_ed25519 sample_ring [sample_request] () = (Inr [None], ())"
proof -
  let ?none = "Some (Error ''gomatrixserverlib: could not download key'')"
  have ids: "list_request sample_lib sample_request = ([''ed25519:a''], ?none)"
    by (simp add: list_request_def sample_request_def ListKeyIDs_def sample_lib_def sample_signatures_def
        isAlgorithmSupported_def)
  have rq: "publicKeyRequests [sample_request] [?none] [[''ed25519:a'']] = [((''srv'', ''ed25519:a''), 7)]"
    by (simp add: publicKeyRequests_def request_key_def sample_request_def)
  have none: "checkUsingKeys sample_lib sample_ed25519 [] [sample_request] [?none] [[''ed25519:a'']] = Inr [?none]"
    by simp
  have some: "checkUsingKeys sample_lib sample_ed25519 sample_results [sample_request] [?none] [[''ed25519:a'']] = Inr [None]"
    by (simp add: sample_results_def sample_request_def WasValidAt_def PublicKeyNotExpired_def PublicKeyNotValid_def
        sample_VerifyJSON)
  show ?thesis
    by (simp add: VerifyJSONs_def ids rq sample_ring_def CreateKeyRing_def none some sample_fetch Let_def del: checkUsingKeys.simps)
qed

lemma sample_redacted: "redactEvent sample_event_lib ''{event}'' = Inr ''{signed}''"
  by (simp add: redactEvent_def sample_event_lib_def)

lemma sample_reads_back: "redacted_reads_back sample_event_lib"
  by (auto simp: redacted_reads_back_def sample_event_lib_def split: if_splits)

lemma sample_response_checked:
  "RespState_Check sample_event_lib blank_codec (\<lambda>_. ''{event}'')
     (VerifyJSONs sample_lib sample_ed25519 sample_ring) sample_response () = (Inr (), ())"
proof -
  have "domainFromID ''@a:srv'' = Inr ''srv''" by code_simp
  then have "event_domains blank_codec signed_event = Inr [''srv'']"
    by (simp add: event_domains_def signed_event_def )
  then have rq: "event_requests sample_event_lib blank_codec (\<lambda>_. ''{event}'') signed_event = Inr [sample_request]"
    by (simp add: event_requests_def sample_redacted sample_request_def) (simp add: signed_event_def)
  have "VerifyAllEventSignatures sample_event_lib blank_codec (\<lambda>_. ''{event}'')
     (VerifyJSONs sample_lib sample_ed25519 sample_ring) [signed_event] () = (Inr (), ())"
    by (simp add: VerifyAllEventSignatures_def VerifyEventSignatures_def collect_requests_def rq sample_verified)
  then show ?thesis
    by (simp add: RespState_Check_def sample_response_def check_state_event_def checkAllowedByAuthEvents_def)
      (simp add: signed_event_def)
qed

section \<open>Witnesses\<close>

theorem SignJSON_verifies_witness:
  "SignJSON sample_lib sample_ed25519 ''srv'' ''ed25519:a'' ''secret'' ''{}'' = Inr ''{signed}'' \<and>
   VerifyJSON sample_lib sample_ed25519 ''srv'' ''ed25519:a'' sample_key ''{signed}'' = Inr ()"
  using SignJSON_verifies [OF sample_faithful sample_signs sample_SignJSON [of "''secret''"], of "[]"] sample_SignJSON [of "''secret''"]
  by (simp add: sample_objects)

theorem CheckKeys_accepts_iff_witness:
  "\<exists>checks ks fs. CheckKeys sample_lib sample_ed25519 id ''srv'' 0 sample_keys None = Inr (checks, ks, fs) \<and>
     keys_acceptable sample_lib sample_ed25519 ''srv'' 0 sample_keys \<and> map_of ks ''ed25519:a'' = Some sample_key"
proof -
  obtain c where c: "CheckKeys sample_lib sample_ed25519 id ''srv'' 0 sample_keys None =
      Inr (c, [(''ed25519:a'', sample_key)], [replicate 32 (CHR ''f'')])" "AllChecksOK c"
    using sample_CheckKeys by blast
  with CheckKeys_accepts_iff [OF c(1), of "''ed25519:a''"] show ?thesis by auto
qed

theorem key_ring_sound_witness:
  "\<exists>keyID key. isAlgorithmSupported keyID \<and> WasValidAt key 7 \<and>
    VerifyJSON sample_lib sample_ed25519 ''srv'' keyID (lookup_Key key) ''{signed}'' = Inr ()"
  using key_ring_sound [OF sample_verified [unfolded sample_ring_def], of 0] by (auto simp: sample_request_def)

theorem old_keys_never_valid_witness:
  "PublicKey sample_keys ''ed25519:b'' 3 = sample_key \<and>
   (\<exists>r. map_of (mapServerKeysToPublicKeyLookupResult sample_keys []) (''srv'', ''ed25519:b'') = Some r \<and> \<not> WasValidAt r 3)"
  using old_keys_never_valid [of sample_keys "''ed25519:b''" "\<lparr>OldKey = sample_key, ExpiredTS = 5\<rparr>" 3 "[]"]
  by (auto simp: sample_keys_def smap_ok_def)

theorem redaction_keeps_signatures_witness:
  "redactEvent sample_event_lib ''{signed}'' = Inr ''{signed}'' \<and>
   verifyEventSignature sample_event_lib sample_lib sample_ed25519 ''srv'' ''ed25519:a'' sample_key ''{signed}'' =
   verifyEventSignature sample_event_lib sample_lib sample_ed25519 ''srv'' ''ed25519:a'' sample_key ''{event}''"
  using redaction_keeps_signatures [OF sample_reads_back sample_redacted] by blast

theorem state_response_signed_witness:
  "\<exists>redacted. redactEvent sample_event_lib ''{event}'' = Inr redacted \<and>
     vouched sample_lib sample_ed25519 sample_ring \<lparr>req_ServerName = ''srv'', AtTS = 7, Message = redacted\<rparr>"
  using state_response_signed [OF sample_response_checked, of signed_event]
  by (auto simp: sample_response_def) (auto simp: signed_event_def)


theorem federation_origin_unchecked_witness:
  "MakeFedAPI sample_http 0 ''dest'' (fed_handler [''srv''] (\<lambda>r. returnS (if fr_Origin r = ''srv'' then 200 else 401)))
     sample_http_request () = (Inr 200, ())"
  using federation_origin_unchecked [of "''srv''" "[''srv'']" "''k''" "''forged''" sample_http_request "''{}''" sample_http 0
      "''dest''" "\<lambda>r. returnS (if fr_Origin r = ''srv'' then 200 else 401)" "()"]
  by (auto simp: sample_http_request_def sample_http_def)

end
