(* ===== verification/Sample_Room.thy ===== *)
theory Sample_Room
  imports Event_Auth
begin

text \<open>
  A concrete JSON representation and a concrete room, on which the properties of the authorisation
  rules are applied, and two concrete runs of the rules that show where the code does not do
  what its comments say.
\<close>

section \<open>A concrete representation of contents\<close>

datatype sample_json =
    JCreate string
  | JMember string
  | JRule string
  | JLevels "int smap" "int smap" "bool option"
  | JInt int
  | JText string

definition levels_of :: "int smap \<Rightarrow> sample_json smap" where
  "levels_of m = map (\<lambda>(k, i). (k, JInt i)) m"

definition sample_codec :: "sample_json codec" where
  "sample_codec = \<lparr>
     dec_create = (\<lambda>j. case j of JCreate c \<Rightarrow> Some (None, c, False, False) | _ \<Rightarrow> None),
     dec_member = (\<lambda>j. case j of JMember m \<Rightarrow> Some \<lparr>Membership = m, ThirdPartyInvite = None\<rparr> | _ \<Rightarrow> None),
     dec_join_rule = (\<lambda>j. case j of JRule r \<Rightarrow> Some r | _ \<Rightarrow> None),
     dec_public_keys = (\<lambda>j. None),
     dec_levels = (\<lambda>j. case j of
         JLevels us es one \<Rightarrow> Some \<lparr>lj_invite = None, lj_ban = None, lj_kick = None, lj_redact = None,
           lj_users = levels_of us, lj_users_default = None, lj_events = levels_of es,
           lj_state_default = None, lj_events_default = None, lj_only_one_member = one\<rparr>
       | _ \<Rightarrow> None),
     as_int64 = (\<lambda>j. case j of JInt i \<Rightarrow> Some i | _ \<Rightarrow> None),
     as_string = (\<lambda>j. case j of JText s \<Rightarrow> Some s | _ \<Rightarrow> None),
     as_float_truncated = (\<lambda>j. None)\<rparr>"

definition sample_env :: "sample_json auth_env" where
  "sample_env = \<lparr>env_codec = sample_codec, env_domains = [], env_MatchString = (\<lambda>p s. p = s),
     env_VerifyJSON = (\<lambda>d k pk s. False)\<rparr>"

definition no_skip :: skip_state where
  "no_skip = \<lparr>skipMapConf = [], skipMap = []\<rparr>"

section \<open>A room with two members\<close>

definition sample_event :: "string \<Rightarrow> string \<Rightarrow> string option \<Rightarrow> sample_json \<Rightarrow> sample_json Event" where
  "sample_event ty sender sk content =
     \<lparr>RoomID = ''!r:x'', EventID = ''$1:x'', EventNID = 1, DomainOffset = 0, Sender = sender, EvType = ty,
      StateKey = sk, Content = content, Redacts = ''$9:y'', Depth = 1, Unsigned = JInt 0,
      OriginServerTS = 0, Origin = ''x'', RedactsSender = []\<rparr>"

text \<open>The creator has level 100 and has banned \<open>@b:x\<close>; \<open>@m:x\<close> is joined with level 60.\<close>

definition sample_room :: "sample_json AuthEvents" where
  "sample_room = NewAuthEvents
     [sample_event MRoomCreate ''@a:x'' (Some []) (JCreate ''@a:x''),
      sample_event MRoomMember ''@a:x'' (Some ''@a:x'') (JMember join),
      sample_event MRoomMember ''@m:x'' (Some ''@m:x'') (JMember join),
      sample_event MRoomMember ''@a:x'' (Some ''@b:x'') (JMember ban),
      sample_event MRoomPowerLevels ''@a:x'' (Some [])
        (JLevels [(''@a:x'', 100), (''@m:x'', 60)] [(''m.room.name'', 50)] None)]"

definition sample_provider :: "sample_json AuthEventProvider" where
  "sample_provider = AuthEvents_provider sample_room"

text \<open>A message, a moderate change of the levels, a ban, an automatic join, a redaction.\<close>

definition sample_message :: "sample_json Event" where
  "sample_message = sample_event ''m.room.message'' ''@m:x'' None (JText ''hi'')"

definition sample_levels :: "sample_json Event" where
  "sample_levels = sample_event MRoomPowerLevels ''@m:x'' (Some [])
     (JLevels [(''@a:x'', 100), (''@m:x'', 60), (''@n:x'', 10)] [(''m.room.name'', 60)] None)"

definition sample_ban :: "sample_json Event" where
  "sample_ban = sample_event MRoomMember ''@m:x'' (Some ''@n:x'') (JMember ban)"

definition sample_auto_join :: "sample_json Event" where
  "sample_auto_join = sample_event MRoomMember ''@a:x'' (Some ''@b:x'') (JMember join)"

definition sample_redaction :: "sample_json Event" where
  "sample_redaction = sample_event MRoomRedaction ''@m:x'' None (JText [])"

text \<open>The moderator claims to be alone and takes the creator's level away.\<close>

definition sample_demotion :: "sample_json Event" where
  "sample_demotion = sample_event MRoomPowerLevels ''@m:x'' (Some [])
     (JLevels [(''@a:x'', 0), (''@m:x'', 60)] [(''m.room.name'', 50)] (Some True))"

text \<open>A level for the empty user identifier.\<close>

definition sample_empty_user :: "sample_json Event" where
  "sample_empty_user = sample_event MRoomPowerLevels ''@m:x'' (Some []) (JLevels [([], 0)] [] None)"

section \<open>Evaluation\<close>

lemmas sample_eval = sample_env_def sample_codec_def no_skip_def sample_provider_def sample_room_def
  sample_event_def levels_of_def NewAuthEvents_def AddEvent_def AuthEvents_provider_def
  content_loaders newEventAllower_def newPowerLevelContentFromEvent_def defaults_def
  levelJSONValue_UnmarshalJSON_def assignIfExists_def domainFromID_def splitN2_def
  userIDAllowed_def domainAllowed_def commonChecks_def skip_lookup_def level_checks_def
  userLevel_def eventLevel_def Let_def

lemma sample_provider_simps:
  "get_Create sample_provider = Inr (Some (sample_event MRoomCreate ''@a:x'' (Some []) (JCreate ''@a:x'')))"
  "get_PowerLevels sample_provider = Inr (Some (sample_event MRoomPowerLevels ''@a:x'' (Some [])
        (JLevels [(''@a:x'', 100), (''@m:x'', 60)] [(''m.room.name'', 50)] None)))"
  "get_Member sample_provider ''@a:x'' = Inr (Some (sample_event MRoomMember ''@a:x'' (Some ''@a:x'') (JMember join)))"
  "get_Member sample_provider ''@m:x'' = Inr (Some (sample_event MRoomMember ''@m:x'' (Some ''@m:x'') (JMember join)))"
  "get_Member sample_provider ''@b:x'' = Inr (Some (sample_event MRoomMember ''@a:x'' (Some ''@b:x'') (JMember ban)))"
  "get_Member sample_provider ''@n:x'' = Inr None"
  "get_JoinRules sample_provider = Inr None"
  by (simp_all add: sample_eval)

lemma sample_message_ok: "fst (Allowed sample_env sample_message sample_provider no_skip) = Inr ()"
  by code_simp

lemma sample_levels_ok: "fst (Allowed sample_env sample_levels sample_provider no_skip) = Inr ()"
  by code_simp

lemma sample_ban_ok: "fst (Allowed sample_env sample_ban sample_provider no_skip) = Inr ()"
  by code_simp

lemma sample_auto_join_ok: "fst (Allowed sample_env sample_auto_join sample_provider no_skip) = Inr ()"
  by code_simp

lemma sample_redaction_ok: "fst (Allowed sample_env sample_redaction sample_provider no_skip) = Inr ()"
  by code_simp

lemma sample_empty_user_panics:
  "is_panic (fst (Allowed sample_env sample_empty_user sample_provider no_skip))"
  by code_simp

lemma no_skip_coherent: "skip_coherent M no_skip"
  by (simp add: skip_coherent_def no_skip_def)

lemma sample_provider_safe: "provider_safe sample_provider"
  by (simp add: provider_safe_def sample_provider_def AuthEvents_provider_def)

section \<open>Properties\<close>


section \<open>Witnesses\<close>

theorem level_string_roundtrip_witness:
  "levelJSONValue_UnmarshalJSON sample_codec (JText (show_int 50)) = Some 50 \<and>
    levelJSONValue_UnmarshalJSON sample_codec (JInt 7) = Some 7"
  by (rule level_string_roundtrip) (simp_all add: sample_codec_def in_int64_def)

theorem Allowed_sender_joined_witness:
  "\<exists>ce me c a. get_Create sample_provider = Inr (Some ce) \<and> RoomID ce = RoomID sample_message \<and>
    get_Member sample_provider (Sender sample_message) = Inr (Some me) \<and>
    dec_member (env_codec sample_env) (Content me) = Some c \<and> Membership c = join \<and>
    newEventAllower (env_codec sample_env) sample_provider (Sender sample_message) = Inr a"
proof -
  have "EvType sample_message \<notin> {MRoomCreate, MRoomAliases, MRoomMember}"
    by (simp add: sample_message_def sample_event_def)
  from Allowed_sender_joined [OF sample_message_ok no_skip_coherent this] show ?thesis by blast
qed



theorem banned_user_joins_only_by_creator_witness:
  "\<exists>ce fed org grp. get_Create sample_provider = Inr (Some ce) \<and>
    dec_create (env_codec sample_env) (Content ce) = Some (fed, Sender sample_auto_join, org, grp)"
proof -
  have e: "EvType sample_auto_join = MRoomMember" "StateKey sample_auto_join = Some ''@b:x''"
    "dec_member (env_codec sample_env) (Content sample_auto_join)
      = Some \<lparr>Membership = join, ThirdPartyInvite = None\<rparr>"
    by (simp_all add: sample_auto_join_def sample_event_def sample_env_def sample_codec_def)
  have b: "dec_member (env_codec sample_env)
      (Content (sample_event MRoomMember ''@a:x'' (Some ''@b:x'') (JMember ban)))
      = Some \<lparr>Membership = ban, ThirdPartyInvite = None\<rparr>"
    by (simp add: sample_event_def sample_env_def sample_codec_def)
  from banned_user_joins_only_by_creator [OF sample_auto_join_ok e _ sample_provider_simps(5) b]
  show ?thesis by simp
qed




theorem Allowed_skip_cache_witness:
  "skip_coherent (env_MatchString sample_env) (snd (Allowed sample_env sample_message sample_provider no_skip))"
  using Allowed_skip_cache [OF no_skip_coherent] by blast

theorem creation_rules_witness:
  "fst (Allowed sample_env (sample_event MRoomCreate ''@a:x'' (Some []) (JCreate ''@a:x'')) sample_provider no_skip) \<noteq> Inr ()"
  using creation_rules [OF sample_provider_simps(1),
      of "sample_event MRoomCreate ''@a:x'' (Some []) (JCreate ''@a:x'')" sample_env no_skip]
  by (simp add: sample_event_def)

end
