(* ===== verification/State_Resolution.thy ===== *)
theory State_Resolution
  imports Event_Auth "HOL-Library.Multiset"
begin

text \<open>
  Resolution of conflicting room state (\<open>src/skunkworks/gomatrixserverlib/stateresolution.go\<close>): the
  resolver's record, the grouping of the conflicted events into blocks, the choice of one event per
  block by repeated authorisation checks, and the order in which the groups are resolved. The SHA-1
  of an event identifier is an argument. The sort of the standard library is an insertion sort
  here; on events with equal depth and equal hash the library promises no order.
\<close>

section \<open>Model\<close>

record 'c stateResolver =
  sr_creates :: "'c Event list"
  sr_powerLevels :: "'c Event list"
  sr_joinRules :: "'c Event list"
  sr_thirdPartyInvites :: "'c Event list list"
  sr_members :: "'c Event list list"
  sr_others :: "'c Event list list"
  resolvedCreate :: "'c Event option"
  resolvedPowerLevels :: "'c Event option"
  resolvedJoinRules :: "'c Event option"
  resolvedThirdPartyInvites :: "string \<rightharpoonup> 'c Event"
  resolvedMembers :: "string \<rightharpoonup> 'c Event"
  sr_result :: "'c Event list"

definition new_resolver :: "'c stateResolver" where
  "new_resolver = \<lparr>sr_creates = [], sr_powerLevels = [], sr_joinRules = [], sr_thirdPartyInvites = [],
     sr_members = [], sr_others = [], resolvedCreate = None, resolvedPowerLevels = None,
     resolvedJoinRules = None, resolvedThirdPartyInvites = Map.empty, resolvedMembers = Map.empty,
     sr_result = []\<rparr>"

definition resolver_provider :: "'c stateResolver \<Rightarrow> 'c AuthEventProvider" where
  "resolver_provider r =
     \<lparr>get_Create = Inr (resolvedCreate r), get_JoinRules = Inr (resolvedJoinRules r),
      get_PowerLevels = Inr (resolvedPowerLevels r), get_Member = (\<lambda>k. Inr (resolvedMembers r k)),
      get_ThirdPartyInvite = (\<lambda>k. Inr (resolvedThirdPartyInvites r k))\<rparr>"

text \<open>
  Appending an event to the block of its key in a block list: the offset of the key is looked up, a
  new block is appended if the key has none yet.
\<close>

definition add_to_block ::
  "StateKeyTuple \<Rightarrow> 'c Event \<Rightarrow> (StateKeyTuple \<rightharpoonup> nat) \<Rightarrow> 'c Event list list \<Rightarrow>
    ((StateKeyTuple \<rightharpoonup> nat) \<times> 'c Event list list) result" where
  "add_to_block key e offsets blocks =
     (case offsets key of
        None \<Rightarrow> Inr (offsets(key \<mapsto> length blocks), blocks @ [[e]])
      | Some i \<Rightarrow> if i < length blocks then Inr (offsets, blocks[i := blocks ! i @ [e]])
                  else Inl (Panic ''index out of range''))"

definition addConflicted_step ::
  "'c Event \<Rightarrow> (StateKeyTuple \<rightharpoonup> nat) \<times> 'c stateResolver \<Rightarrow>
    ((StateKeyTuple \<rightharpoonup> nat) \<times> 'c stateResolver) result" where
  "addConflicted_step e = (\<lambda>(offsets, r).
     case StateKey e of
       None \<Rightarrow> Inl (Panic ''nil pointer dereference'')
     | Some k \<Rightarrow>
         (if EvType e = MRoomCreate \<and> k = [] then Inr (offsets, r\<lparr>sr_creates := sr_creates r @ [e]\<rparr>)
          else if EvType e = MRoomPowerLevels \<and> k = []
          then Inr (offsets, r\<lparr>sr_powerLevels := sr_powerLevels r @ [e]\<rparr>)
          else if EvType e = MRoomJoinRules \<and> k = []
          then Inr (offsets, r\<lparr>sr_joinRules := sr_joinRules r @ [e]\<rparr>)
          else if EvType e = MRoomMember then
            bindR (add_to_block (EvType e, k) e offsets (sr_members r)) (\<lambda>(o1, bs).
              Inr (o1, r\<lparr>sr_members := bs\<rparr>))
          else if EvType e = MRoomThirdPartyInvite then
            bindR (add_to_block (EvType e, k) e offsets (sr_thirdPartyInvites r)) (\<lambda>(o1, bs).
              Inr (o1, r\<lparr>sr_thirdPartyInvites := bs\<rparr>))
          else
            bindR (add_to_block (EvType e, k) e offsets (sr_others r)) (\<lambda>(o1, bs).
              Inr (o1, r\<lparr>sr_others := bs\<rparr>))))"

definition addConflicted :: "'c Event list \<Rightarrow> 'c stateResolver \<Rightarrow> 'c stateResolver result" where
  "addConflicted events r =
     bindR (foldR addConflicted_step events (Map.empty, r)) (\<lambda>(_, r1). Inr r1)"

definition addAuthEvent :: "'c Event \<Rightarrow> 'c stateResolver \<Rightarrow> 'c stateResolver result" where
  "addAuthEvent e r =
     (if EvType e = MRoomCreate then
        Inr (if StateKeyEquals e [] then r\<lparr>resolvedCreate := Some e\<rparr> else r)
      else if EvType e = MRoomPowerLevels then
        Inr (if StateKeyEquals e [] then r\<lparr>resolvedPowerLevels := Some e\<rparr> else r)
      else if EvType e = MRoomJoinRules then
        Inr (if StateKeyEquals e [] then r\<lparr>resolvedJoinRules := Some e\<rparr> else r)
      else if EvType e = MRoomMember then
        (case StateKey e of
           None \<Rightarrow> Inl (Panic ''nil pointer dereference'')
         | Some k \<Rightarrow> Inr (r\<lparr>resolvedMembers := (resolvedMembers r)(k \<mapsto> e)\<rparr>))
      else if EvType e = MRoomThirdPartyInvite then
        (case StateKey e of
           None \<Rightarrow> Inl (Panic ''nil pointer dereference'')
         | Some k \<Rightarrow> Inr (r\<lparr>resolvedThirdPartyInvites := (resolvedThirdPartyInvites r)(k \<mapsto> e)\<rparr>))
      else Inl (Panic ''Unexpected auth event''))"

definition removeAuthEvent :: "string \<Rightarrow> string \<Rightarrow> 'c stateResolver \<Rightarrow> 'c stateResolver result" where
  "removeAuthEvent eventType stateKey r =
     (if eventType = MRoomCreate then
        Inr (if stateKey = [] then r\<lparr>resolvedCreate := None\<rparr> else r)
      else if eventType = MRoomPowerLevels then
        Inr (if stateKey = [] then r\<lparr>resolvedPowerLevels := None\<rparr> else r)
      else if eventType = MRoomJoinRules then
        Inr (if stateKey = [] then r\<lparr>resolvedJoinRules := None\<rparr> else r)
      else if eventType = MRoomMember then
        Inr (r\<lparr>resolvedMembers := (resolvedMembers r)(stateKey := None)\<rparr>)
      else if eventType = MRoomThirdPartyInvite then
        Inr (r\<lparr>resolvedThirdPartyInvites := (resolvedThirdPartyInvites r)(stateKey := None)\<rparr>)
      else Inl (Panic ''Unexpected auth event''))"

text \<open>Ascending depth, then descending SHA-1 of the event identifier.\<close>

definition Less :: "(string \<Rightarrow> string) \<Rightarrow> 'c Event \<Rightarrow> 'c Event \<Rightarrow> bool" where
  "Less sha1 a b = (if Depth a = Depth b then sha1 (EventID a) > sha1 (EventID b) else Depth a < Depth b)"

fun insert_by :: "('a \<Rightarrow> 'a \<Rightarrow> bool) \<Rightarrow> 'a \<Rightarrow> 'a list \<Rightarrow> 'a list" where
  "insert_by lt x [] = [x]"
| "insert_by lt x (y # ys) = (if lt y x then y # insert_by lt x ys else x # y # ys)"

fun sort_by :: "('a \<Rightarrow> 'a \<Rightarrow> bool) \<Rightarrow> 'a list \<Rightarrow> 'a list" where
  "sort_by lt [] = []"
| "sort_by lt (x # xs) = insert_by lt x (sort_by lt xs)"

definition sortConflictedEventsByDepthAndSHA1 ::
  "(string \<Rightarrow> string) \<Rightarrow> 'c Event list \<Rightarrow> 'c Event list" where
  "sortConflictedEventsByDepthAndSHA1 sha1 events = sort_by (Less sha1) events"

text \<open>One authorisation check against the resolver; a panic goes through.\<close>

definition check_against ::
  "'c auth_env \<Rightarrow> 'c Event \<Rightarrow> 'c stateResolver \<Rightarrow> skip_state \<Rightarrow> (bool \<times> skip_state) result" where
  "check_against env e r st =
     (case Allowed env e (resolver_provider r) st of
        (Inr _, st1) \<Rightarrow> Inr (True, st1)
      | (Inl (Panic m), _) \<Rightarrow> Inl (Panic m)
      | (Inl _, st1) \<Rightarrow> Inr (False, st1))"

text \<open>The loop over the newer events of a block.\<close>

fun auth_loop ::
  "'c auth_env \<Rightarrow> 'c Event \<Rightarrow> 'c Event list \<Rightarrow> 'c stateResolver \<Rightarrow> skip_state \<Rightarrow>
    ('c Event \<times> 'c stateResolver \<times> skip_state) result" where
  "auth_loop env cand [] r st = Inr (cand, r, st)"
| "auth_loop env cand (e # es) r st =
     bindR (check_against env e r st) (\<lambda>(ok, st1).
       if ok then bindR (addAuthEvent e r) (\<lambda>r1. auth_loop env e es r1 st1)
       else Inr (cand, r, st1))"

definition resolveAuthBlock ::
  "'c auth_env \<Rightarrow> (string \<Rightarrow> string) \<Rightarrow> 'c Event list \<Rightarrow> 'c stateResolver \<Rightarrow> skip_state \<Rightarrow>
    ('c Event \<times> 'c stateResolver \<times> skip_state) result" where
  "resolveAuthBlock env sha1 events r st =
     (case sortConflictedEventsByDepthAndSHA1 sha1 events of
        [] \<Rightarrow> Inl (Panic ''index out of range'')
      | first # rest \<Rightarrow>
          bindR (addAuthEvent first r) (\<lambda>r1.
          bindR (auth_loop env first rest r1 st) (\<lambda>(e, r2, st2).
            case StateKey e of
              None \<Rightarrow> Inl (Panic ''nil pointer dereference'')
            | Some k \<Rightarrow> bindR (removeAuthEvent (EvType e) k r2) (\<lambda>r3. Inr (e, r3, st2)))))"

fun resolve_blocks ::
  "'c auth_env \<Rightarrow> (string \<Rightarrow> string) \<Rightarrow> 'c Event list list \<Rightarrow> 'c stateResolver \<Rightarrow> skip_state \<Rightarrow>
    ('c Event list \<times> 'c stateResolver \<times> skip_state) result" where
  "resolve_blocks env sha1 [] r st = Inr ([], r, st)"
| "resolve_blocks env sha1 (b # bs) r st =
     (if b = [] then resolve_blocks env sha1 bs r st
      else
        bindR (resolveAuthBlock env sha1 b r st) (\<lambda>(e, r1, st1).
        bindR (resolve_blocks env sha1 bs r1 st1) (\<lambda>(es, r2, st2). Inr (e # es, r2, st2))))"

definition resolveAndAddAuthBlocks ::
  "'c auth_env \<Rightarrow> (string \<Rightarrow> string) \<Rightarrow> 'c Event list list \<Rightarrow> 'c stateResolver \<times> skip_state \<Rightarrow>
    ('c stateResolver \<times> skip_state) result" where
  "resolveAndAddAuthBlocks env sha1 blocks = (\<lambda>(r, st).
     bindR (resolve_blocks env sha1 blocks r st) (\<lambda>(es, r1, st1).
     bindR (foldR addAuthEvent es (r1\<lparr>sr_result := sr_result r1 @ es\<rparr>)) (\<lambda>r2. Inr (r2, st1))))"

text \<open>From the newest event down to the second oldest; the oldest is taken unchecked.\<close>

fun normal_loop ::
  "'c auth_env \<Rightarrow> 'c Event \<Rightarrow> 'c Event list \<Rightarrow> 'c stateResolver \<Rightarrow> skip_state \<Rightarrow>
    ('c Event \<times> skip_state) result" where
  "normal_loop env oldest [] r st = Inr (oldest, st)"
| "normal_loop env oldest (e # es) r st =
     bindR (check_against env e r st) (\<lambda>(ok, st1).
       if ok then Inr (e, st1) else normal_loop env oldest es r st1)"

definition resolveNormalBlock ::
  "'c auth_env \<Rightarrow> (string \<Rightarrow> string) \<Rightarrow> 'c Event list \<Rightarrow> 'c stateResolver \<Rightarrow> skip_state \<Rightarrow>
    ('c Event \<times> skip_state) result" where
  "resolveNormalBlock env sha1 events r st =
     (case sortConflictedEventsByDepthAndSHA1 sha1 events of
        [] \<Rightarrow> Inl (Panic ''index out of range'')
      | first # rest \<Rightarrow> normal_loop env first (rev rest) r st)"

definition resolve_other ::
  "'c auth_env \<Rightarrow> (string \<Rightarrow> string) \<Rightarrow> 'c Event list \<Rightarrow> 'c stateResolver \<times> skip_state \<Rightarrow>
    ('c stateResolver \<times> skip_state) result" where
  "resolve_other env sha1 block = (\<lambda>(r, st).
     bindR (resolveNormalBlock env sha1 block r st) (\<lambda>(e, st1).
       Inr (r\<lparr>sr_result := sr_result r @ [e]\<rparr>, st1)))"

definition ResolveStateConflicts ::
  "'c auth_env \<Rightarrow> (string \<Rightarrow> string) \<Rightarrow> 'c Event list \<Rightarrow> 'c Event list \<Rightarrow> skip_state \<Rightarrow>
    ('c Event list \<times> skip_state) result" where
  "ResolveStateConflicts env sha1 conflicted authEvents st =
     bindR (addConflicted conflicted new_resolver) (\<lambda>r.
     bindR (foldR addAuthEvent authEvents r) (\<lambda>r0.
     bindR (resolveAndAddAuthBlocks env sha1 [sr_creates r0] (r0, st)) (\<lambda>s1.
     bindR (resolveAndAddAuthBlocks env sha1 [sr_powerLevels (fst s1)] s1) (\<lambda>s2.
     bindR (resolveAndAddAuthBlocks env sha1 [sr_joinRules (fst s2)] s2) (\<lambda>s3.
     bindR (resolveAndAddAuthBlocks env sha1 (sr_thirdPartyInvites (fst s3)) s3) (\<lambda>s4.
     bindR (resolveAndAddAuthBlocks env sha1 (sr_members (fst s4)) s4) (\<lambda>s5.
     bindR (foldR (resolve_other env sha1) (sr_others (fst s5)) s5) (\<lambda>(r6, st6).
       Inr (sr_result r6, st6)))))))))"

section \<open>Specification\<close>

datatype block_class = Creates | Power | Rules | Members | Invites | Others

definition class_of :: "StateKeyTuple \<Rightarrow> block_class" where
  "class_of t =
     (if t = (MRoomCreate, []) then Creates
      else if t = (MRoomPowerLevels, []) then Power
      else if t = (MRoomJoinRules, []) then Rules
      else if fst t = MRoomMember then Members
      else if fst t = MRoomThirdPartyInvite then Invites
      else Others)"

definition block_of :: "'c Event list \<Rightarrow> StateKeyTuple \<Rightarrow> 'c Event list" where
  "block_of C t = filter (\<lambda>e. event_key e = t) C"

definition keys_in :: "'c Event list \<Rightarrow> block_class \<Rightarrow> StateKeyTuple set" where
  "keys_in C c = {t \<in> event_key ` set C. class_of t = c}"

text \<open>The invariant of the grouping loop for one block list.\<close>

definition grouped :: "'c Event list \<Rightarrow> block_class \<Rightarrow> (StateKeyTuple \<rightharpoonup> nat) \<Rightarrow> 'c Event list list \<Rightarrow> bool" where
  "grouped C c offs bs \<longleftrightarrow> (\<exists>ks. distinct ks \<and> set ks = keys_in C c \<and> bs = map (block_of C) ks \<and>
     (\<forall>t i. class_of t = c \<longrightarrow> (offs t = Some i \<longleftrightarrow> i < length ks \<and> ks ! i = t)))"

text \<open>The invariant of the whole loop: no field but the block lists is touched.\<close>

definition conflict_inv ::
  "'c Event list \<Rightarrow> 'c stateResolver \<Rightarrow> (StateKeyTuple \<rightharpoonup> nat) \<times> 'c stateResolver \<Rightarrow> bool" where
  "conflict_inv C r0 = (\<lambda>(offs, r).
     sr_creates r = block_of C (MRoomCreate, []) \<and> sr_powerLevels r = block_of C (MRoomPowerLevels, []) \<and>
     sr_joinRules r = block_of C (MRoomJoinRules, []) \<and> grouped C Members offs (sr_members r) \<and>
     grouped C Invites offs (sr_thirdPartyInvites r) \<and> grouped C Others offs (sr_others r) \<and>
     resolvedCreate r = resolvedCreate r0 \<and> resolvedPowerLevels r = resolvedPowerLevels r0 \<and>
     resolvedJoinRules r = resolvedJoinRules r0 \<and> resolvedMembers r = resolvedMembers r0 \<and>
     resolvedThirdPartyInvites r = resolvedThirdPartyInvites r0 \<and> sr_result r = sr_result r0)"

text \<open>The authorisation events a resolver holds, as the map of a map-backed provider.\<close>

definition auth_of :: "'c stateResolver \<Rightarrow> 'c AuthEvents" where
  "auth_of r t =
     (if t = (MRoomCreate, []) then resolvedCreate r
      else if t = (MRoomPowerLevels, []) then resolvedPowerLevels r
      else if t = (MRoomJoinRules, []) then resolvedJoinRules r
      else if fst t = MRoomMember then resolvedMembers r (snd t)
      else if fst t = MRoomThirdPartyInvite then resolvedThirdPartyInvites r (snd t)
      else None)"

text \<open>The part of a resolver that the choice of events does not touch.\<close>

definition blocks_of ::
  "'c stateResolver \<Rightarrow> 'c Event list \<times> 'c Event list \<times> 'c Event list \<times> 'c Event list list \<times>
    'c Event list list \<times> 'c Event list list" where
  "blocks_of r = (sr_creates r, sr_powerLevels r, sr_joinRules r, sr_thirdPartyInvites r, sr_members r,
     sr_others r)"

definition auth_event :: "'c Event \<Rightarrow> bool" where
  "auth_event e \<longleftrightarrow> StateKey e \<noteq> None \<and> class_of (event_key e) \<noteq> Others"

text \<open>Whether an event passes the checks against a map of authorisation events.\<close>

definition passes_auth :: "'c auth_env \<Rightarrow> bool smap \<Rightarrow> 'c AuthEvents \<Rightarrow> 'c Event \<Rightarrow> bool" where
  "passes_auth env conf A e \<longleftrightarrow>
     fst (Allowed env e (AuthEvents_provider A) \<lparr>skipMapConf = conf, skipMap = []\<rparr>) = Inr ()"

text \<open>The choice from a block of authorisation events, oldest first: the newest event of the chain of successors that pass against their predecessor.\<close>

fun auth_pick :: "'c auth_env \<Rightarrow> bool smap \<Rightarrow> 'c AuthEvents \<Rightarrow> 'c Event \<Rightarrow> 'c Event list \<Rightarrow> 'c Event" where
  "auth_pick env conf A cand [] = cand"
| "auth_pick env conf A cand (e # es) =
     (if passes_auth env conf (A(event_key cand \<mapsto> cand)) e then auth_pick env conf A e es else cand)"

definition auth_winner ::
  "'c auth_env \<Rightarrow> bool smap \<Rightarrow> (string \<Rightarrow> string) \<Rightarrow> 'c AuthEvents \<Rightarrow> 'c Event list \<Rightarrow> 'c Event" where
  "auth_winner env conf sha1 A b =
     (case sort_by (Less sha1) b of first # rest \<Rightarrow> auth_pick env conf A first rest)"

text \<open>The choice from any other block, newest first: the first event that passes, the oldest if none does.\<close>

fun normal_pick :: "'c auth_env \<Rightarrow> bool smap \<Rightarrow> 'c AuthEvents \<Rightarrow> 'c Event \<Rightarrow> 'c Event list \<Rightarrow> 'c Event" where
  "normal_pick env conf A oldest [] = oldest"
| "normal_pick env conf A oldest (e # es) =
     (if passes_auth env conf A e then e else normal_pick env conf A oldest es)"

definition normal_winner ::
  "'c auth_env \<Rightarrow> bool smap \<Rightarrow> (string \<Rightarrow> string) \<Rightarrow> 'c AuthEvents \<Rightarrow> 'c Event list \<Rightarrow> 'c Event" where
  "normal_winner env conf sha1 A b =
     (case sort_by (Less sha1) b of first # rest \<Rightarrow> normal_pick env conf A first (rev rest))"

text \<open>An event whose check does not panic.\<close>

definition checkable :: "'c auth_env \<Rightarrow> 'c Event \<Rightarrow> bool" where
  "checkable env e \<longleftrightarrow>
     (case newPowerLevelContentFromEvent (env_codec env) e of
        Inl _ \<Rightarrow> True
      | Inr new \<Rightarrow> EvType e = MRoomPowerLevels \<longrightarrow> [] \<notin> fst ` set (userLevels new))"

text \<open>The skip table in use: its cache agrees with the given patterns.\<close>

definition skip_ok :: "'c auth_env \<Rightarrow> bool smap \<Rightarrow> skip_state \<Rightarrow> bool" where
  "skip_ok env conf st \<longleftrightarrow> skip_coherent (env_MatchString env) st \<and> skipMapConf st = conf"

text \<open>Without ties between different events, the sorted list depends only on the multiset.\<close>

definition no_ties :: "(string \<Rightarrow> string) \<Rightarrow> 'c Event list \<Rightarrow> bool" where
  "no_ties sha1 C \<longleftrightarrow> (\<forall>a \<in> set C. \<forall>b \<in> set C.
     Depth a = Depth b \<and> sha1 (EventID a) = sha1 (EventID b) \<longrightarrow> a = b)"

text \<open>The authorisation events after the conflicts of one class are resolved.\<close>

definition stage ::
  "'c auth_env \<Rightarrow> bool smap \<Rightarrow> (string \<Rightarrow> string) \<Rightarrow> 'c Event list \<Rightarrow> block_class \<Rightarrow> 'c AuthEvents \<Rightarrow> 'c AuthEvents" where
  "stage env conf sha1 C c A t =
     (if t \<in> keys_in C c then Some (auth_winner env conf sha1 A (block_of C t)) else A t)"

definition resolved_auth ::
  "'c auth_env \<Rightarrow> bool smap \<Rightarrow> (string \<Rightarrow> string) \<Rightarrow> 'c Event list \<Rightarrow> 'c AuthEvents \<Rightarrow> 'c AuthEvents" where
  "resolved_auth env conf sha1 C A =
     fold (stage env conf sha1 C) [Creates, Power, Rules, Invites, Members] A"

text \<open>The event chosen for a conflicted key.\<close>

definition choice ::
  "'c auth_env \<Rightarrow> bool smap \<Rightarrow> (string \<Rightarrow> string) \<Rightarrow> 'c Event list \<Rightarrow> 'c AuthEvents \<Rightarrow> StateKeyTuple \<Rightarrow> 'c Event" where
  "choice env conf sha1 C A t =
     (if class_of t = Others
      then normal_winner env conf sha1 (resolved_auth env conf sha1 C A) (block_of C t)
      else the (resolved_auth env conf sha1 C A t))"

text \<open>Conflicted events that can be grouped and checked.\<close>

definition valid_conflict :: "'c auth_env \<Rightarrow> 'c Event list \<Rightarrow> bool" where
  "valid_conflict env C \<longleftrightarrow> (\<forall>e \<in> set C. StateKey e \<noteq> None \<and> checkable env e)"

text \<open>The blocks that a stage works on, with their keys.\<close>

definition stage_keys :: "'c Event list \<Rightarrow> block_class \<Rightarrow> 'c Event list list \<Rightarrow> StateKeyTuple list \<Rightarrow> bool" where
  "stage_keys C c bs ks \<longleftrightarrow> distinct ks \<and> set ks = keys_in C c \<and>
     (bs = map (block_of C) ks \<or> bs = [[]] \<and> ks = [])"

section \<open>Lemmas\<close>

section \<open>Grouping\<close>

lemma keys_in_snoc:
  "keys_in (C @ [e]) c = (if class_of (event_key e) = c then insert (event_key e) (keys_in C c) else keys_in C c)"
  by (auto simp: keys_in_def)

lemma block_of_snoc: "block_of (C @ [e]) t = block_of C t @ (if event_key e = t then [e] else [])"
  by (simp add: block_of_def)

lemma block_of_empty: "t \<notin> event_key ` set C \<Longrightarrow> block_of C t = []"
  by (auto simp: block_of_def filter_empty_conv)

lemma grouped_other:
  assumes "grouped C c offs bs" "class_of (event_key e) \<noteq> c"
    and "\<And>t. class_of t = c \<Longrightarrow> offs' t = offs t"
  shows "grouped (C @ [e]) c offs' bs"
proof -
  obtain ks where ks: "distinct ks" "set ks = keys_in C c" "bs = map (block_of C) ks"
    "\<And>t i. class_of t = c \<Longrightarrow> offs t = Some i \<longleftrightarrow> i < length ks \<and> ks ! i = t"
    using assms(1) by (auto simp: grouped_def)
  have "bs = map (block_of (C @ [e])) ks"
    using ks(2,3) assms(2) by (auto simp: block_of_snoc keys_in_def)
  with ks assms(2,3) show ?thesis unfolding grouped_def keys_in_snoc by auto
qed

lemma add_to_block_grouped:
  assumes "grouped C c offs bs" "class_of (event_key e) = c"
  shows "\<exists>offs' bs'. add_to_block (event_key e) e offs bs = Inr (offs', bs') \<and> grouped (C @ [e]) c offs' bs' \<and>
    (\<forall>t. class_of t \<noteq> c \<longrightarrow> offs' t = offs t)"
proof -
  let ?k = "event_key e"
  obtain ks where ks: "distinct ks" "set ks = keys_in C c" "bs = map (block_of C) ks"
    "\<And>t i. class_of t = c \<Longrightarrow> offs t = Some i \<longleftrightarrow> i < length ks \<and> ks ! i = t"
    using assms(1) by (auto simp: grouped_def)
  show ?thesis
  proof (cases "?k \<in> set ks")
    case True
    then obtain i where i: "i < length ks" "ks ! i = ?k" by (auto simp: in_set_conv_nth)
    have "bs[i := bs ! i @ [e]] = map (block_of (C @ [e])) ks"
    proof (rule nth_equalityI)
      fix j assume "j < length (bs[i := bs ! i @ [e]])"
      then have j: "j < length ks" using ks(3) by simp
      then have "ks ! j = ?k \<longleftrightarrow> j = i" using i ks(1) by (metis nth_eq_iff_index_eq)
      then show "bs[i := bs ! i @ [e]] ! j = map (block_of (C @ [e])) ks ! j"
        using j i ks(3) by (auto simp: block_of_snoc nth_list_update)
    qed (simp add: ks(3))
    moreover have "keys_in (C @ [e]) c = set ks" using True assms(2)
      by (simp only: keys_in_snoc if_cancel ks(2) [symmetric] insert_absorb)
    ultimately have g: "grouped (C @ [e]) c offs (bs[i := bs ! i @ [e]])"
      unfolding grouped_def
      by (intro exI [of _ ks] conjI allI impI) (simp_all only: ks(1) ks(4))
    have "offs ?k = Some i" using ks(4) [OF assms(2)] i by simp
    then have "add_to_block ?k e offs bs = Inr (offs, bs[i := bs ! i @ [e]])"
      using i ks(3) by (simp add: add_to_block_def)
    with g show ?thesis by blast
  next
    case False
    have none: "offs ?k = None"
    proof (rule ccontr)
      assume "offs ?k \<noteq> None"
      then obtain j where "offs ?k = Some j" by blast
      then have "j < length ks" "ks ! j = ?k" using ks(4) [OF assms(2), of j] by simp_all
      with False nth_mem [of j ks] show False by simp
    qed
    have "?k \<notin> event_key ` set C"
    proof
      assume "?k \<in> event_key ` set C"
      with assms(2) have "?k \<in> keys_in C c" unfolding keys_in_def by blast
      with False ks(2) show False by simp
    qed
    then have "bs @ [[e]] = map (block_of (C @ [e])) (ks @ [?k])"
      using ks(3) False by (auto simp: block_of_snoc block_of_empty)
    moreover have "set (ks @ [?k]) = keys_in (C @ [e]) c" using ks(2) assms(2) by (simp add: keys_in_snoc)
    moreover have "(offs(?k \<mapsto> length bs)) t = Some i \<longleftrightarrow> i < length (ks @ [?k]) \<and> (ks @ [?k]) ! i = t"
      if "class_of t = c" for t i
      using ks(3) ks(4) [OF that] False none
      by (auto simp: nth_append less_Suc_eq in_set_conv_nth)
    ultimately have "grouped (C @ [e]) c (offs(?k \<mapsto> length bs)) (bs @ [[e]])"
      using ks(1) False unfolding grouped_def
      by (intro exI [of _ "ks @ [?k]"] conjI allI impI) (simp_all only:, simp)
    moreover have "add_to_block ?k e offs bs = Inr (offs(?k \<mapsto> length bs), bs @ [[e]])"
      using none by (simp add: add_to_block_def)
    moreover have "\<forall>t. class_of t \<noteq> c \<longrightarrow> (offs(?k \<mapsto> length bs)) t = offs t" using assms(2) by auto
    ultimately show ?thesis by blast
  qed
qed

lemma class_of_simps:
  "class_of (ty, k) = Creates \<longleftrightarrow> ty = MRoomCreate \<and> k = []"
  "class_of (ty, k) = Power \<longleftrightarrow> ty = MRoomPowerLevels \<and> k = []"
  "class_of (ty, k) = Rules \<longleftrightarrow> ty = MRoomJoinRules \<and> k = []"
  "class_of (ty, k) = Members \<longleftrightarrow> ty = MRoomMember"
  "class_of (ty, k) = Invites \<longleftrightarrow> ty = MRoomThirdPartyInvite"
  "class_of (ty, k) = Others \<longleftrightarrow> ty \<noteq> MRoomMember \<and> ty \<noteq> MRoomThirdPartyInvite \<and>
     \<not> (k = [] \<and> ty \<in> {MRoomCreate, MRoomPowerLevels, MRoomJoinRules})"
  by (auto simp: class_of_def)

lemma addConflicted_step_eq:
  assumes "StateKey e \<noteq> None"
  shows "addConflicted_step e (offs, r) =
    (case class_of (event_key e) of
       Creates \<Rightarrow> Inr (offs, r\<lparr>sr_creates := sr_creates r @ [e]\<rparr>)
     | Power \<Rightarrow> Inr (offs, r\<lparr>sr_powerLevels := sr_powerLevels r @ [e]\<rparr>)
     | Rules \<Rightarrow> Inr (offs, r\<lparr>sr_joinRules := sr_joinRules r @ [e]\<rparr>)
     | Members \<Rightarrow> bindR (add_to_block (event_key e) e offs (sr_members r)) (\<lambda>(o1, bs). Inr (o1, r\<lparr>sr_members := bs\<rparr>))
     | Invites \<Rightarrow> bindR (add_to_block (event_key e) e offs (sr_thirdPartyInvites r)) (\<lambda>(o1, bs). Inr (o1, r\<lparr>sr_thirdPartyInvites := bs\<rparr>))
     | Others \<Rightarrow> bindR (add_to_block (event_key e) e offs (sr_others r)) (\<lambda>(o1, bs). Inr (o1, r\<lparr>sr_others := bs\<rparr>)))"
  using assms by (auto simp: addConflicted_step_def class_of_def event_key_def)

lemma conflict_inv_step:
  assumes inv: "conflict_inv C r0 s" and st: "StateKey e \<noteq> None"
  shows "\<exists>s'. addConflicted_step e s = Inr s' \<and> conflict_inv (C @ [e]) r0 s'"
proof -
  obtain offs r where s: "s = (offs, r)" by (cases s)
  have c: "class_of (event_key e) = c \<Longrightarrow> c' \<noteq> c \<Longrightarrow> grouped C c' offs bs \<Longrightarrow>
      (\<And>t. class_of t \<noteq> c \<Longrightarrow> offs' t = offs t) \<Longrightarrow> grouped (C @ [e]) c' offs' bs" for c c' bs offs'
    by (rule grouped_other) auto
  have b: "class_of (event_key e) \<noteq> class_of t \<Longrightarrow> block_of (C @ [e]) t = block_of C t" for t
    by (auto simp: block_of_snoc)
  note i = inv [unfolded s conflict_inv_def prod.case]
  have k: "class_of (MRoomCreate, []) = Creates" "class_of (MRoomPowerLevels, []) = Power"
    "class_of (MRoomJoinRules, []) = Rules" by (simp_all add: class_of_def)
  show ?thesis
  proof (cases "class_of (event_key e)")
    case Creates
    then have "event_key e = (MRoomCreate, [])" by (simp add: class_of_def split: if_splits)
    with Creates i show ?thesis unfolding s addConflicted_step_eq [OF st] conflict_inv_def
      by (simp add: b k block_of_snoc c [OF Creates])
  next
    case Power
    then have "event_key e = (MRoomPowerLevels, [])" by (simp add: class_of_def split: if_splits)
    with Power i show ?thesis unfolding s addConflicted_step_eq [OF st] conflict_inv_def
      by (simp add: b k block_of_snoc c [OF Power])
  next
    case Rules
    then have "event_key e = (MRoomJoinRules, [])" by (simp add: class_of_def split: if_splits)
    with Rules i show ?thesis unfolding s addConflicted_step_eq [OF st] conflict_inv_def
      by (simp add: b k block_of_snoc c [OF Rules])
  next
    case Members
    obtain offs' bs' where a: "add_to_block (event_key e) e offs (sr_members r) = Inr (offs', bs')"
      "grouped (C @ [e]) Members offs' bs'" "\<forall>t. class_of t \<noteq> Members \<longrightarrow> offs' t = offs t"
      using add_to_block_grouped [OF _ Members, of C offs "sr_members r"] i by blast
    moreover have "grouped (C @ [e]) Invites offs' (sr_thirdPartyInvites r)" "grouped (C @ [e]) Others offs' (sr_others r)"
      using i a(3) by (auto intro!: c [OF Members])
    ultimately show ?thesis using Members i unfolding s addConflicted_step_eq [OF st] conflict_inv_def
      by (simp add: b k)
  next
    case Invites
    obtain offs' bs' where a: "add_to_block (event_key e) e offs (sr_thirdPartyInvites r) = Inr (offs', bs')"
      "grouped (C @ [e]) Invites offs' bs'" "\<forall>t. class_of t \<noteq> Invites \<longrightarrow> offs' t = offs t"
      using add_to_block_grouped [OF _ Invites, of C offs "sr_thirdPartyInvites r"] i by blast
    moreover have "grouped (C @ [e]) Members offs' (sr_members r)" "grouped (C @ [e]) Others offs' (sr_others r)"
      using i a(3) by (auto intro!: c [OF Invites])
    ultimately show ?thesis using Invites i unfolding s addConflicted_step_eq [OF st] conflict_inv_def
      by (simp add: b k)
  next
    case Others
    obtain offs' bs' where a: "add_to_block (event_key e) e offs (sr_others r) = Inr (offs', bs')"
      "grouped (C @ [e]) Others offs' bs'" "\<forall>t. class_of t \<noteq> Others \<longrightarrow> offs' t = offs t"
      using add_to_block_grouped [OF _ Others, of C offs "sr_others r"] i by blast
    moreover have "grouped (C @ [e]) Members offs' (sr_members r)" "grouped (C @ [e]) Invites offs' (sr_thirdPartyInvites r)"
      using i a(3) by (auto intro!: c [OF Others])
    ultimately show ?thesis using Others i unfolding s addConflicted_step_eq [OF st] conflict_inv_def
      by (simp add: b k)
  qed
qed

lemma addConflicted_grouped:
  assumes "\<forall>e \<in> set C. StateKey e \<noteq> None"
  shows "\<exists>r offs. addConflicted C new_resolver = Inr r \<and> conflict_inv C new_resolver (offs, r)"
proof -
  have "\<exists>s. foldR addConflicted_step C (Map.empty, new_resolver) = Inr s \<and> conflict_inv C new_resolver s"
    using assms
  proof (induction C rule: rev_induct)
    case Nil
    then show ?case by (simp add: conflict_inv_def grouped_def keys_in_def block_of_def new_resolver_def)
  next
    case (snoc e C)
    then obtain s where "foldR addConflicted_step C (Map.empty, new_resolver) = Inr s"
      "conflict_inv C new_resolver s" by auto
    with conflict_inv_step [of C new_resolver s e] snoc.prems show ?case by (auto simp: foldR_append)
  qed
  then show ?thesis by (auto simp: addConflicted_def)
qed

section \<open>Authorisation view\<close>

lemma resolver_provider_auth_of: "resolver_provider r = AuthEvents_provider (auth_of r)"
  by (simp add: resolver_provider_def AuthEvents_provider_def auth_of_def)

lemma auth_of_update:
  "auth_of (r\<lparr>resolvedCreate := x\<rparr>) = (auth_of r)((MRoomCreate, []) := x)"
  "auth_of (r\<lparr>resolvedPowerLevels := x\<rparr>) = (auth_of r)((MRoomPowerLevels, []) := x)"
  "auth_of (r\<lparr>resolvedJoinRules := x\<rparr>) = (auth_of r)((MRoomJoinRules, []) := x)"
  "auth_of (r\<lparr>resolvedMembers := (resolvedMembers r)(k := x)\<rparr>) = (auth_of r)((MRoomMember, k) := x)"
  "auth_of (r\<lparr>resolvedThirdPartyInvites := (resolvedThirdPartyInvites r)(k := x)\<rparr>)
     = (auth_of r)((MRoomThirdPartyInvite, k) := x)"
  by (rule ext, simp add: auth_of_def prod_eq_iff)+

lemma addAuthEvent_auth:
  assumes "auth_event e"
  shows "\<exists>r1. addAuthEvent e r = Inr r1 \<and> auth_of r1 = (auth_of r)(event_key e \<mapsto> e) \<and>
    blocks_of r1 = blocks_of r \<and> sr_result r1 = sr_result r"
proof -
  obtain k where k: "StateKey e = Some k" "event_key e = (EvType e, k)"
    using assms by (auto simp: auth_event_def event_key_def)
  with assms have "class_of (EvType e, k) \<noteq> Others" by (simp add: auth_event_def)
  then consider "EvType e = MRoomCreate" "k = []" | "EvType e = MRoomPowerLevels" "k = []"
    | "EvType e = MRoomJoinRules" "k = []" | "EvType e = MRoomMember" | "EvType e = MRoomThirdPartyInvite"
    by (cases "class_of (EvType e, k)") (simp_all only: class_of_simps, blast+)
  then show ?thesis
    unfolding k(2)
    by cases (simp_all add: addAuthEvent_def StateKeyEquals_def k(1) auth_of_update blocks_of_def)
qed

lemma removeAuthEvent_auth:
  assumes "class_of (ty, k) \<noteq> Others"
  shows "\<exists>r1. removeAuthEvent ty k r = Inr r1 \<and> auth_of r1 = (auth_of r)((ty, k) := None) \<and>
    blocks_of r1 = blocks_of r \<and> sr_result r1 = sr_result r"
  using assms
  by (cases "class_of (ty, k)")
    (simp_all add: class_of_simps removeAuthEvent_def auth_of_update blocks_of_def)

lemma provider_safe_AuthEvents: "provider_safe (AuthEvents_provider A)"
  by (simp add: provider_safe_def AuthEvents_provider_def)

lemma check_against_passes:
  assumes "skip_ok env conf st" "checkable env e"
  shows "\<exists>st1. check_against env e r st = Inr (passes_auth env conf (auth_of r) e, st1) \<and> skip_ok env conf st1"
proof -
  let ?a = "Allowed env e (AuthEvents_provider (auth_of r)) st"
  have st: "skip_coherent (env_MatchString env) st" "skipMapConf st = conf"
    using assms(1) by (simp_all add: skip_ok_def)
  have "fst ?a = fst (Allowed env e (AuthEvents_provider (auth_of r)) \<lparr>skipMapConf = conf, skipMap = []\<rparr>)"
    using fst_Allowed_cache [OF st(1)] st(2) by (cases st) simp
  then have p: "passes_auth env conf (auth_of r) e \<longleftrightarrow> fst ?a = Inr ()" by (simp add: passes_auth_def)
  have np: "\<not> is_panic (fst ?a)"
  proof
    assume "is_panic (fst ?a)"
    from Allowed_panicD [OF provider_safe_AuthEvents this] assms(2) show False
      by (auto simp: checkable_def)
  qed
  have ok: "skip_ok env conf (snd ?a)" using snd_Allowed_cache [OF st(1)] st(2) by (simp add: skip_ok_def)
  obtain res st1 where a: "?a = (res, st1)" by (cases ?a)
  show ?thesis
    using np ok p unfolding check_against_def resolver_provider_auth_of a
    by (cases res) (auto split: go_error.splits)
qed

section \<open>Sorting\<close>

lemma insert_by_mset: "mset (insert_by lt x xs) = add_mset x (mset xs)"
  by (induction xs) auto

lemma sort_by_mset [simp]: "mset (sort_by lt xs) = mset xs"
  by (induction xs) (auto simp: insert_by_mset)

lemma sort_by_set [simp]: "set (sort_by lt xs) = set xs"
  using sort_by_mset [of lt xs] by (metis set_mset_mset)

lemma sort_by_Nil_iff [simp]: "sort_by lt xs = [] \<longleftrightarrow> xs = []"
  using sort_by_mset [of lt xs] by (metis mset_zero_iff)

lemma Less_total: "Less sha1 a b \<or> Less sha1 b a \<or> Depth a = Depth b \<and> sha1 (EventID a) = sha1 (EventID b)"
  by (auto simp: Less_def)

lemma not_Less_trans: "\<not> Less sha1 b a \<Longrightarrow> \<not> Less sha1 c b \<Longrightarrow> \<not> Less sha1 c a"
  by (auto simp: Less_def split: if_splits)

lemma insert_by_sorted:
  "sorted_wrt (\<lambda>a b. \<not> Less sha1 b a) xs \<Longrightarrow> sorted_wrt (\<lambda>a b. \<not> Less sha1 b a) (insert_by (Less sha1) x xs)"
proof (induction xs)
  case (Cons y ys)
  have mem: "set (insert_by (Less sha1) x ys) = insert x (set ys)"
    using insert_by_mset [of "Less sha1" x ys] by (metis set_mset_add_mset_insert set_mset_mset)
  show ?case
  proof (cases "Less sha1 y x")
    case True
    then have "\<not> Less sha1 x y" by (auto simp: Less_def split: if_splits)
    with True Cons mem show ?thesis by auto
  next
    case False
    have "\<not> Less sha1 z x" if "z \<in> set ys" for z
      using that Cons.prems by (intro not_Less_trans [OF False]) auto
    with False Cons.prems show ?thesis by auto
  qed
qed simp

lemma sort_by_sorted: "sorted_wrt (\<lambda>a b. \<not> Less sha1 b a) (sort_by (Less sha1) xs)"
  by (induction xs) (auto simp: insert_by_sorted)

lemma sorted_unique:
  assumes "sorted_wrt (\<lambda>a b. \<not> Less sha1 b a) xs" "sorted_wrt (\<lambda>a b. \<not> Less sha1 b a) ys"
    "mset xs = mset ys" "no_ties sha1 xs"
  shows "xs = ys"
  using assms
proof (induction xs arbitrary: ys)
  case (Cons x xs)
  then obtain y zs where ys: "ys = y # zs" by (cases ys) auto
  have "x \<in> set ys" "y \<in> set (x # xs)" using Cons.prems(3) ys by (metis list.set_intros(1) set_mset_mset)+
  then have "x = y \<or> \<not> Less sha1 x y \<and> \<not> Less sha1 y x"
    using Cons.prems(1,2) ys by auto
  then have "x = y"
    using Less_total [of sha1 x y] Cons.prems(4) \<open>y \<in> set (x # xs)\<close> by (auto simp: no_ties_def)
  moreover have "xs = zs"
    using Cons.prems ys calculation by (intro Cons.IH) (auto simp: no_ties_def)
  ultimately show ?case using ys by simp
qed simp

lemma sort_by_perm:
  "mset xs = mset ys \<Longrightarrow> no_ties sha1 xs \<Longrightarrow> sort_by (Less sha1) xs = sort_by (Less sha1) ys"
  by (intro sorted_unique) (auto simp: sort_by_sorted no_ties_def)

lemma auth_pick_mem: "auth_pick env conf A cand es \<in> set (cand # es)"
  by (induction es arbitrary: cand) auto

lemma normal_pick_mem: "normal_pick env conf A oldest es \<in> set (oldest # es)"
  by (induction es) auto

lemma auth_winner_mem: "b \<noteq> [] \<Longrightarrow> auth_winner env conf sha1 A b \<in> set b"
  using auth_pick_mem [of env conf A "hd (sort_by (Less sha1) b)" "tl (sort_by (Less sha1) b)"]
    sort_by_set [of "Less sha1" b]
  by (cases "sort_by (Less sha1) b") (auto simp: auth_winner_def)

lemma normal_winner_mem: "b \<noteq> [] \<Longrightarrow> normal_winner env conf sha1 A b \<in> set b"
  using normal_pick_mem [of env conf A "hd (sort_by (Less sha1) b)" "rev (tl (sort_by (Less sha1) b))"]
    sort_by_set [of "Less sha1" b]
  by (cases "sort_by (Less sha1) b") (auto simp: normal_winner_def)

lemma auth_loop_pick:
  assumes "\<forall>e \<in> set (cand # es). event_key e = t \<and> auth_event e \<and> checkable env e"
    and "skip_ok env conf st" "auth_of r = A(t \<mapsto> cand)"
  shows "\<exists>r1 st1. auth_loop env cand es r st = Inr (auth_pick env conf A cand es, r1, st1) \<and>
    auth_of r1 = A(t \<mapsto> auth_pick env conf A cand es) \<and> blocks_of r1 = blocks_of r \<and>
    sr_result r1 = sr_result r \<and> skip_ok env conf st1"
  using assms
proof (induction es arbitrary: cand r st)
  case (Cons e es)
  obtain st1 where st1: "check_against env e r st = Inr (passes_auth env conf (auth_of r) e, st1)"
    "skip_ok env conf st1"
    using check_against_passes [OF Cons.prems(2), of e r] Cons.prems(1) by auto
  have key: "event_key cand = t" "event_key e = t" "auth_event e" using Cons.prems(1) by auto
  have same: "passes_auth env conf (A(event_key cand \<mapsto> cand)) e = passes_auth env conf (auth_of r) e"
    unfolding key(1) Cons.prems(3) by (rule refl)
  show ?case
  proof (cases "passes_auth env conf (auth_of r) e")
    case True
    obtain r1 where r1: "addAuthEvent e r = Inr r1" "auth_of r1 = (auth_of r)(t \<mapsto> e)"
      "blocks_of r1 = blocks_of r" "sr_result r1 = sr_result r"
      using addAuthEvent_auth [OF key(3), of r] key(2) by auto
    have "auth_of r1 = A(t \<mapsto> e)" unfolding r1(2) Cons.prems(3) by (rule fun_upd_upd)
    moreover have "\<forall>x \<in> set (e # es). event_key x = t \<and> auth_event x \<and> checkable env x"
      using Cons.prems(1) by simp
    ultimately have ih: "\<exists>r2 st2. auth_loop env e es r1 st1 = Inr (auth_pick env conf A e es, r2, st2) \<and>
        auth_of r2 = A(t \<mapsto> auth_pick env conf A e es) \<and> blocks_of r2 = blocks_of r1 \<and>
        sr_result r2 = sr_result r1 \<and> skip_ok env conf st2"
      using Cons.IH st1(2) by blast
    have eqs: "auth_pick env conf A cand (e # es) = auth_pick env conf A e es"
      "auth_loop env cand (e # es) r st = auth_loop env e es r1 st1"
      using same True st1(1) r1(1) by simp_all
    show ?thesis using ih unfolding eqs r1(3,4) .
  next
    case False
    have eqs: "auth_pick env conf A cand (e # es) = cand" "auth_loop env cand (e # es) r st = Inr (cand, r, st1)"
      using same False st1(1) by simp_all
    show ?thesis unfolding eqs using st1(2) Cons.prems(3) by blast
  qed
qed simp

lemma resolveAuthBlock_winner:
  assumes "b \<noteq> []" "\<forall>e \<in> set b. event_key e = t \<and> auth_event e \<and> checkable env e" "skip_ok env conf st"
  shows "\<exists>r1 st1. resolveAuthBlock env sha1 b r st = Inr (auth_winner env conf sha1 (auth_of r) b, r1, st1) \<and>
    auth_of r1 = (auth_of r)(t := None) \<and> blocks_of r1 = blocks_of r \<and> sr_result r1 = sr_result r \<and>
    skip_ok env conf st1"
proof -
  obtain f es where s: "sort_by (Less sha1) b = f # es" using assms(1) by (cases "sort_by (Less sha1) b") auto
  then have mem: "\<forall>e \<in> set (f # es). event_key e = t \<and> auth_event e \<and> checkable env e"
    using assms(2) sort_by_set [of "Less sha1" b] by simp
  then obtain r1 where r1: "addAuthEvent f r = Inr r1" "auth_of r1 = (auth_of r)(t \<mapsto> f)"
    "blocks_of r1 = blocks_of r" "sr_result r1 = sr_result r"
    using addAuthEvent_auth [of f r] by auto
  define w where "w = auth_pick env conf (auth_of r) f es"
  obtain r2 st2 where r2: "auth_loop env f es r1 st = Inr (w, r2, st2)" "auth_of r2 = (auth_of r)(t \<mapsto> w)"
    "blocks_of r2 = blocks_of r" "sr_result r2 = sr_result r" "skip_ok env conf st2"
    using auth_loop_pick [OF mem assms(3) r1(2)] r1(3,4) unfolding w_def by auto
  have "w \<in> set (f # es)" unfolding w_def by (rule auth_pick_mem)
  with mem have w: "event_key w = t" "auth_event w" by auto
  then obtain k where k: "StateKey w = Some k" "t = (EvType w, k)" "class_of (EvType w, k) \<noteq> Others"
    by (auto simp: auth_event_def event_key_def)
  obtain r3 where r3: "removeAuthEvent (EvType w) k r2 = Inr r3" "auth_of r3 = (auth_of r2)(t := None)"
    "blocks_of r3 = blocks_of r2" "sr_result r3 = sr_result r2"
    using removeAuthEvent_auth [OF k(3), of r2] k(2) by auto
  have "resolveAuthBlock env sha1 b r st = Inr (w, r3, st2)"
    using s r1(1) r2(1) r3(1) k(1)
    by (simp add: resolveAuthBlock_def sortConflictedEventsByDepthAndSHA1_def)
  moreover have "w = auth_winner env conf sha1 (auth_of r) b" using s by (simp add: auth_winner_def w_def)
  ultimately show ?thesis using r2 r3 by auto
qed

lemma block_facts:
  assumes "valid_conflict env C" "t \<in> keys_in C c"
  shows "block_of C t \<noteq> []" "\<forall>e \<in> set (block_of C t). event_key e = t \<and> StateKey e \<noteq> None \<and> checkable env e"
    "class_of t = c" "c \<noteq> Others \<Longrightarrow> \<forall>e \<in> set (block_of C t). auth_event e"
  using assms by (auto simp: valid_conflict_def keys_in_def block_of_def filter_empty_conv auth_event_def)

lemma resolve_blocks_winners:
  assumes "valid_conflict env C" "set ks \<subseteq> keys_in C c" "c \<noteq> Others" "skip_ok env conf st"
    and "\<forall>t \<in> set ks. auth_of r t = None"
  shows "\<exists>r1 st1. resolve_blocks env sha1 (map (block_of C) ks) r st =
      Inr (map (\<lambda>t. auth_winner env conf sha1 (auth_of r) (block_of C t)) ks, r1, st1) \<and>
    auth_of r1 = auth_of r \<and> blocks_of r1 = blocks_of r \<and> sr_result r1 = sr_result r \<and> skip_ok env conf st1"
  using assms
proof (induction ks arbitrary: r st)
  case (Cons t ks)
  have t: "t \<in> keys_in C c" using Cons.prems(2) by simp
  note b = block_facts [OF Cons.prems(1) t]
  obtain r1 st1 where r1: "resolveAuthBlock env sha1 (block_of C t) r st =
      Inr (auth_winner env conf sha1 (auth_of r) (block_of C t), r1, st1)"
    "auth_of r1 = (auth_of r)(t := None)" "blocks_of r1 = blocks_of r" "sr_result r1 = sr_result r"
    "skip_ok env conf st1"
    using resolveAuthBlock_winner [OF b(1) _ Cons.prems(4), of t sha1 r] b(2) b(4) [OF Cons.prems(3)] by auto
  have same: "auth_of r1 = auth_of r" using r1(2) Cons.prems(5) by (auto simp: fun_eq_iff)
  then obtain r2 st2 where "resolve_blocks env sha1 (map (block_of C) ks) r1 st1 =
      Inr (map (\<lambda>t. auth_winner env conf sha1 (auth_of r) (block_of C t)) ks, r2, st2)"
    "auth_of r2 = auth_of r" "blocks_of r2 = blocks_of r1" "sr_result r2 = sr_result r1" "skip_ok env conf st2"
    using Cons.IH [OF Cons.prems(1) _ Cons.prems(3) r1(5), of r1] Cons.prems(2,5) by auto
  with r1 b(1) show ?case by simp
qed simp

section \<open>The resolver as a store of state events\<close>

lemma addAuthEvent_other: "\<not> auth_event e \<Longrightarrow> addAuthEvent e r = Inr r1 \<Longrightarrow> r1 = r"
  by (auto simp: auth_event_def addAuthEvent_def StateKeyEquals_def event_key_def class_of_simps
      split: if_splits option.splits)

interpretation resolver: state_store
  "\<lambda>e r. case addAuthEvent e r of Inr r1 \<Rightarrow> r1 | Inl _ \<Rightarrow> r" auth_of auth_event
proof
  fix e :: "'c Event" and s and t :: StateKeyTuple
  show "StateKey e \<noteq> None" if "auth_event e" using that by (simp add: auth_event_def)
  show "auth_of (case addAuthEvent e s of Inr r1 \<Rightarrow> r1 | Inl _ \<Rightarrow> s) t =
      (if t = event_key e then Some e else auth_of s t)" if "auth_event e"
    using addAuthEvent_auth [OF that, of s] by auto
  show "auth_of (case addAuthEvent e s of Inr r1 \<Rightarrow> r1 | Inl _ \<Rightarrow> s) t = auth_of s t" if "\<not> auth_event e"
    using addAuthEvent_other [OF that, of s] by (auto split: sum.split)
qed

lemma foldR_addAuthEvent:
  assumes "\<forall>e \<in> set es. auth_event e"
  shows "\<exists>r1. foldR addAuthEvent es r = Inr r1 \<and>
    (\<forall>t. auth_of r1 t = (case last_setting t es of Some e \<Rightarrow> Some e | None \<Rightarrow> auth_of r t)) \<and>
    blocks_of r1 = blocks_of r \<and> sr_result r1 = sr_result r"
proof -
  have "\<exists>r1. foldR addAuthEvent es r = Inr r1 \<and>
      r1 = fold (\<lambda>e r. case addAuthEvent e r of Inr r1 \<Rightarrow> r1 | Inl _ \<Rightarrow> r) es r \<and>
      blocks_of r1 = blocks_of r \<and> sr_result r1 = sr_result r"
    using assms
  proof (induction es arbitrary: r)
    case (Cons e es)
    then obtain r1 where "addAuthEvent e r = Inr r1" "blocks_of r1 = blocks_of r" "sr_result r1 = sr_result r"
      using addAuthEvent_auth [of e r] by auto
    with Cons.IH [of r1] Cons.prems show ?case by auto
  qed simp
  moreover have "filter auth_event es = es" using assms by (simp add: filter_id_conv)
  ultimately show ?thesis using resolver.look_fold [of es r] by auto
qed

lemma stage_keys_single:
  assumes "\<And>u. class_of u = c \<longleftrightarrow> u = t"
  shows "stage_keys C c [block_of C t] (if t \<in> event_key ` set C then [t] else [])"
proof -
  have "keys_in C c = (if t \<in> event_key ` set C then {t} else {})"
    unfolding keys_in_def assms by (simp add: Collect_conv_if conj_commute)
  then show ?thesis using block_of_empty [of t C] by (simp add: stage_keys_def)
qed

lemma last_setting_map:
  assumes "\<forall>t \<in> set ks. event_key (w t) = t \<and> StateKey (w t) \<noteq> None" "distinct ks"
  shows "last_setting t (map w ks) = (if t \<in> set ks then Some (w t) else None)"
  using assms by (induction ks) (auto simp: event_key_def split: option.splits)

lemma result_frame [simp]:
  "auth_of (r\<lparr>sr_result := x\<rparr>) = auth_of r" "blocks_of (r\<lparr>sr_result := x\<rparr>) = blocks_of r"
  by (rule ext, simp add: auth_of_def) (simp add: blocks_of_def)

lemma stage_step:
  assumes "valid_conflict env C" "stage_keys C c bs ks" "c \<noteq> Others" "skip_ok env conf st"
    and "\<forall>t \<in> keys_in C c. auth_of r t = None"
  shows "\<exists>r1 st1. resolveAndAddAuthBlocks env sha1 bs (r, st) = Inr (r1, st1) \<and>
    auth_of r1 = stage env conf sha1 C c (auth_of r) \<and> blocks_of r1 = blocks_of r \<and>
    sr_result r1 = sr_result r @ map (\<lambda>t. auth_winner env conf sha1 (auth_of r) (block_of C t)) ks \<and>
    skip_ok env conf st1"
proof -
  let ?w = "\<lambda>t. auth_winner env conf sha1 (auth_of r) (block_of C t)"
  have ks: "distinct ks" "set ks = keys_in C c" using assms(2) by (auto simp: stage_keys_def)
  have "resolve_blocks env sha1 bs r st = resolve_blocks env sha1 (map (block_of C) ks) r st"
    using assms(2) by (auto simp: stage_keys_def)
  then obtain r1 st1 where r1: "resolve_blocks env sha1 bs r st = Inr (map ?w ks, r1, st1)"
    "auth_of r1 = auth_of r" "blocks_of r1 = blocks_of r" "sr_result r1 = sr_result r" "skip_ok env conf st1"
    using resolve_blocks_winners [OF assms(1) _ assms(3,4), of ks r sha1] ks(2) assms(5) by auto
  have w: "event_key (?w t) = t \<and> auth_event (?w t)" if "t \<in> set ks" for t
    using that block_facts [OF assms(1), of t c] auth_winner_mem [of "block_of C t" env conf sha1 "auth_of r"]
      assms(3) ks(2) by blast
  let ?r1 = "r1\<lparr>sr_result := sr_result r @ map ?w ks\<rparr>"
  have same: "auth_of ?r1 = auth_of r" "blocks_of ?r1 = blocks_of r"
    using r1(2,3) by simp_all
  obtain r2 where r2: "foldR addAuthEvent (map ?w ks) ?r1 = Inr r2" "blocks_of r2 = blocks_of r"
    "sr_result r2 = sr_result r @ map ?w ks"
    "\<forall>t. auth_of r2 t = (case last_setting t (map ?w ks) of Some e \<Rightarrow> Some e | None \<Rightarrow> auth_of r t)"
    using foldR_addAuthEvent [of "map ?w ks" ?r1] w unfolding same by auto
  have "last_setting t (map ?w ks) = (if t \<in> keys_in C c then Some (?w t) else None)" for t
    using last_setting_map [of ks ?w t] w ks by (auto simp: auth_event_def)
  then have "auth_of r2 t = stage env conf sha1 C c (auth_of r) t" for t
    unfolding stage_def r2(4) [rule_format] by simp
  then have "auth_of r2 = stage env conf sha1 C c (auth_of r)" by (rule ext)
  moreover have "resolveAndAddAuthBlocks env sha1 bs (r, st) = Inr (r2, st1)"
    using r1(1,4) r2(1) by (simp add: resolveAndAddAuthBlocks_def)
  ultimately show ?thesis using r2(2,3) r1(5) by blast
qed

lemma resolveNormalBlock_winner:
  assumes "b \<noteq> []" "\<forall>e \<in> set b. checkable env e" "skip_ok env conf st"
  shows "\<exists>st1. resolveNormalBlock env sha1 b r st = Inr (normal_winner env conf sha1 (auth_of r) b, st1) \<and>
    skip_ok env conf st1"
proof -
  have loop: "\<exists>st1. normal_loop env f es r st = Inr (normal_pick env conf (auth_of r) f es, st1) \<and> skip_ok env conf st1"
    if "\<forall>e \<in> set es. checkable env e" "skip_ok env conf st" for f es st
    using that
  proof (induction es arbitrary: st)
    case (Cons e es)
    then show ?case using check_against_passes [of env conf st e r] by fastforce
  qed simp
  obtain f es where s: "sort_by (Less sha1) b = f # es" using assms(1) by (cases "sort_by (Less sha1) b") auto
  then have "\<forall>e \<in> set (rev es). checkable env e" using assms(2) sort_by_set [of "Less sha1" b] by auto
  from loop [OF this assms(3), of f] s show ?thesis
    by (simp add: resolveNormalBlock_def sortConflictedEventsByDepthAndSHA1_def normal_winner_def)
qed

lemma others_step:
  assumes "valid_conflict env C" "set ks \<subseteq> keys_in C Others" "skip_ok env conf st"
  shows "\<exists>r1 st1. foldR (resolve_other env sha1) (map (block_of C) ks) (r, st) = Inr (r1, st1) \<and>
    sr_result r1 = sr_result r @ map (\<lambda>t. normal_winner env conf sha1 (auth_of r) (block_of C t)) ks \<and>
    skip_ok env conf st1"
  using assms
proof (induction ks arbitrary: r st)
  case (Cons t ks)
  let ?w = "normal_winner env conf sha1 (auth_of r) (block_of C t)"
  let ?r1 = "r\<lparr>sr_result := sr_result r @ [?w]\<rparr>"
  note b = block_facts [OF Cons.prems(1), of t Others]
  obtain st1 where "resolve_other env sha1 (block_of C t) (r, st) = Inr (?r1, st1)" "skip_ok env conf st1"
    using resolveNormalBlock_winner [OF b(1) _ Cons.prems(3), of sha1 r] b(2) Cons.prems(2)
    by (auto simp: resolve_other_def)
  with Cons.IH [of st1 ?r1] Cons.prems(1,2) show ?case by simp
qed simp

section \<open>The choice as a function of the keys\<close>

lemma stage_other: "class_of t \<noteq> c \<Longrightarrow> stage env conf sha1 C c A t = A t"
  by (simp add: stage_def keys_in_def)

lemma stage_key:
  "t \<in> keys_in C c \<Longrightarrow> stage env conf sha1 C c A t = Some (auth_winner env conf sha1 A (block_of C t))"
  by (simp add: stage_def)

lemma keys_in_class: "t \<in> keys_in C c \<Longrightarrow> class_of t = c"
  by (simp add: keys_in_def)

lemma mset_block_of: "mset C = mset C' \<Longrightarrow> mset (block_of C t) = mset (block_of C' t)"
  unfolding block_of_def by (metis mset_filter)

lemma winners_perm:
  assumes "mset C = mset C'" "no_ties sha1 C"
  shows "auth_winner env conf sha1 A (block_of C t) = auth_winner env conf sha1 A (block_of C' t)"
    "normal_winner env conf sha1 A (block_of C t) = normal_winner env conf sha1 A (block_of C' t)"
proof -
  have "no_ties sha1 (block_of C t)" using assms(2) by (auto simp: no_ties_def block_of_def)
  from sort_by_perm [OF mset_block_of [OF assms(1)] this]
  show "auth_winner env conf sha1 A (block_of C t) = auth_winner env conf sha1 A (block_of C' t)"
    "normal_winner env conf sha1 A (block_of C t) = normal_winner env conf sha1 A (block_of C' t)"
    by (simp_all add: auth_winner_def normal_winner_def)
qed

lemma keys_in_perm: "mset C = mset C' \<Longrightarrow> keys_in C c = keys_in C' c"
  unfolding keys_in_def by (metis set_mset_mset)

lemma choice_perm:
  assumes "mset C = mset C'" "no_ties sha1 C"
  shows "choice env conf sha1 C A = choice env conf sha1 C' A"
proof -
  have "stage env conf sha1 C = stage env conf sha1 C'"
    using winners_perm(1) [OF assms] keys_in_perm [OF assms(1)]
    by (intro ext) (simp add: stage_def)
  then have "resolved_auth env conf sha1 C = resolved_auth env conf sha1 C'"
    by (intro ext) (simp add: resolved_auth_def)
  then show ?thesis using winners_perm(2) [OF assms] by (intro ext) (simp add: choice_def)
qed

lemma class_single:
  "class_of u = Creates \<longleftrightarrow> u = (MRoomCreate, [])"
  "class_of u = Power \<longleftrightarrow> u = (MRoomPowerLevels, [])"
  "class_of u = Rules \<longleftrightarrow> u = (MRoomJoinRules, [])"
  by (cases u, simp add: class_of_simps)+

lemma grouped_stage_keys: "grouped C c offs bs \<Longrightarrow> \<exists>ks. stage_keys C c bs ks \<and> bs = map (block_of C) ks"
  by (auto simp: grouped_def stage_keys_def)

text \<open>The resolver after the grouping and the first authorisation events.\<close>

lemma resolver_start:
  assumes "valid_conflict env C" "\<forall>e \<in> set As. auth_event e"
  shows "\<exists>r ri k1 k2 k3 k4 k5 k6. addConflicted C new_resolver = Inr ri \<and> foldR addAuthEvent As ri = Inr r \<and>
    auth_of r = (\<lambda>t. last_setting t As) \<and> sr_result r = [] \<and>
    stage_keys C Creates [sr_creates r] k1 \<and> stage_keys C Power [sr_powerLevels r] k2 \<and>
    stage_keys C Rules [sr_joinRules r] k3 \<and> stage_keys C Invites (sr_thirdPartyInvites r) k4 \<and>
    stage_keys C Members (sr_members r) k5 \<and> stage_keys C Others (sr_others r) k6 \<and>
    sr_others r = map (block_of C) k6"
proof -
  obtain ri offs where ri: "addConflicted C new_resolver = Inr ri" "conflict_inv C new_resolver (offs, ri)"
    using addConflicted_grouped [of C] assms(1) by (auto simp: valid_conflict_def)
  have empty: "auth_of ri = Map.empty" "sr_result ri = []"
    using ri(2) by (auto simp: conflict_inv_def new_resolver_def auth_of_def)
  obtain r where r: "foldR addAuthEvent As ri = Inr r"
      "\<forall>t. auth_of r t = (case last_setting t As of Some e \<Rightarrow> Some e | None \<Rightarrow> auth_of ri t)"
      "blocks_of r = blocks_of ri" "sr_result r = sr_result ri"
    using foldR_addAuthEvent [OF assms(2), of ri] by auto
  have "auth_of r t = last_setting t As" for t
    unfolding r(2) [rule_format] empty(1) by (simp split: option.split)
  then have a: "auth_of r = (\<lambda>t. last_setting t As)" by (rule ext)
  have blocks: "sr_creates r = block_of C (MRoomCreate, [])" "sr_powerLevels r = block_of C (MRoomPowerLevels, [])"
    "sr_joinRules r = block_of C (MRoomJoinRules, [])" "grouped C Members offs (sr_members r)"
    "grouped C Invites offs (sr_thirdPartyInvites r)" "grouped C Others offs (sr_others r)"
    using ri(2) r(3) by (simp_all add: conflict_inv_def blocks_of_def)
  obtain k4 k5 k6 where "stage_keys C Invites (sr_thirdPartyInvites r) k4"
    "stage_keys C Members (sr_members r) k5" "stage_keys C Others (sr_others r) k6"
    "sr_others r = map (block_of C) k6"
    using blocks(4-6) [THEN grouped_stage_keys] by blast
  moreover note stage_keys_single [OF class_single(1), of C, folded blocks(1)]
    stage_keys_single [OF class_single(2), of C, folded blocks(2)]
    stage_keys_single [OF class_single(3), of C, folded blocks(3)]
  ultimately show ?thesis using ri(1) r(1,4) a empty(2) by auto
qed

text \<open>One stage, in the form in which the stages are chained.\<close>

lemma stage_chain:
  assumes "valid_conflict env C" "stage_keys C c bs ks" "c \<noteq> Others" "skip_ok env conf st"
    and "auth_of r = A" "\<forall>t \<in> keys_in C c. A t = None" "stage env conf sha1 C c A = A1"
    and "\<And>t. t \<in> keys_in C c \<Longrightarrow> F t = A1 t"
  shows "\<exists>r1 st1. resolveAndAddAuthBlocks env sha1 bs (r, st) = Inr (r1, st1) \<and> auth_of r1 = A1 \<and>
    blocks_of r1 = blocks_of r \<and> sr_result r1 = sr_result r @ map (\<lambda>t. the (F t)) ks \<and> skip_ok env conf st1"
proof -
  have "set ks = keys_in C c" using assms(2) by (simp add: stage_keys_def)
  then have "map (\<lambda>t. auth_winner env conf sha1 A (block_of C t)) ks = map (\<lambda>t. the (F t)) ks"
    using assms(8) stage_key [of _ C c env conf sha1 A] assms(7) by simp
  with stage_step [OF assms(1-4), of r sha1] assms(5-7) show ?thesis by auto
qed

lemma last_setting_None:
  "\<forall>e \<in> set es. auth_event e \<Longrightarrow> t \<notin> event_key ` set es \<Longrightarrow> last_setting t es = None"
  by (induction es) (auto simp: auth_event_def event_key_def)

lemma keys_in_cover:
  "event_key ` set C = keys_in C Creates \<union> keys_in C Power \<union> keys_in C Rules \<union> keys_in C Invites \<union>
     keys_in C Members \<union> keys_in C Others"
  unfolding keys_in_def by (auto intro: block_class.exhaust)

lemma keys_in_disjoint: "keys_in C c \<inter> keys_in C c' = (if c = c' then keys_in C c else {})"
  by (auto dest: keys_in_class)

lemma ResolveStateConflicts_choice:
  assumes val: "valid_conflict env C" and auth: "\<forall>e \<in> set As. auth_event e" and sk: "skip_ok env conf st"
    and disj: "event_key ` set As \<inter> event_key ` set C = {}"
  shows "\<exists>ks st1. ResolveStateConflicts env sha1 C As st =
      Inr (map (choice env conf sha1 C (\<lambda>t. last_setting t As)) ks, st1) \<and>
    distinct ks \<and> set ks = event_key ` set C"
proof -
  obtain r ri k1 k2 k3 k4 k5 k6 where r: "addConflicted C new_resolver = Inr ri" "foldR addAuthEvent As ri = Inr r"
    "auth_of r = (\<lambda>t. last_setting t As)" "sr_result r = []"
    and k: "stage_keys C Creates [sr_creates r] k1" "stage_keys C Power [sr_powerLevels r] k2"
    "stage_keys C Rules [sr_joinRules r] k3" "stage_keys C Invites (sr_thirdPartyInvites r) k4"
    "stage_keys C Members (sr_members r) k5" "stage_keys C Others (sr_others r) k6"
    and k6: "sr_others r = map (block_of C) k6"
    using resolver_start [OF val auth] by blast
  define A0 :: "'a AuthEvents" where "A0 = (\<lambda>t. last_setting t As)"
  have A0: "A0 t = None" if "t \<in> keys_in C c" for t c
    unfolding A0_def using that disj by (intro last_setting_None [OF auth]) (auto simp: keys_in_def)
  define S where "S = stage env conf sha1 C"
  define A1 where "A1 = S Creates A0"
  define A2 where "A2 = S Power A1"
  define A3 where "A3 = S Rules A2"
  define A4 where "A4 = S Invites A3"
  define A5 where "A5 = S Members A4"
  note As = A5_def A4_def A3_def A2_def A1_def
  have F: "resolved_auth env conf sha1 C A0 = A5" by (simp add: resolved_auth_def As S_def)
  have keep: "S c A t = A t" if "t \<in> keys_in C c'" "c' \<noteq> c" for c c' A t
    unfolding S_def using that by (intro stage_other) (simp add: keys_in_class)
  have none: "\<forall>t \<in> keys_in C Creates. A0 t = None" "\<forall>t \<in> keys_in C Power. A1 t = None"
    "\<forall>t \<in> keys_in C Rules. A2 t = None" "\<forall>t \<in> keys_in C Invites. A3 t = None"
    "\<forall>t \<in> keys_in C Members. A4 t = None" using A0 by (auto simp: As keep)
  have fin: "\<And>t. t \<in> keys_in C Creates \<Longrightarrow> A5 t = A1 t" "\<And>t. t \<in> keys_in C Power \<Longrightarrow> A5 t = A2 t"
    "\<And>t. t \<in> keys_in C Rules \<Longrightarrow> A5 t = A3 t" "\<And>t. t \<in> keys_in C Invites \<Longrightarrow> A5 t = A4 t"
    by (simp_all add: A5_def A4_def A3_def A2_def keep)
  note chain = stage_chain [OF val, of _ _ _ conf _ _ _ sha1 _ A5]
  obtain r1 st1 where 1: "resolveAndAddAuthBlocks env sha1 [sr_creates r] (r, st) = Inr (r1, st1)" "auth_of r1 = A1"
    "blocks_of r1 = blocks_of r" "sr_result r1 = map (\<lambda>t. the (A5 t)) k1" "skip_ok env conf st1"
    using chain [OF k(1) _ sk r(3) [folded A0_def] none(1) A1_def [symmetric, unfolded S_def] fin(1)] r(4) by auto
  obtain r2 st2 where 2: "resolveAndAddAuthBlocks env sha1 [sr_powerLevels r] (r1, st1) = Inr (r2, st2)" "auth_of r2 = A2"
    "blocks_of r2 = blocks_of r" "sr_result r2 = map (\<lambda>t. the (A5 t)) (k1 @ k2)" "skip_ok env conf st2"
    using chain [OF k(2) _ 1(5,2) none(2) A2_def [symmetric, unfolded S_def] fin(2)] 1(3,4) by auto
  obtain r3 st3 where 3: "resolveAndAddAuthBlocks env sha1 [sr_joinRules r] (r2, st2) = Inr (r3, st3)" "auth_of r3 = A3"
    "blocks_of r3 = blocks_of r" "sr_result r3 = map (\<lambda>t. the (A5 t)) (k1 @ k2 @ k3)" "skip_ok env conf st3"
    using chain [OF k(3) _ 2(5,2) none(3) A3_def [symmetric, unfolded S_def] fin(3)] 2(3,4) by auto
  obtain r4 st4 where 4: "resolveAndAddAuthBlocks env sha1 (sr_thirdPartyInvites r) (r3, st3) = Inr (r4, st4)"
    "auth_of r4 = A4" "blocks_of r4 = blocks_of r" "sr_result r4 = map (\<lambda>t. the (A5 t)) (k1 @ k2 @ k3 @ k4)"
    "skip_ok env conf st4"
    using chain [OF k(4) _ 3(5,2) none(4) A4_def [symmetric, unfolded S_def] fin(4)] 3(3,4) by auto
  obtain r5 st5 where 5: "resolveAndAddAuthBlocks env sha1 (sr_members r) (r4, st4) = Inr (r5, st5)"
    "auth_of r5 = A5" "blocks_of r5 = blocks_of r" "sr_result r5 = map (\<lambda>t. the (A5 t)) (k1 @ k2 @ k3 @ k4 @ k5)"
    "skip_ok env conf st5"
    using chain [OF k(5) _ 4(5,2) none(5) A5_def [symmetric, unfolded S_def] refl] 4(3,4) by auto
  have sk: "set k1 = keys_in C Creates" "set k2 = keys_in C Power" "set k3 = keys_in C Rules"
    "set k4 = keys_in C Invites" "set k5 = keys_in C Members" "set k6 = keys_in C Others"
    and dk: "distinct k1" "distinct k2" "distinct k3" "distinct k4" "distinct k5" "distinct k6"
    using k by (simp_all add: stage_keys_def)
  obtain r6 st6 where 6: "foldR (resolve_other env sha1) (sr_others r) (r5, st5) = Inr (r6, st6)"
    "sr_result r6 = sr_result r5 @ map (\<lambda>t. normal_winner env conf sha1 A5 (block_of C t)) k6"
    using others_step [OF val _ 5(5), of k6 sha1 r5] sk(6) 5(2) k6 by auto
  let ?ks = "k1 @ k2 @ k3 @ k4 @ k5 @ k6"
  have "sr_result r6 = map (choice env conf sha1 C A0) ?ks"
    unfolding 6(2) 5(4) using sk by (auto simp: choice_def F dest!: keys_in_class)
  moreover have "ResolveStateConflicts env sha1 C As st = Inr (sr_result r6, st6)"
    using r(1,2) 1(1,3) 2(1,3) 3(1,3) 4(1,3) 5(1,3) 6(1)
    by (simp add: ResolveStateConflicts_def blocks_of_def)
  moreover have "distinct ?ks" using dk by (simp add: sk keys_in_disjoint Int_Un_distrib)
  moreover have "set ?ks = event_key ` set C"
    using keys_in_cover [of C] by (simp add: sk Un_ac)
  ultimately show ?thesis unfolding A0_def by metis
qed

lemma choice_key:
  assumes "valid_conflict env C" "t \<in> event_key ` set C"
  shows "choice env conf sha1 C A t \<in> set (block_of C t)"
proof -
  have t: "t \<in> keys_in C (class_of t)" using assms(2) by (simp add: keys_in_def)
  note b = block_facts(1) [OF assms(1) t]
  show ?thesis
  proof (cases "class_of t = Others")
    case True
    then show ?thesis using normal_winner_mem [OF b] by (simp add: choice_def)
  next
    case False
    then have "\<exists>B. resolved_auth env conf sha1 C A t = Some (auth_winner env conf sha1 B (block_of C t))"
      using t by (cases "class_of t") (auto simp: resolved_auth_def stage_other stage_key)
    then show ?thesis using auth_winner_mem [OF b] False by (auto simp: choice_def)
  qed
qed

lemma valid_conflict_perm: "mset C = mset C' \<Longrightarrow> valid_conflict env C = valid_conflict env C'"
  unfolding valid_conflict_def by (metis set_mset_mset)

section \<open>Properties\<close>


text \<open>
  C28. The outcome does not depend on the order in which the conflicting events are given: two servers that
  list the same events differently choose the same events, as long as no two of the events tie in
  depth and in the digest of their identifiers.
\<close>

theorem resolve_order_independent:
  assumes "valid_conflict env C" "\<forall>e \<in> set As. auth_event e" "skip_ok env conf st"
    and "event_key ` set As \<inter> event_key ` set C = {}" "no_ties sha1 C" "mset C = mset C'"
  shows "\<exists>res st1 res' st1'. ResolveStateConflicts env sha1 C As st = Inr (res, st1) \<and>
    ResolveStateConflicts env sha1 C' As st = Inr (res', st1') \<and> mset res = mset res'"
proof -
  let ?f = "choice env conf sha1 C (\<lambda>t. last_setting t As)"
  have C': "valid_conflict env C'" "event_key ` set As \<inter> event_key ` set C' = {}" "set C' = set C"
    using assms(1,4,6) valid_conflict_perm [OF assms(6)] by (auto dest: mset_eq_setD)
  obtain ks st1 where ks: "ResolveStateConflicts env sha1 C As st = Inr (map ?f ks, st1)" "distinct ks"
    "set ks = event_key ` set C"
    using ResolveStateConflicts_choice [OF assms(1-4), of sha1] by blast
  obtain ks' st1' where ks': "ResolveStateConflicts env sha1 C' As st = Inr (map ?f ks', st1')" "distinct ks'"
    "set ks' = event_key ` set C"
    using ResolveStateConflicts_choice [OF C'(1) assms(2,3) C'(2), of sha1] C'(3)
      choice_perm [OF assms(6,5), of env conf] by auto
  have "mset ks = mset ks'" using ks(2,3) ks'(2,3) by (metis set_eq_iff_mset_eq_distinct)
  then have "mset (map ?f ks) = mset (map ?f ks')" by simp
  with ks(1) ks'(1) show ?thesis by blast
qed

end
