(* ===== verification/Sample_Conflict.thy ===== *)
theory Sample_Conflict
  imports Sample_Room State_Resolution
begin

text \<open>
  A concrete conflict in the sample room: two power level events and two names, on which the properties of
  the state resolution are applied.
\<close>

definition at_depth :: "int \<Rightarrow> string \<Rightarrow> sample_json Event \<Rightarrow> sample_json Event" where
  "at_depth d i e = e\<lparr>Depth := d, EventID := i\<rparr>"

definition conflict_levels :: "int smap \<Rightarrow> sample_json Event" where
  "conflict_levels us = sample_event MRoomPowerLevels ''@a:x'' (Some []) (JLevels us [] None)"

definition conflict_name :: "string \<Rightarrow> sample_json Event" where
  "conflict_name who = sample_event ''m.room.name'' who (Some []) (JText ''n'')"

definition sample_conflicted :: "sample_json Event list" where
  "sample_conflicted =
     [at_depth 5 ''$5:x'' (conflict_name ''@m:x''), at_depth 3 ''$3:x'' (conflict_levels [(''@a:x'', 100)]),
      at_depth 4 ''$4:x'' (conflict_levels [(''@a:x'', 100), (''@m:x'', 60)]),
      at_depth 6 ''$6:x'' (conflict_name ''@z:x'')]"

definition sample_unconflicted :: "sample_json Event list" where
  "sample_unconflicted =
     [sample_event MRoomCreate ''@a:x'' (Some []) (JCreate ''@a:x''),
      sample_event MRoomMember ''@a:x'' (Some ''@a:x'') (JMember join),
      sample_event MRoomMember ''@m:x'' (Some ''@m:x'') (JMember join)]"

section \<open>The hypotheses hold\<close>

lemma sample_conflict_valid: "valid_conflict sample_env sample_conflicted"
  by code_simp

lemma sample_unconflicted_auth: "\<forall>e \<in> set sample_unconflicted. auth_event e"
  by code_simp

lemma sample_conflict_disjoint: "event_key ` set sample_unconflicted \<inter> event_key ` set sample_conflicted = {}"
  by code_simp

lemma sample_conflict_no_ties: "no_ties (\<lambda>s. s) sample_conflicted"
  by code_simp

lemma no_skip_ok: "skip_ok sample_env [] no_skip"
  by (simp add: skip_ok_def no_skip_coherent) (simp add: no_skip_def)

section \<open>Witnesses\<close>


theorem resolve_order_independent_witness:
  "\<exists>res st1 res' st1'.
    ResolveStateConflicts sample_env (\<lambda>s. s) sample_conflicted sample_unconflicted no_skip = Inr (res, st1) \<and>
    ResolveStateConflicts sample_env (\<lambda>s. s) (rev sample_conflicted) sample_unconflicted no_skip = Inr (res', st1') \<and>
    mset res = mset res'"
  by (rule resolve_order_independent [OF sample_conflict_valid sample_unconflicted_auth no_skip_ok
        sample_conflict_disjoint sample_conflict_no_ties]) simp

end
