(* ===== verification/Time_Lines.thy ===== *)
theory Time_Lines
  imports Prelude "HOL-Library.Multiset"
begin

text \<open>
  The feed time lines of the sync side (\<open>src/model/feedstypes/timeline.go\<close>): a growing array, or
  a ring buffer of fixed size, of feeds ordered by arrival, with the smallest and the largest
  stream offset held. Feeds are a type variable; their \<open>GetOffset\<close> method is an argument.
  A nil feed is \<open>None\<close>. Index and division panics are values, and the doubling loop of
  \<open>Expanse\<close> is a partial function, so that a call that never returns is \<open>None\<close>.
  Shown here: the bubble sort over the ring is a stable sort of the window, \<open>Add\<close> keeps the
  invariant (no panic, bounds exact), what it does to the window, and what the readers return.
\<close>

section \<open>Model\<close>

record 'f TimeLines =
  tl_size :: nat
  tl_offset :: nat
  tl_limit :: bool
  tl_lower :: int
  tl_upper :: int
  tl_data :: "'f option list"
  tl_ofo :: bool

definition NewEvTimeLines :: "int \<Rightarrow> bool \<Rightarrow> 'f TimeLines result" where
  "NewEvTimeLines sz limit =
     (if sz < 0 then Inl (Panic ''makeslice: len out of range'')
      else Inr \<lparr>tl_size = nat sz, tl_offset = 0, tl_limit = limit, tl_lower = 0, tl_upper = 0,
                 tl_data = replicate (nat sz) None, tl_ofo = False\<rparr>)"

text \<open>An index expression \<open>tl.data[i]\<close>, and \<open>tl.data[i % tl.size]\<close>, which is also \<open>getFeed\<close>.\<close>

definition index_data :: "'f TimeLines \<Rightarrow> nat \<Rightarrow> 'f option result" where
  "index_data t i = (if i < length (tl_data t) then Inr (tl_data t ! i)
                      else Inl (Panic ''index out of range''))"

definition assign_data :: "nat \<Rightarrow> 'f option \<Rightarrow> 'f TimeLines \<Rightarrow> 'f TimeLines result" where
  "assign_data i v t = (if i < length (tl_data t) then Inr (t\<lparr>tl_data := (tl_data t)[i := v]\<rparr>)
                         else Inl (Panic ''index out of range''))"

definition rem_size :: "'f TimeLines \<Rightarrow> nat \<Rightarrow> nat result" where
  "rem_size t i = (if tl_size t = 0 then Inl (Panic ''integer divide by zero'')
                    else Inr (i mod tl_size t))"

definition getFeed :: "'f TimeLines \<Rightarrow> nat \<Rightarrow> 'f option result" where
  "getFeed t offset = bindR (rem_size t offset) (index_data t)"

definition call_GetOffset :: "('f \<Rightarrow> int) \<Rightarrow> 'f option \<Rightarrow> int result" where
  "call_GetOffset GetOffset feed =
     (case feed of None \<Rightarrow> Inl (Panic ''nil pointer dereference'') | Some f \<Rightarrow> Inr (GetOffset f))"

definition bubble_step :: "('f \<Rightarrow> int) \<Rightarrow> nat \<Rightarrow> nat \<Rightarrow> 'f TimeLines \<Rightarrow> 'f TimeLines result" where
  "bubble_step GetOffset base j t =
     bindR (getFeed t (base + j)) (\<lambda>cur.
     bindR (getFeed t (base + j + 1)) (\<lambda>nxt.
     bindR (call_GetOffset GetOffset cur) (\<lambda>a.
     bindR (call_GetOffset GetOffset nxt) (\<lambda>b.
       if a > b then
         bindR (assign_data ((base + j) mod tl_size t) nxt t)
           (assign_data ((base + j + 1) mod tl_size t) cur)
       else Inr t))))"

definition set_bounds :: "('f \<Rightarrow> int) \<Rightarrow> 'f TimeLines \<Rightarrow> 'f TimeLines result" where
  "set_bounds GetOffset t =
     bindR (bindR (getFeed t (tl_offset t - tl_size t)) (call_GetOffset GetOffset)) (\<lambda>lo.
     bindR (bindR (getFeed t (tl_offset t - 1)) (call_GetOffset GetOffset)) (\<lambda>up.
       Inr (t\<lparr>tl_lower := lo, tl_upper := up\<rparr>)))"

definition calc :: "('f \<Rightarrow> int) \<Rightarrow> 'f TimeLines \<Rightarrow> 'f TimeLines result" where
  "calc GetOffset t =
     (if \<not> tl_limit t then Inr t
      else if tl_offset t \<le> tl_size t then Inr t
      else if \<not> tl_ofo t then set_bounds GetOffset t
      else
        (let base = tl_offset t - tl_size t in
         bindR (foldR (\<lambda>i. foldR (bubble_step GetOffset base) [0..<tl_size t - 1 - i])
                  [0..<tl_size t - 1] t)
           (set_bounds GetOffset)))"

definition checkOutOfOrder :: "('f \<Rightarrow> int) \<Rightarrow> 'f TimeLines \<Rightarrow> 'f TimeLines result" where
  "checkOutOfOrder GetOffset t =
     (if \<not> tl_limit t then Inr t
      else if tl_offset t \<le> 1 then Inr t
      else
        bindR (getFeed t (tl_offset t - 1)) (\<lambda>cur.
        bindR (getFeed t (tl_offset t - 2)) (\<lambda>pre.
          Inr (case (cur, pre) of
                 (Some c, Some p) \<Rightarrow>
                   (if \<not> tl_ofo t \<and> GetOffset c < GetOffset p then t\<lparr>tl_ofo := True\<rparr> else t)
               | _ \<Rightarrow> t))))"

partial_function (option) expanse_loop :: "nat \<Rightarrow> nat \<Rightarrow> nat option" where
  "expanse_loop oldsize offset =
     (let newsize = oldsize * 2 in
      if newsize > offset then Some newsize else expanse_loop newsize offset)"

definition Expanse :: "'f TimeLines \<Rightarrow> nat option" where
  "Expanse t = (if tl_offset t \<ge> tl_size t then expanse_loop (tl_size t) (tl_offset t)
                 else Some (tl_size t))"

text \<open>The copy loop of the resize; reading beyond the old array panics.\<close>

definition copy_data :: "'f TimeLines \<Rightarrow> nat \<Rightarrow> 'f option list result" where
  "copy_data t newsize =
     foldR (\<lambda>i nd. bindR (index_data t i) (\<lambda>v. if i < length nd then Inr (nd[i := v])
                                                   else Inl (Panic ''index out of range'')))
       [0..<tl_size t] (replicate newsize None)"

text \<open>The first half of \<open>Add\<close>: where the feed is stored; \<open>None\<close> if the resize never returns.\<close>

definition add_place ::
  "'f \<Rightarrow> 'f TimeLines \<Rightarrow> ('f option \<times> 'f TimeLines) result option" where
  "add_place feed t =
     (if tl_limit t then
        Some (bindR (rem_size t (tl_offset t)) (\<lambda>k.
              bindR (index_data t k) (\<lambda>removed.
              bindR (assign_data k (Some feed) t) (\<lambda>tl1.
                Inr (removed, tl1\<lparr>tl_offset := tl_offset t + 1\<rparr>)))))
      else if tl_offset t < tl_size t then
        Some (bindR (assign_data (tl_offset t) (Some feed) t) (\<lambda>tl1.
                Inr (None, tl1\<lparr>tl_offset := tl_offset t + 1\<rparr>)))
      else
        (case Expanse t of
           None \<Rightarrow> None
         | Some newsize \<Rightarrow>
             Some (bindR (copy_data t newsize) (\<lambda>newdata.
                   bindR (assign_data (tl_offset t) (Some feed)
                            (t\<lparr>tl_data := newdata, tl_size := newsize\<rparr>)) (\<lambda>tl1.
                     Inr (None, tl1\<lparr>tl_offset := tl_offset t + 1\<rparr>))))))"

text \<open>The second half: the bounds.\<close>

definition add_bounds ::
  "('f \<Rightarrow> int) \<Rightarrow> 'f \<Rightarrow> 'f option \<times> 'f TimeLines \<Rightarrow> ('f option \<times> 'f TimeLines) result" where
  "add_bounds GetOffset feed = (\<lambda>(removed, t).
     if tl_lower t = 0 then
       Inr (removed, t\<lparr>tl_lower := GetOffset feed, tl_upper := GetOffset feed\<rparr>)
     else
       (let offset = GetOffset feed;
            tl1 = (if offset < tl_lower t then t\<lparr>tl_lower := offset\<rparr>
                   else if offset > tl_upper t then t\<lparr>tl_upper := offset\<rparr>
                   else t)
        in bindR (checkOutOfOrder GetOffset tl1) (\<lambda>tl2.
             case removed of
               None \<Rightarrow> Inr (removed, tl2)
             | Some r \<Rightarrow>
                 (if GetOffset r = tl_lower tl2 \<or> GetOffset r = tl_upper tl2
                  then bindR (calc GetOffset tl2) (\<lambda>tl3. Inr (removed, tl3))
                  else Inr (removed, tl2)))))"

definition Add ::
  "('f \<Rightarrow> int) \<Rightarrow> 'f option \<Rightarrow> 'f TimeLines \<Rightarrow> ('f option \<times> 'f TimeLines) result option" where
  "Add GetOffset feed t =
     (case feed of
        None \<Rightarrow> Some (Inr (None, t))
      | Some f \<Rightarrow>
          (case add_place f t of
             None \<Rightarrow> None
           | Some r \<Rightarrow> Some (bindR r (add_bounds GetOffset f))))"

definition GetRange :: "'f TimeLines \<Rightarrow> nat \<times> nat" where
  "GetRange t = (if tl_offset t < tl_size t then (0, tl_offset t)
                  else (tl_offset t - tl_size t, tl_offset t))"

text \<open>The callback of the range loops threads a state and answers whether to go on.\<close>

fun range_loop ::
  "'f TimeLines \<Rightarrow> (nat \<Rightarrow> 'f option \<Rightarrow> 's \<Rightarrow> bool \<times> 's) \<Rightarrow> nat list \<Rightarrow> 's \<Rightarrow> 's result" where
  "range_loop t f [] s = Inr s"
| "range_loop t f (i # r) s =
     bindR (getFeed t i) (\<lambda>feed.
       case f i feed s of (go_on, s') \<Rightarrow> if go_on then range_loop t f r s' else Inr s')"

definition ForRange ::
  "'f TimeLines \<Rightarrow> (nat \<Rightarrow> 'f option \<Rightarrow> 's \<Rightarrow> bool \<times> 's) \<Rightarrow> 's \<Rightarrow> 's result" where
  "ForRange t f s = (case GetRange t of (start, e) \<Rightarrow> range_loop t f [start..<e] s)"

definition ForRangeReverse ::
  "'f TimeLines \<Rightarrow> (nat \<Rightarrow> 'f option \<Rightarrow> 's \<Rightarrow> bool \<times> 's) \<Rightarrow> 's \<Rightarrow> 's result" where
  "ForRangeReverse t f s = (case GetRange t of (start, e) \<Rightarrow> range_loop t f (rev [start..<e]) s)"

type_synonym 'f feeds = "'f option list \<times> nat \<times> nat \<times> int \<times> int"

definition GetAllFeeds :: "'f TimeLines \<Rightarrow> 'f feeds result" where
  "GetAllFeeds t = (case GetRange t of (start, e) \<Rightarrow>
     if start \<ge> e then Inr ([], start, e, tl_lower t, tl_upper t)
     else bindR (foldR (\<lambda>i res. bindR (getFeed t i) (\<lambda>v. Inr (res @ [v]))) [start..<e] [])
            (\<lambda>res. Inr (res, start, e, tl_lower t, tl_upper t)))"

definition GetFeeds :: "('f \<Rightarrow> int) \<Rightarrow> 'f TimeLines \<Rightarrow> int \<Rightarrow> int \<Rightarrow> 'f feeds result" where
  "GetFeeds GetOffset t fromPos endPos = (case GetRange t of (start, e) \<Rightarrow>
     if start \<ge> e then Inr ([], start, e, tl_lower t, tl_upper t)
     else if fromPos > 0 \<and> endPos > 0 \<and> fromPos \<ge> endPos
     then Inr ([], start, e, tl_lower t, tl_upper t)
     else
       (let lowerPos = (if fromPos > tl_lower t \<and> fromPos < tl_upper t then fromPos
                        else tl_lower t);
            upperPos = (if endPos > 0 \<and> endPos < tl_upper t then endPos else tl_upper t)
        in bindR (foldR (\<lambda>i res. bindR (getFeed t i) (\<lambda>v. bindR (call_GetOffset GetOffset v) (\<lambda>off.
                    Inr (if off \<ge> lowerPos \<and> off \<le> upperPos then res @ [v] else res))))
                    [start..<e] [])
             (\<lambda>res. Inr (res, start, e, tl_lower t, tl_upper t))))"

definition GetAllFeedsReverse :: "'f TimeLines \<Rightarrow> 'f feeds result" where
  "GetAllFeedsReverse t = (case GetRange t of (start, e) \<Rightarrow>
     if start \<ge> e then Inr ([], start, e, tl_lower t, tl_upper t)
     else bindR (foldR (\<lambda>i res. bindR (getFeed t i) (\<lambda>v. Inr (res @ [v]))) (rev [start..<e]) [])
            (\<lambda>res. Inr (res, start, e, tl_lower t, tl_upper t)))"

definition GetFeedRange :: "'f TimeLines \<Rightarrow> int \<times> int" where
  "GetFeedRange t = (tl_lower t, tl_upper t)"

section \<open>Specification\<close>

text \<open>The comparison and swap of neighbours, on the list of the window's feeds.\<close>

definition swap_if :: "('f \<Rightarrow> int) \<Rightarrow> nat \<Rightarrow> 'f list \<Rightarrow> 'f list" where
  "swap_if key j w = (if key (w ! j) > key (w ! Suc j) then w[j := w ! Suc j, Suc j := w ! j] else w)"

definition pass :: "('f \<Rightarrow> int) \<Rightarrow> nat \<Rightarrow> 'f list \<Rightarrow> 'f list" where
  "pass key m w = fold (swap_if key) [0..<m] w"

definition passes :: "('f \<Rightarrow> int) \<Rightarrow> nat \<Rightarrow> 'f list \<Rightarrow> 'f list" where
  "passes key i w = fold (\<lambda>i. pass key (length w - 1 - i)) [0..<i] w"

definition window :: "'f TimeLines \<Rightarrow> 'f list" where
  "window t = map (\<lambda>i. the (tl_data t ! (i mod tl_size t))) [tl_offset t - tl_size t..<tl_offset t]"

definition tl_wf :: "'f TimeLines \<Rightarrow> bool" where
  "tl_wf t \<longleftrightarrow> 0 < tl_size t \<and> length (tl_data t) = tl_size t \<and>
     (\<forall>i < tl_size t. (tl_data t ! i \<noteq> None) = (i < tl_offset t)) \<and>
     (\<not> tl_limit t \<longrightarrow> tl_offset t \<le> tl_size t)"

text \<open>Being the time line \<open>t\<close> up to the contents of its ring.\<close>

definition same_ring :: "'f TimeLines \<Rightarrow> 'f TimeLines \<Rightarrow> bool" where
  "same_ring t s \<longleftrightarrow> tl_wf s \<and> (\<exists>d. s = t\<lparr>tl_data := d\<rparr>)"

definition tl_inv :: "('f \<Rightarrow> int) \<Rightarrow> 'f TimeLines \<Rightarrow> bool" where
  "tl_inv key t \<longleftrightarrow> tl_wf t \<and> (\<forall>f \<in> set (window t). 0 < key f) \<and>
     (if tl_offset t = 0 then tl_lower t = 0
      else tl_lower t = Min (key ` set (window t)) \<and> tl_upper t = Max (key ` set (window t))) \<and>
     (tl_limit t \<and> \<not> tl_ofo t \<longrightarrow> sorted (map key (window t)))"

text \<open>
  The specification of \<open>Add\<close> on the out-of-order mark and the list of the feeds held, for a log
  of bounded (\<open>Some n\<close>) or unbounded capacity.
\<close>

definition log_add ::
  "('f \<Rightarrow> int) \<Rightarrow> nat option \<Rightarrow> 'f \<Rightarrow> bool \<times> 'f list \<Rightarrow> 'f option \<times> bool \<times> 'f list" where
  "log_add key cap f = (\<lambda>(ofo, w).
     case cap of
       None \<Rightarrow> (None, ofo, w @ [f])
     | Some n \<Rightarrow>
         (let full = (length w = n);
              w1 = (if full then tl w else w) @ [f];
              ofo1 = (ofo \<or> w \<noteq> [] \<and> 1 < n \<and> key f < key (last w));
              ks = key ` set (w @ [f])
          in (if full then Some (hd w) else None, ofo1,
              if ofo1 \<and> full \<and> (key (hd w) = Min ks \<or> key (hd w) = Max ks)
              then sort_key key w1 else w1)))"

definition log_of :: "'f TimeLines \<Rightarrow> bool \<times> 'f list" where
  "log_of t = (tl_ofo t, window t)"

definition cap_of :: "'f TimeLines \<Rightarrow> nat option" where
  "cap_of t = (if tl_limit t then Some (tl_size t) else None)"

definition placed :: "'f \<Rightarrow> 'f TimeLines \<Rightarrow> 'f TimeLines \<Rightarrow> bool" where
  "placed f t s \<longleftrightarrow> tl_wf s \<and> tl_offset s = tl_offset t + 1 \<and> tl_limit s = tl_limit t \<and>
     (tl_limit t \<longrightarrow> tl_size s = tl_size t) \<and> tl_ofo s = tl_ofo t \<and>
     tl_lower s = tl_lower t \<and> tl_upper s = tl_upper t \<and>
     window s = (if tl_limit t \<and> tl_size t \<le> tl_offset t then tl (window t) else window t) @ [f]"

text \<open>Adding the feeds of a list one after the other, with the feeds pushed out.\<close>

fun add_list :: "('f \<Rightarrow> 's \<Rightarrow> ('f option \<times> 's) result option) \<Rightarrow> 'f list \<Rightarrow> 's \<Rightarrow>
    ('f list \<times> 's) result option" where
  "add_list ad [] s = Some (Inr ([], s))"
| "add_list ad (f # fs) s =
     (case ad f s of
        None \<Rightarrow> None
      | Some (Inl e) \<Rightarrow> Some (Inl e)
      | Some (Inr (r, s1)) \<Rightarrow>
          (case add_list ad fs s1 of
             Some (Inr (rs, s2)) \<Rightarrow> Some (Inr (case r of None \<Rightarrow> rs | Some x \<Rightarrow> x # rs, s2))
           | x \<Rightarrow> x))"

section \<open>Lemmas\<close>

section \<open>Bubble sort on lists\<close>

lemma swap_if_split:
  assumes "Suc j < length w"
  shows "\<exists>p a b q. w = p @ a # b # q \<and> length p = j \<and>
           swap_if key j w = p @ (if key a > key b then [b, a] else [a, b]) @ q"
proof -
  let ?p = "take j w" and ?q = "drop (Suc (Suc j)) w"
  have w: "w = ?p @ w ! j # w ! Suc j # ?q"
    using assms by (metis Cons_nth_drop_Suc Suc_lessD append_take_drop_id)
  have l: "length ?p = j" using assms by simp
  have "swap_if key j (?p @ a # b # ?q) = ?p @ (if key a > key b then [b, a] else [a, b]) @ ?q" for a b
    using l by (simp add: swap_if_def nth_append list_update_append)
  with w l show ?thesis by metis
qed

lemma swap_if_facts:
  assumes "Suc j < length w"
  shows "length (swap_if key j w) = length w" "mset (swap_if key j w) = mset w"
    "filter (\<lambda>x. k = key x) (swap_if key j w) = filter (\<lambda>x. k = key x) w"
  using swap_if_split [OF assms, of key] by auto

lemma swap_if_nth:
  assumes "Suc j < length w" "p < length w"
  shows "swap_if key j w ! p =
    (if p = j then (if key (w ! j) > key (w ! Suc j) then w ! Suc j else w ! j)
     else if p = Suc j then (if key (w ! j) > key (w ! Suc j) then w ! j else w ! Suc j)
     else w ! p)"
  using assms by (auto simp: swap_if_def nth_list_update)

lemma pass_0 [simp]: "pass key 0 w = w"
  by (simp add: pass_def)

lemma pass_Suc [simp]: "pass key (Suc m) w = swap_if key m (pass key m w)"
  by (simp add: pass_def)

lemma pass_facts:
  "m < length w \<Longrightarrow> length (pass key m w) = length w \<and> mset (pass key m w) = mset w \<and>
     filter (\<lambda>x. k = key x) (pass key m w) = filter (\<lambda>x. k = key x) w"
  by (induction m) (simp_all add: swap_if_facts)

lemma pass_beyond: "m < length w \<Longrightarrow> m < p \<Longrightarrow> p < length w \<Longrightarrow> pass key m w ! p = w ! p"
  by (induction m) (simp_all add: swap_if_nth pass_facts)

lemma pass_max: "m < length w \<Longrightarrow> p \<le> m \<Longrightarrow> key (pass key m w ! p) \<le> key (pass key m w ! m)"
proof (induction m arbitrary: p)
  case (Suc m)
  then have l: "length (pass key m w) = length w" by (simp add: pass_facts)
  show ?case
  proof (cases "p \<le> m")
    case True
    then have "key (pass key m w ! p) \<le> key (pass key m w ! m)" using Suc by simp
    then show ?thesis using l Suc.prems by (auto simp: swap_if_nth)
  next
    case False
    with Suc.prems have "p = Suc m" by simp
    then show ?thesis by simp
  qed
qed simp

lemma pass_from: "m < length w \<Longrightarrow> p \<le> m \<Longrightarrow> \<exists>p' \<le> m. pass key m w ! p = w ! p'"
proof (induction m arbitrary: p)
  case (Suc m)
  then have l: "length (pass key m w) = length w" by (simp add: pass_facts)
  have b: "pass key m w ! Suc m = w ! Suc m" using Suc.prems by (intro pass_beyond) auto
  obtain p1 p2 where "p1 \<le> m" "pass key m w ! m = w ! p1" "p \<le> m \<longrightarrow> p2 \<le> m \<and> pass key m w ! p = w ! p2"
    using Suc.IH [of m] Suc.IH [of p] Suc.prems by (cases "p \<le> m") auto
  then show ?case using l b Suc.prems
    by (cases "p = Suc m"; cases "p = m") (auto simp: swap_if_nth intro: le_SucI)
qed auto

lemma passes_0 [simp]: "passes key 0 w = w"
  by (simp add: passes_def)

lemma passes_Suc [simp]: "passes key (Suc i) w = pass key (length w - 1 - i) (passes key i w)"
  by (simp add: passes_def)

lemma passes_facts:
  "w \<noteq> [] \<Longrightarrow> length (passes key i w) = length w \<and> mset (passes key i w) = mset w \<and>
     filter (\<lambda>x. k = key x) (passes key i w) = filter (\<lambda>x. k = key x) w"
proof (induction i)
  case (Suc i)
  then have "length w - 1 - i < length (passes key i w)"
    by (cases w) auto
  with Suc show ?case by (simp add: pass_facts)
qed simp

lemma passes_tail_sorted:
  "i < length w \<Longrightarrow> p \<le> q \<Longrightarrow> q < length w \<Longrightarrow> length w - i \<le> q \<Longrightarrow>
     key (passes key i w ! p) \<le> key (passes key i w ! q)"
proof (induction i arbitrary: p q)
  case (Suc i)
  let ?m = "length w - 1 - i" and ?v = "passes key i w"
  have "w \<noteq> []" using Suc.prems(1) by auto
  then have l: "length ?v = length w" by (simp add: passes_facts)
  have m: "?m < length ?v" using l Suc.prems(1) by simp
  show ?case
  proof (cases "q = ?m")
    case True
    then show ?thesis using Suc.prems pass_max [OF m, of p key] by simp
  next
    case False
    then have q: "?m < q" using Suc.prems by simp
    have vq: "pass key ?m ?v ! q = ?v ! q" using q Suc.prems l m by (intro pass_beyond) auto
    obtain p' where p': "p' \<le> q" "pass key ?m ?v ! p = ?v ! p'"
    proof (cases "p \<le> ?m")
      case True
      then obtain p' where "p' \<le> ?m" "pass key ?m ?v ! p = ?v ! p'"
        using pass_from [OF m, of p key] by blast
      with q that [of p'] show ?thesis by simp
    next
      case False
      then show ?thesis using pass_beyond [of ?m ?v p key] Suc.prems l m that by auto
    qed
    then show ?thesis using Suc.IH [of p' q] Suc.prems q vq by simp
  qed
qed simp

lemma passes_sort: "passes key (length w - 1) w = sort_key key w"
proof (cases "w = []")
  case False
  let ?v = "passes key (length w - 1) w"
  have "sorted (map key ?v)"
    unfolding sorted_iff_nth_mono
  proof (intro allI impI)
    fix p q assume pq: "p \<le> q" "q < length (map key ?v)"
    then have "q < length w" using False by (simp add: passes_facts)
    then show "map key ?v ! p \<le> map key ?v ! q"
      using pq False passes_tail_sorted [of "length w - 1" w p q key] by (cases "q = 0") auto
  qed
  then have "sort_key key w = ?v"
    using False by (intro properties_for_sort_key) (simp_all add: passes_facts)
  then show ?thesis ..
qed simp

lemma add_mod_inj: "p < n \<Longrightarrow> j < n \<Longrightarrow> (b + p) mod n = (b + j) mod n \<longleftrightarrow> p = (j::nat)"
proof (induction p j rule: linorder_wlog)
  case (le p j)
  then have "n dvd j - p \<longleftrightarrow> p = j" using nat_dvd_not_less [of "j - p" n] by (cases "p = j") auto
  with le show ?case using mod_eq_dvd_iff_nat [of "b + p" "b + j" n] by (simp add: eq_commute)
qed auto

lemma GetRange_eq: "GetRange t = (tl_offset t - tl_size t, tl_offset t)"
  by (simp add: GetRange_def)

lemma length_window: "length (window t) = min (tl_offset t) (tl_size t)"
  by (simp add: window_def)

lemma window_nth:
  assumes "p < min (tl_offset t) (tl_size t)"
  shows "window t ! p = the (tl_data t ! ((tl_offset t - tl_size t + p) mod tl_size t))"
proof -
  have "tl_offset t - tl_size t + p < tl_offset t" using assms by linarith
  from this nth_upt [OF this] show ?thesis by (simp add: window_def)
qed

lemma slot_occupied:
  assumes "tl_wf t" "p < min (tl_offset t) (tl_size t)"
  shows "(tl_offset t - tl_size t + p) mod tl_size t < tl_size t"
    and "tl_data t ! ((tl_offset t - tl_size t + p) mod tl_size t) = Some (window t ! p)"
proof -
  let ?i = "(tl_offset t - tl_size t + p) mod tl_size t"
  show i: "?i < tl_size t" using assms by (simp add: tl_wf_def)
  have "?i < tl_offset t"
  proof (cases "tl_size t \<le> tl_offset t")
    case True
    with i show ?thesis by (rule less_le_trans)
  qed (use assms in simp)
  with i assms have "tl_data t ! ?i \<noteq> None" by (simp add: tl_wf_def)
  with assms(2) show "tl_data t ! ?i = Some (window t ! p)" by (auto simp: window_nth)
qed

lemma getFeed_window:
  assumes "tl_wf t" "tl_offset t - tl_size t \<le> i" "i < tl_offset t"
  shows "getFeed t i = Inr (Some (window t ! (i - (tl_offset t - tl_size t))))"
proof -
  have "i - (tl_offset t - tl_size t) < min (tl_offset t) (tl_size t)" using assms by linarith
  from slot_occupied [OF assms(1) this] assms show ?thesis
    by (simp add: getFeed_def rem_size_def index_data_def tl_wf_def)
qed

lemma nonempty_Min: "xs \<noteq> [] \<Longrightarrow> sorted xs \<Longrightarrow> Min (set xs) = hd xs"
  by (cases xs) (auto intro!: Min_eqI)

lemma nonempty_Max: "xs \<noteq> [] \<Longrightarrow> sorted xs \<Longrightarrow> Max (set xs) = last xs"
  by (cases xs rule: rev_cases) (auto simp: sorted_append intro!: Max_eqI)

text \<open>One comparison of the ring buffer's bubble sort is one on the window.\<close>

lemma bubble_step_window:
  assumes wf: "tl_wf t" and full: "tl_size t \<le> tl_offset t" and j: "Suc j < tl_size t"
  shows "\<exists>d. bubble_step key (tl_offset t - tl_size t) j t = Inr (t\<lparr>tl_data := d\<rparr>) \<and>
    tl_wf (t\<lparr>tl_data := d\<rparr>) \<and> window (t\<lparr>tl_data := d\<rparr>) = swap_if key j (window t)"
proof -
  let ?n = "tl_size t" and ?b = "tl_offset t - tl_size t" and ?w = "window t"
  let ?i = "(?b + j) mod ?n" and ?k = "(?b + j + 1) mod ?n"
  have n: "0 < ?n" "length (tl_data t) = ?n" using wf by (auto simp: tl_wf_def)
  have f1: "getFeed t (?b + j) = Inr (Some (?w ! j))"
    using getFeed_window [OF wf, of "?b + j"] full j by simp
  have f2: "getFeed t (?b + j + 1) = Inr (Some (?w ! Suc j))"
    using getFeed_window [OF wf, of "?b + j + 1"] full j by simp
  have ik: "?i < ?n" "?k < ?n" "?k \<noteq> ?i"
    using n add_mod_inj [of "Suc j" ?n j ?b] j by simp_all
  show ?thesis
  proof (cases "key (?w ! Suc j) < key (?w ! j)")
    case False
    then have "bubble_step key ?b j t = Inr (t\<lparr>tl_data := tl_data t\<rparr>)"
      using f1 f2 by (simp add: bubble_step_def call_GetOffset_def)
    then show ?thesis using False wf by (intro exI [of _ "tl_data t"]) (simp add: swap_if_def)
  next
    case True
    let ?d = "(tl_data t)[?i := Some (?w ! Suc j), ?k := Some (?w ! j)]"
    have step: "bubble_step key ?b j t = Inr (t\<lparr>tl_data := ?d\<rparr>)"
      using True f1 f2 n ik by (simp add: bubble_step_def call_GetOffset_def assign_data_def)
    have wf': "tl_wf (t\<lparr>tl_data := ?d\<rparr>)"
      using wf ik full by (auto simp: tl_wf_def nth_list_update)
    have "window (t\<lparr>tl_data := ?d\<rparr>) = swap_if key j ?w"
    proof (rule nth_equalityI)
      fix p assume "p < length (window (t\<lparr>tl_data := ?d\<rparr>))"
      then have p: "p < ?n" using full by (simp add: length_window)
      have eqs: "?i = (?b + p) mod ?n \<longleftrightarrow> p = j" "?k = (?b + p) mod ?n \<longleftrightarrow> p = Suc j"
        using p j add_mod_inj [of p ?n j ?b] add_mod_inj [of p ?n "Suc j" ?b] by auto
      have "window (t\<lparr>tl_data := ?d\<rparr>) ! p = the (?d ! ((?b + p) mod ?n))"
        using p full window_nth [of p "t\<lparr>tl_data := ?d\<rparr>"] by simp
      also have "\<dots> = (if ?k = (?b + p) mod ?n then ?w ! j
          else if ?i = (?b + p) mod ?n then ?w ! Suc j else the (tl_data t ! ((?b + p) mod ?n)))"
        by (simp only: nth_list_update length_list_update option.sel if_distrib [of the] n ik)
      also have "\<dots> = (if p = Suc j then ?w ! j else if p = j then ?w ! Suc j else ?w ! p)"
        using p full window_nth [of p t] by (simp only: eqs)
      also have "\<dots> = swap_if key j ?w ! p"
        using True p j full by (simp add: swap_if_nth length_window)
      finally show "window (t\<lparr>tl_data := ?d\<rparr>) ! p = swap_if key j ?w ! p" .
    qed (use full j in \<open>simp add: swap_if_facts length_window\<close>)
    with step wf' show ?thesis by blast
  qed
qed

lemma bubble_pass_window:
  assumes t: "tl_size t \<le> tl_offset t" and m: "m < tl_size t" and s: "same_ring t s"
  shows "\<exists>s'. foldR (bubble_step key (tl_offset t - tl_size t)) [0..<m] s = Inr s' \<and>
    same_ring t s' \<and> window s' = pass key m (window s)"
  unfolding pass_def
proof (rule foldR_refine [where P = "same_ring t" and ab = window])
  fix j s1 assume j: "j \<in> set [0..<m]" and s1: "same_ring t s1"
  then obtain d where d: "s1 = t\<lparr>tl_data := d\<rparr>" "tl_wf s1" by (auto simp: same_ring_def)
  with bubble_step_window [of s1 j key] t m j
  show "\<exists>s'. bubble_step key (tl_offset t - tl_size t) j s1 = Inr s' \<and> same_ring t s' \<and>
      window s' = swap_if key j (window s1)"
    by (auto simp: same_ring_def)
qed (rule s)

lemma bubble_sort_window:
  assumes wf: "tl_wf t" and full: "tl_size t \<le> tl_offset t"
  shows "\<exists>s. foldR (\<lambda>i. foldR (bubble_step key (tl_offset t - tl_size t)) [0..<tl_size t - 1 - i])
      [0..<tl_size t - 1] t = Inr s \<and> same_ring t s \<and> window s = sort_key key (window t)"
proof -
  have n: "0 < tl_size t" and l: "length (window t) = tl_size t"
    using wf full by (auto simp: tl_wf_def length_window)
  have "same_ring t t" using wf by (auto simp: same_ring_def intro: exI [of _ "tl_data t"])
  then have "\<exists>s. foldR (\<lambda>i. foldR (bubble_step key (tl_offset t - tl_size t)) [0..<tl_size t - 1 - i])
      [0..<tl_size t - 1] t = Inr s \<and> same_ring t s \<and>
      window s = fold (\<lambda>i. pass key (tl_size t - 1 - i)) [0..<tl_size t - 1] (window t)"
    using full n by (intro foldR_refine [where P = "same_ring t" and ab = window] bubble_pass_window) auto
  then show ?thesis using passes_sort [of key "window t"] l by (simp add: passes_def)
qed

lemma set_bounds_window:
  assumes "tl_wf t" "tl_size t \<le> tl_offset t"
  shows "set_bounds key t =
    Inr (t\<lparr>tl_lower := key (hd (window t)), tl_upper := key (last (window t))\<rparr>)"
proof -
  have n: "0 < tl_size t" "window t \<noteq> []"
    using assms length_window [of t] by (auto simp: tl_wf_def)
  have "window t ! (tl_offset t - 1 - (tl_offset t - tl_size t)) = last (window t)"
    using n assms(2) by (simp add: last_conv_nth length_window)
  then show ?thesis
    using getFeed_window [OF assms(1), of "tl_offset t - tl_size t"]
      getFeed_window [OF assms(1), of "tl_offset t - 1"] n assms(2)
    by (simp add: set_bounds_def call_GetOffset_def hd_conv_nth)
qed

lemma calc_window:
  assumes "tl_wf t" "tl_limit t" "tl_size t < tl_offset t"
  shows "\<exists>s. calc key t = Inr s \<and> tl_wf s \<and> tl_size s = tl_size t \<and> tl_offset s = tl_offset t \<and>
    tl_limit s \<and> tl_ofo s = tl_ofo t \<and>
    window s = (if tl_ofo t then sort_key key (window t) else window t) \<and>
    tl_lower s = key (hd (window s)) \<and> tl_upper s = key (last (window s))"
proof (cases "tl_ofo t")
  case False
  then show ?thesis using assms
    by (simp add: calc_def set_bounds_window) (simp add: window_def tl_wf_def)
next
  case True
  obtain s where s: "foldR (\<lambda>i. foldR (bubble_step key (tl_offset t - tl_size t)) [0..<tl_size t - 1 - i])
      [0..<tl_size t - 1] t = Inr s" "same_ring t s" "window s = sort_key key (window t)"
    using bubble_sort_window [OF assms(1), of key] assms(3) by auto
  then obtain d where "s = t\<lparr>tl_data := d\<rparr>" "tl_wf s" by (auto simp: same_ring_def)
  with s True assms set_bounds_window [of s key] show ?thesis
    by (simp add: calc_def Let_def) (simp add: window_def tl_wf_def)
qed

section \<open>Growing\<close>

lemma expanse_loop_ge:
  "0 < s \<Longrightarrow> \<exists>k. expanse_loop s offset = Some (s * 2 ^ Suc k) \<and> offset < s * 2 ^ Suc k \<and>
     (\<forall>j < k. s * 2 ^ Suc j \<le> offset)"
proof (induction "offset - s" arbitrary: s rule: less_induct)
  case less
  show ?case
  proof (cases "offset < s * 2")
    case True
    then show ?thesis by (intro exI [of _ 0]) (simp add: expanse_loop.simps)
  next
    case False
    with less.prems have "offset - s * 2 < offset - s" by simp
    then obtain k where k: "expanse_loop (s * 2) offset = Some (s * 2 * 2 ^ Suc k)"
      "offset < s * 2 * 2 ^ Suc k" "\<forall>j < k. s * 2 * 2 ^ Suc j \<le> offset"
      using less.hyps [of "s * 2"] less.prems by auto
    have "s * 2 ^ Suc j \<le> offset" if "j < Suc k" for j
      using that k(3) False by (cases j) auto
    with k False show ?thesis
      by (intro exI [of _ "Suc k"]) (simp add: expanse_loop.simps [of s] mult.assoc)
  qed
qed

lemma expanse_loop_nonzero: "expanse_loop oldsize ofs = Some y \<Longrightarrow> 0 < oldsize"
proof (rule expanse_loop.raw_induct [where P = "\<lambda>a b y. 0 < a"])
  fix rec and a b y :: nat
  assume ih: "\<And>a b y. rec a b = Some y \<Longrightarrow> 0 < a"
    and "(let newsize = a * 2 in if b < newsize then Some newsize else rec newsize b) = Some y"
  then show "0 < a" using ih [of "a * 2" b y] by (cases "b < a * 2") (auto simp: Let_def)
qed simp

lemma expanse_loop_zero: "expanse_loop 0 ofs = None"
  using expanse_loop_nonzero [of 0 ofs] by fastforce

lemma copy_data_eq:
  assumes "length (tl_data t) = tl_size t" "tl_size t \<le> n"
  shows "copy_data t n = Inr (tl_data t @ replicate (n - tl_size t) None)"
proof -
  let ?f = "\<lambda>i nd. bindR (index_data t i) (\<lambda>v. if i < length nd then Inr (nd[i := v])
      else Inl (Panic ''index out of range''))"
  have "foldR ?f [0..<m] (replicate n None) = Inr (take m (tl_data t) @ replicate (n - m) None)"
    if "m \<le> tl_size t" for m
    using that
  proof (induction m)
    case (Suc m)
    then have "m < n" "m < length (tl_data t)" using assms by auto
    moreover from this have "n - m = Suc (n - Suc m)" by simp
    ultimately show ?case using Suc
      by (simp add: foldR_append index_data_def list_update_append take_Suc_conv_app_nth)
  qed simp
  from this [of "tl_size t"] assms show ?thesis by (simp add: copy_data_def)
qed

section \<open>Where a feed is stored\<close>

lemma add_place_limited:
  assumes wf: "tl_wf t" and lim: "tl_limit t"
  shows "\<exists>s. add_place f t =
      Some (Inr (if tl_size t \<le> tl_offset t then Some (hd (window t)) else None, s)) \<and> placed f t s"
proof -
  let ?n = "tl_size t" and ?o = "tl_offset t"
  let ?k = "?o mod ?n"
  let ?s = "t\<lparr>tl_data := (tl_data t)[?k := Some f], tl_offset := ?o + 1\<rparr>"
  have n: "0 < ?n" "length (tl_data t) = ?n" "?k < ?n" using wf by (auto simp: tl_wf_def)
  have old: "tl_data t ! ?k = (if ?n \<le> ?o then Some (hd (window t)) else None)"
  proof (cases "?n \<le> ?o")
    case True
    then have "window t \<noteq> []" using n length_window [of t] by auto
    with slot_occupied [OF wf, of 0] True n show ?thesis
      by (simp add: hd_conv_nth le_mod_geq)
  next
    case False
    moreover have "(tl_data t ! ?k \<noteq> None) = (?k < ?o)" using wf n(3) by (simp add: tl_wf_def)
    ultimately show ?thesis by simp
  qed
  have wf': "tl_wf ?s"
    using wf lim n by (auto simp: tl_wf_def nth_list_update less_Suc_eq)
  have "window ?s = (if ?n \<le> ?o then tl (window t) else window t) @ [f]" (is "_ = ?w @ [f]")
  proof (rule nth_equalityI)
    show len: "length (window ?s) = length (?w @ [f])"
      using n by (auto simp: length_window)
    fix p assume "p < length (window ?s)"
    then have p: "p < min (?o + 1) ?n" by (simp add: length_window)
    let ?j = "?o + 1 - ?n + p"
    have "window ?s ! p = the ((tl_data t)[?k := Some f] ! (?j mod ?n))"
      using p window_nth [of p ?s] by simp
    also have "\<dots> = (?w @ [f]) ! p"
    proof (cases "?j = ?o")
      case True
      then have "p = length ?w" using p n by (auto simp: length_window)
      then show ?thesis using True n by (simp add: nth_append)
    next
      case False
      then have j: "?o - ?n \<le> ?j" "?j < ?o" "p < length ?w" using p n by (auto simp: length_window)
      have "?j mod ?n \<noteq> ?k"
        using add_mod_inj [of "?j - (?o + 1 - ?n)" ?n "?o - (?o + 1 - ?n)" "?o + 1 - ?n"] j p n False
        by auto
      then have "the ((tl_data t)[?k := Some f] ! (?j mod ?n)) = window t ! (?j - (?o - ?n))"
        using getFeed_window [OF wf j(1,2)] n by (simp add: getFeed_def rem_size_def index_data_def)
      then show ?thesis using j n by (auto simp: nth_append nth_tl Suc_diff_le)
    qed
    finally show "window ?s ! p = (?w @ [f]) ! p" .
  qed
  with wf' lim n old show ?thesis
    by (intro exI [of _ ?s])
      (simp add: placed_def add_place_def rem_size_def index_data_def assign_data_def)
qed

lemma window_unlimited:
  assumes "length (tl_data t) = tl_size t" "tl_offset t \<le> tl_size t"
  shows "window t = map the (take (tl_offset t) (tl_data t))"
  using assms by (intro nth_equalityI) (auto simp: window_def)

lemma placed_unlimited:
  assumes wf: "tl_wf t" and lim: "\<not> tl_limit t" and n: "tl_offset t < n" "tl_size t \<le> n"
  shows "placed f t (t\<lparr>tl_data := (tl_data t @ replicate (n - tl_size t) None)[tl_offset t := Some f],
            tl_size := n, tl_offset := tl_offset t + 1\<rparr>)" (is "placed f t ?s")
proof -
  have t: "length (tl_data t) = tl_size t" "tl_offset t \<le> tl_size t"
    "\<forall>i < tl_size t. (tl_data t ! i \<noteq> None) = (i < tl_offset t)"
    using wf lim by (auto simp: tl_wf_def)
  have s: "length (tl_data ?s) = tl_size ?s" "tl_offset ?s \<le> tl_size ?s" using t n by auto
  have "(tl_data ?s ! i \<noteq> None) = (i < tl_offset ?s)" if "i < tl_size ?s" for i
    using that t n by (auto simp: nth_list_update nth_append less_Suc_eq)
  with s n lim have "tl_wf ?s" by (simp add: tl_wf_def)
  moreover have "window ?s = window t @ [f]"
    unfolding window_unlimited [OF s] window_unlimited [OF t(1,2)]
    using t n by (simp add: take_Suc_conv_app_nth)
  ultimately show ?thesis using lim by (simp add: placed_def)
qed

lemma add_place_unlimited:
  assumes wf: "tl_wf t" and lim: "\<not> tl_limit t"
  shows "\<exists>s. add_place f t = Some (Inr (None, s)) \<and> placed f t s"
proof (cases "tl_offset t < tl_size t")
  case True
  with placed_unlimited [OF wf lim, of "tl_size t" f] wf lim show ?thesis
    by (auto simp: add_place_def assign_data_def tl_wf_def)
next
  case False
  have n: "0 < tl_size t" "length (tl_data t) = tl_size t" "tl_offset t \<le> tl_size t"
    using wf lim by (auto simp: tl_wf_def)
  obtain k where k: "expanse_loop (tl_size t) (tl_offset t) = Some (tl_size t * 2 ^ Suc k)"
    "tl_offset t < tl_size t * 2 ^ Suc k"
    using expanse_loop_ge [OF n(1)] by blast
  let ?n = "tl_size t * 2 ^ Suc k"
  have le: "tl_size t \<le> ?n" by simp
  have "add_place f t = Some (Inr (None, t\<lparr>tl_data := (tl_data t @ replicate (?n - tl_size t) None)[tl_offset t := Some f],
            tl_size := ?n, tl_offset := tl_offset t + 1\<rparr>))"
    using False lim k n copy_data_eq [OF n(2) le]
    by (simp add: add_place_def Expanse_def assign_data_def)
  with placed_unlimited [OF wf lim k(2) le, of f] show ?thesis by blast
qed

lemma add_place_placed:
  assumes "tl_wf t"
  shows "\<exists>s. add_place f t =
      Some (Inr (if tl_limit t \<and> tl_size t \<le> tl_offset t then Some (hd (window t)) else None, s)) \<and>
      placed f t s"
  using add_place_limited [OF assms] add_place_unlimited [OF assms] by (cases "tl_limit t") auto

section \<open>The bounds\<close>

lemma checkOutOfOrder_window:
  assumes wf: "tl_wf t"
  shows "checkOutOfOrder key t = Inr (t\<lparr>tl_ofo := (tl_ofo t \<or> tl_limit t \<and> 2 \<le> length (window t) \<and>
      key (last (window t)) < key (window t ! (length (window t) - 2)))\<rparr>)"
proof (cases "tl_limit t \<and> 1 < tl_offset t")
  case True
  have n: "0 < tl_size t" using wf by (simp add: tl_wf_def)
  have w: "window t \<noteq> []" using True n length_window [of t] by auto
  have cur: "getFeed t (tl_offset t - 1) = Inr (Some (last (window t)))"
    using getFeed_window [OF wf, of "tl_offset t - 1"] True n w
    by (simp add: last_conv_nth length_window min_def split: if_splits)
  show ?thesis
  proof (cases "tl_size t = 1")
    case one: True
    then have "getFeed t (tl_offset t - 2) = getFeed t (tl_offset t - 1)"
      by (simp add: getFeed_def rem_size_def)
    with cur one True show ?thesis by (simp add: checkOutOfOrder_def length_window)
  next
    case False
    then have "tl_offset t - 2 - (tl_offset t - tl_size t) = length (window t) - 2"
      "tl_offset t - tl_size t \<le> tl_offset t - 2" "2 \<le> length (window t)"
      using n True by (auto simp: length_window)
    with getFeed_window [OF wf, of "tl_offset t - 2"] True
    have "getFeed t (tl_offset t - 2) = Inr (Some (window t ! (length (window t) - 2)))"
      by simp
    with cur True \<open>2 \<le> length (window t)\<close> show ?thesis by (simp add: checkOutOfOrder_def)
  qed
qed (auto simp: checkOutOfOrder_def length_window)

lemma Min_drop: "finite S \<Longrightarrow> S \<noteq> {} \<Longrightarrow> x \<noteq> Min (insert x S) \<Longrightarrow> Min (insert x S) = Min S"
  for x :: int
  by (simp add: min_def split: if_splits)

lemma Max_drop: "finite S \<Longrightarrow> S \<noteq> {} \<Longrightarrow> x \<noteq> Max (insert x S) \<Longrightarrow> Max (insert x S) = Max S"
  for x :: int
  by (simp add: max_def split: if_splits)

text \<open>The bounds that stand after the comparison with the new feed.\<close>

lemma new_bounds:
  assumes "w \<noteq> []" "tl_lower t = Min (key ` set w)" "tl_upper t = Max (key ` set w)"
  shows "(if key f < tl_lower t then t\<lparr>tl_lower := key f\<rparr>
          else if key f > tl_upper t then t\<lparr>tl_upper := key f\<rparr> else t)
    = t\<lparr>tl_lower := Min (key ` set (w @ [f])), tl_upper := Max (key ` set (w @ [f]))\<rparr>"
proof -
  have "Min (key ` set w) \<le> Max (key ` set w)" using assms(1) by (simp add: Min_le)
  moreover have "Min (key ` set (w @ [f])) = min (key f) (Min (key ` set w))"
    "Max (key ` set (w @ [f])) = max (key f) (Max (key ` set w))"
    using assms(1) by simp_all
  ultimately show ?thesis using assms(2,3) by (auto simp: min_def max_def)
qed

lemma window_frame [simp]:
  "window (t\<lparr>tl_lower := a\<rparr>) = window t" "window (t\<lparr>tl_upper := b\<rparr>) = window t"
  "window (t\<lparr>tl_ofo := c\<rparr>) = window t"
  "tl_wf (t\<lparr>tl_lower := a\<rparr>) = tl_wf t" "tl_wf (t\<lparr>tl_upper := b\<rparr>) = tl_wf t"
  "tl_wf (t\<lparr>tl_ofo := c\<rparr>) = tl_wf t"
  by (simp_all add: window_def tl_wf_def)

lemma window_Nil_iff: "tl_wf t \<Longrightarrow> window t = [] \<longleftrightarrow> tl_offset t = 0"
  using length_window [of t] by (auto simp: tl_wf_def simp flip: length_0_conv)

lemma window_full_iff: "tl_wf t \<Longrightarrow> length (window t) = tl_size t \<longleftrightarrow> tl_size t \<le> tl_offset t"
  by (auto simp: length_window)

text \<open>The sequence of tests after the feed is stored, when the log was not empty.\<close>

lemma add_bounds_nonempty:
  fixes key :: "'f \<Rightarrow> int"
  assumes inv: "tl_inv key t" and w: "window t \<noteq> []" and pl: "placed f t s"
  defines "full \<equiv> tl_limit t \<and> tl_size t \<le> tl_offset t"
  defines "ks \<equiv> key ` set (window t @ [f])"
  defines "ofo1 \<equiv> tl_ofo t \<or> tl_limit t \<and> 1 < tl_size t \<and> key f < key (last (window t))"
  defines "r \<equiv> if full then Some (hd (window t)) else None"
  shows "add_bounds key f (r, s) =
    (let s1 = s\<lparr>tl_lower := Min ks, tl_upper := Max ks, tl_ofo := ofo1\<rparr> in
     if full \<and> (key (hd (window t)) = Min ks \<or> key (hd (window t)) = Max ks)
     then bindR (calc key s1) (\<lambda>s2. Inr (r, s2)) else Inr (r, s1))"
proof -
  let ?w1 = "window s" and ?s0 = "s\<lparr>tl_lower := Min ks, tl_upper := Max ks\<rparr>"
  have wf: "tl_wf t" and b: "tl_lower t = Min (key ` set (window t))"
    "tl_upper t = Max (key ` set (window t))" and pos: "\<forall>g \<in> set (window t). 0 < key g"
    using inv w window_Nil_iff [of t] by (auto simp: tl_inv_def)
  have s: "tl_wf s" "tl_limit s = tl_limit t" "tl_ofo s = tl_ofo t" "tl_lower s = tl_lower t"
    "tl_upper s = tl_upper t" "?w1 = (if full then tl (window t) else window t) @ [f]"
    using pl by (auto simp: placed_def full_def)
  have "Min (key ` set (window t)) \<in> key ` set (window t)" using w by (intro Min_in) auto
  with pos b s have nz: "tl_lower s \<noteq> 0" by auto
  have one: "tl_limit t \<Longrightarrow> 2 \<le> length ?w1 \<longleftrightarrow> 1 < tl_size t"
    using w wf pl length_window [of s] window_Nil_iff [of t] by (auto simp: placed_def)
  have prev: "2 \<le> length ?w1 \<Longrightarrow> ?w1 ! (length ?w1 - 2) = last (window t)"
  proof -
    assume "2 \<le> length ?w1"
    moreover obtain p where p: "?w1 = p @ [f]" "p = (if full then tl (window t) else window t)"
      using s(6) by blast
    ultimately have "p \<noteq> []" by auto
    then have "?w1 ! (length ?w1 - 2) = last p" by (simp add: p(1) nth_append last_conv_nth)
    also have "\<dots> = last (window t)" using p(2) \<open>p \<noteq> []\<close> by (simp add: last_tl split: if_splits)
    finally show "?w1 ! (length ?w1 - 2) = last (window t)" .
  qed
  have mark: "(tl_ofo t \<or> tl_limit t \<and> 2 \<le> length ?w1 \<and>
      key (last ?w1) < key (?w1 ! (length ?w1 - 2))) = ofo1"
  proof (cases "tl_limit t \<and> 2 \<le> length ?w1")
    case True
    then show ?thesis using one prev s(6) by (simp add: ofo1_def)
  next
    case False
    then show ?thesis using one by (auto simp: ofo1_def)
  qed
  have chk: "checkOutOfOrder key ?s0 = Inr (?s0\<lparr>tl_ofo := ofo1\<rparr>)"
    using checkOutOfOrder_window [of ?s0 key] mark s(1-3) by simp
  have nb: "(if key f < tl_lower s then s\<lparr>tl_lower := key f\<rparr>
      else if key f > tl_upper s then s\<lparr>tl_upper := key f\<rparr> else s) = ?s0"
    unfolding ks_def by (rule new_bounds [OF w]) (simp_all only: s(4,5) b)
  show ?thesis
    by (simp add: add_bounds_def Let_def nb nz chk r_def)
qed

lemma ring_sorted:
  assumes inv: "tl_inv key t" and w: "window t \<noteq> []" and lim: "tl_limit t"
    and o: "\<not> (tl_ofo t \<or> 1 < tl_size t \<and> key f < key (last (window t)))"
  shows "sorted (map key ((if tl_size t \<le> tl_offset t then tl (window t) else window t) @ [f]))"
proof -
  have srt: "sorted (map key (window t))" using inv lim o by (simp add: tl_inv_def)
  have wf: "tl_wf t" using inv by (simp add: tl_inv_def)
  show ?thesis
  proof (cases "1 < tl_size t")
    case True
    with o have "key (last (window t)) \<le> key f" by auto
    then have "\<forall>g \<in> set (window t). key g \<le> key f"
      using srt w by (cases "window t" rule: rev_cases) (auto simp: sorted_append)
    moreover from this have "\<forall>g \<in> set (tl (window t)). key g \<le> key f"
      using w by (simp add: list.set_sel(2))
    moreover have "sorted (map key (tl (window t)))" using srt by (simp add: map_tl sorted_tl)
    ultimately show ?thesis using srt by (simp add: sorted_append)
  next
    case False
    then have "tl_size t = 1" using wf by (simp add: tl_wf_def)
    moreover have "length (window t) = 1" "tl_size t \<le> tl_offset t"
      using w wf calculation length_window [of t] window_Nil_iff [of t] by auto
    ultimately show ?thesis by (cases "window t") auto
  qed
qed

lemma tl_invI:
  assumes "tl_wf t" "\<forall>f \<in> set (window t). 0 < key f" "window t \<noteq> []"
    "tl_lower t = Min (key ` set (window t))" "tl_upper t = Max (key ` set (window t))"
    "tl_limit t \<Longrightarrow> \<not> tl_ofo t \<Longrightarrow> sorted (map key (window t))"
  shows "tl_inv key t"
  using assms window_Nil_iff [of t] by (simp add: tl_inv_def)

lemma log_add_cap_of:
  assumes "tl_wf t"
  shows "log_add key (cap_of t) f (log_of t) =
    (let full = (tl_limit t \<and> tl_size t \<le> tl_offset t); w = window t;
         w1 = (if full then tl w else w) @ [f];
         ofo1 = (tl_ofo t \<or> tl_limit t \<and> w \<noteq> [] \<and> 1 < tl_size t \<and> key f < key (last w));
         ks = key ` set (w @ [f])
     in (if full then Some (hd w) else None, ofo1,
         if ofo1 \<and> full \<and> (key (hd w) = Min ks \<or> key (hd w) = Max ks) then sort_key key w1 else w1))"
  using window_full_iff [OF assms] by (simp add: log_add_def cap_of_def log_of_def Let_def)

lemma bounds_after_drop:
  assumes "w \<noteq> []" "key (hd w) \<noteq> Min (key ` set (w @ [f]))" "key (hd w) \<noteq> Max (key ` set (w @ [f]))"
  shows "Min (key ` set (w @ [f])) = Min (key ` set (tl w @ [f]))"
    "Max (key ` set (w @ [f])) = (Max (key ` set (tl w @ [f])) :: int)"
proof -
  have e: "key ` set (w @ [f]) = insert (key (hd w)) (key ` set (tl w @ [f]))"
    using assms(1) by (cases w) auto
  show "Min (key ` set (w @ [f])) = Min (key ` set (tl w @ [f]))"
    using assms(2) unfolding e by (intro Min_drop) auto
  show "Max (key ` set (w @ [f])) = Max (key ` set (tl w @ [f]))"
    using assms(3) unfolding e by (intro Max_drop) auto
qed

lemma bounds_sorted:
  assumes "w \<noteq> []" "sorted (map key w)"
  shows "Min (key ` set w) = key (hd w)" "Max (key ` set w) = (key (last w) :: int)"
  using nonempty_Min [of "map key w"] nonempty_Max [of "map key w"] assms
  by (simp_all add: hd_map last_map)

lemma Add_nonempty:
  assumes inv: "tl_inv key t" and f: "0 < key f" and w: "window t \<noteq> []"
  shows "\<exists>r s. Add key (Some f) t = Some (Inr (r, s)) \<and> tl_inv key s \<and> cap_of s = cap_of t \<and>
    tl_offset s = tl_offset t + 1 \<and>
    (r, log_of s) = log_add key (cap_of t) f (log_of t)"
proof -
  let ?w = "window t" and ?full = "tl_limit t \<and> tl_size t \<le> tl_offset t"
  let ?ks = "key ` set (?w @ [f])" and ?r = "if ?full then Some (hd ?w) else None"
  let ?o = "tl_ofo t \<or> tl_limit t \<and> 1 < tl_size t \<and> key f < key (last ?w)"
  have wf: "tl_wf t" and pos: "\<forall>g \<in> set ?w. 0 < key g" using inv by (auto simp: tl_inv_def)
  obtain s where s: "add_place f t = Some (Inr (?r, s))" and pl: "placed f t s"
    using add_place_placed [OF wf, of f] by auto
  define s1 where "s1 = s\<lparr>tl_lower := Min ?ks, tl_upper := Max ?ks, tl_ofo := ?o\<rparr>"
  define again where "again = (?full \<and> (key (hd ?w) = Min ?ks \<or> key (hd ?w) = Max ?ks))"
  have w1: "window s1 = (if ?full then tl ?w else ?w) @ [f]" and wf1: "tl_wf s1"
    using pl by (simp_all add: s1_def placed_def)
  have pos1: "\<forall>g \<in> set (window s1). 0 < key g"
    using pos f w unfolding w1 by (auto dest: list.set_sel(2))
  have srt: "sorted (map key (window s1))" if "tl_limit t" "\<not> ?o"
    using ring_sorted [OF inv w that(1), of f] that unfolding w1 by simp
  have lim: "tl_limit s1 = tl_limit t" "tl_limit t \<Longrightarrow> tl_size s1 = tl_size t"
    using pl by (auto simp: s1_def placed_def)
  have "add_bounds key f (?r, s) = (if again then bindR (calc key s1) (\<lambda>s2. Inr (?r, s2)) else Inr (?r, s1))"
    using add_bounds_nonempty [OF inv w pl] unfolding s1_def again_def Let_def by (rule trans) simp
  then have add: "Add key (Some f) t = Some (if again then bindR (calc key s1) (\<lambda>s2. Inr (?r, s2)) else Inr (?r, s1))"
    unfolding Add_def by (simp only: s option.case bindR_simps)
  have o1: "tl_ofo s1 = ?o" by (simp add: s1_def)
  have off: "tl_offset s1 = tl_offset t + 1" using pl by (simp add: s1_def placed_def)
  have spec: "log_add key (cap_of t) f (log_of t) =
      (?r, ?o, if ?o \<and> again then sort_key key (window s1) else window s1)"
    unfolding log_add_cap_of [OF wf] w1 using w by (simp add: again_def Let_def)
  show ?thesis
  proof (cases again)
    case True
    have gt: "tl_limit s1" "tl_size s1 < tl_offset s1"
      using True pl by (auto simp: again_def s1_def placed_def)
    obtain s2 where s2: "calc key s1 = Inr s2" "tl_wf s2" "tl_size s2 = tl_size s1" "tl_limit s2"
      "tl_ofo s2 = ?o" "window s2 = (if ?o then sort_key key (window s1) else window s1)"
      "tl_lower s2 = key (hd (window s2))" "tl_upper s2 = key (last (window s2))"
      "tl_offset s2 = tl_offset s1"
      using calc_window [OF wf1 gt, of key] unfolding o1 by blast
    have "sorted (map key (window s2))" using s2(6) srt gt lim by simp
    moreover have "length (window s2) = length (window s1)" using s2(6) by simp
    then have "window s2 \<noteq> []" using w1 by auto
    moreover have "\<forall>g \<in> set (window s2). 0 < key g" using s2(6) pos1 by simp
    ultimately have "tl_inv key s2"
      using s2 bounds_sorted [of "window s2" key] by (intro tl_invI) simp_all
    moreover have "cap_of s2 = cap_of t" using s2 lim gt by (simp add: cap_of_def)
    moreover have "(?r, log_of s2) = log_add key (cap_of t) f (log_of t)"
      using s2(5,6) spec True by (simp add: log_of_def)
    ultimately show ?thesis using add True s2(1,9) off by auto
  next
    case False
    have "tl_lower s1 = Min (key ` set (window s1))" "tl_upper s1 = Max (key ` set (window s1))"
      using bounds_after_drop [OF w, of key f] False unfolding w1 again_def
      by (auto simp: s1_def)
    then have "tl_inv key s1" using wf1 pos1 srt lim w1 by (intro tl_invI) (auto simp: s1_def)
    moreover have "cap_of s1 = cap_of t" using lim by (simp add: cap_of_def)
    moreover have "(?r, log_of s1) = log_add key (cap_of t) f (log_of t)"
      using spec False by (simp add: log_of_def s1_def)
    ultimately show ?thesis using add False off by auto
  qed
qed

lemma Add_first:
  assumes inv: "tl_inv key t" and f: "0 < key f" and w: "window t = []"
  shows "\<exists>r s. Add key (Some f) t = Some (Inr (r, s)) \<and> tl_inv key s \<and> cap_of s = cap_of t \<and>
    tl_offset s = tl_offset t + 1 \<and>
    (r, log_of s) = log_add key (cap_of t) f (log_of t)"
proof -
  have wf: "tl_wf t" and o: "tl_offset t = 0" "tl_lower t = 0" "0 < tl_size t"
    using inv w window_Nil_iff [of t] by (auto simp: tl_inv_def tl_wf_def)
  obtain s where s: "add_place f t = Some (Inr (None, s))" and pl: "placed f t s"
    using add_place_placed [OF wf, of f] o by auto
  let ?s = "s\<lparr>tl_lower := key f, tl_upper := key f\<rparr>"
  have "Add key (Some f) t = Some (Inr (None, ?s))"
    using s pl o by (simp add: Add_def add_bounds_def placed_def)
  moreover have "tl_inv key ?s" using pl w f o by (intro tl_invI) (simp_all add: placed_def)
  moreover have "cap_of ?s = cap_of t" using pl by (simp add: cap_of_def placed_def)
  moreover have "(None, log_of ?s) = log_add key (cap_of t) f (log_of t)"
    unfolding log_add_cap_of [OF wf] using pl w o by (simp add: log_of_def placed_def)
  moreover have "tl_offset ?s = tl_offset t + 1" using pl by (simp add: placed_def)
  ultimately show ?thesis by blast
qed

section \<open>Runs: a log that loses and invents nothing\<close>

text \<open>
  What a client of a feed log relies on: on an admissible feed the operation returns without a
  panic, keeps the log well formed, and what is held afterwards together with what was pushed
  out is what was held before together with the feed.
\<close>

locale feed_log =
  fixes ad :: "'f \<Rightarrow> 's \<Rightarrow> ('f option \<times> 's) result option"
    and held :: "'s \<Rightarrow> 'f list"
    and ok :: "'s \<Rightarrow> bool"
    and adm :: "'f \<Rightarrow> bool"
  assumes ad_returns: "ok s \<Longrightarrow> adm f \<Longrightarrow> \<exists>r s'. ad f s = Some (Inr (r, s'))"
    and ad_ok: "ok s \<Longrightarrow> adm f \<Longrightarrow> ad f s = Some (Inr (r, s')) \<Longrightarrow> ok s'"
    and ad_conserves: "ok s \<Longrightarrow> adm f \<Longrightarrow> ad f s = Some (Inr (r, s')) \<Longrightarrow>
      mset (held s') + mset (case r of None \<Rightarrow> [] | Some x \<Rightarrow> [x]) = mset (held s) + {#f#}"
begin

lemma run_conserves:
  "ok s \<Longrightarrow> \<forall>f \<in> set fs. adm f \<Longrightarrow>
    \<exists>rs s'. add_list ad fs s = Some (Inr (rs, s')) \<and> ok s' \<and>
      mset (held s') + mset rs = mset (held s) + mset fs"
proof (induction fs arbitrary: s)
  case (Cons f fs)
  then obtain r s1 where r: "ad f s = Some (Inr (r, s1))" using ad_returns [of s f] by auto
  with Cons have s1: "ok s1"
    "mset (held s1) + mset (case r of None \<Rightarrow> [] | Some x \<Rightarrow> [x]) = mset (held s) + {#f#}"
    using ad_ok [of s f] ad_conserves [of s f] by auto
  from Cons.IH [OF s1(1)] Cons.prems(2) obtain rs s2 where
    s2: "add_list ad fs s1 = Some (Inr (rs, s2))" "ok s2"
    "mset (held s2) + mset rs = mset (held s1) + mset fs"
    by auto
  let ?x = "mset (case r of None \<Rightarrow> [] | Some x \<Rightarrow> [x])"
  have "mset (held s2) + mset (case r of None \<Rightarrow> rs | Some x \<Rightarrow> x # rs)
      = (mset (held s2) + mset rs) + ?x"
    by (cases r) simp_all
  also have "\<dots> = (mset (held s1) + ?x) + mset fs" unfolding s2(3) by (simp only: ac_simps)
  also have "\<dots> = mset (held s) + mset (f # fs)" unfolding s1(2) by simp
  finally show ?case using r s2(1,2) by auto
qed simp

end

lemma log_add_conserves:
  assumes "(r, b, w') = log_add key cap f (c, w)" "cap \<noteq> Some 0"
  shows "mset w' + mset (case r of None \<Rightarrow> [] | Some x \<Rightarrow> [x]) = mset w + {#f#}"
  using assms by (cases w) (auto simp: log_add_def Let_def split: option.splits if_splits)

lemma Add_facts:
  assumes "tl_inv key t" "0 < key f" "Add key (Some f) t = Some (Inr (r, s))"
  shows "tl_inv key s" "cap_of s = cap_of t" "(r, log_of s) = log_add key (cap_of t) f (log_of t)"
    "tl_offset s = tl_offset t + 1"
  using Add_nonempty [OF assms(1,2)] Add_first [OF assms(1,2)] assms(3)
  by (cases "window t = []"; auto)+

interpretation tlog: feed_log "\<lambda>f. Add key (Some f)" window "tl_inv key" "\<lambda>f. 0 < key f" for key
proof
  fix s f
  assume a: "tl_inv key s" "0 < key f"
  show "\<exists>r s'. Add key (Some f) s = Some (Inr (r, s'))"
    using Add_nonempty [OF a] Add_first [OF a] by (cases "window s = []") auto
  fix r s'
  assume "Add key (Some f) s = Some (Inr (r, s'))"
  note n = Add_facts [OF a this]
  show "tl_inv key s'" by (rule n(1))
  have "cap_of s \<noteq> Some 0"
    using a(1) by (auto simp: cap_of_def tl_inv_def tl_wf_def split: if_splits)
  with n(3) show "mset (window s') + mset (case r of None \<Rightarrow> [] | Some x \<Rightarrow> [x]) = mset (window s) + {#f#}"
    unfolding log_of_def by (intro log_add_conserves)
qed

lemma tl_inv_new: "0 < n \<Longrightarrow> NewEvTimeLines n lim = Inr t \<Longrightarrow> tl_inv key t \<and> window t = []"
  by (auto simp: NewEvTimeLines_def tl_inv_def tl_wf_def window_def split: if_splits)

lemma add_list_frame:
  "tl_inv key t \<Longrightarrow> \<forall>f \<in> set fs. 0 < key f \<Longrightarrow>
    add_list (\<lambda>f. Add key (Some f)) fs t = Some (Inr (rs, s)) \<Longrightarrow>
    cap_of s = cap_of t \<and> tl_offset s = tl_offset t + length fs"
proof (induction fs arbitrary: t rs)
  case (Cons f fs)
  then obtain r t1 rs1 where "Add key (Some f) t = Some (Inr (r, t1))"
    "add_list (\<lambda>f. Add key (Some f)) fs t1 = Some (Inr (rs1, s))"
    by (auto split: option.splits sum.splits prod.splits)
  with Cons Add_facts [of key t f r t1] show ?case by auto
qed simp

lemma log_add_ordered:
  assumes "n \<noteq> 0" "w \<noteq> [] \<Longrightarrow> \<not> key f < key (last w)" "(r, b, w') = log_add key (Some n) f (False, w)"
  shows "\<not> b \<and> (case r of None \<Rightarrow> [] | Some x \<Rightarrow> [x]) @ w' = w @ [f]"
  using assms by (cases "w = []") (auto simp: log_add_def Let_def)

lemma sorted_run:
  assumes "tl_inv key t" "tl_limit t" "\<not> tl_ofo t" "\<forall>f \<in> set fs. 0 < key f"
    "sorted (map key (window t @ fs))"
  shows "\<exists>rs s. add_list (\<lambda>f. Add key (Some f)) fs t = Some (Inr (rs, s)) \<and>
    \<not> tl_ofo s \<and> tl_inv key s \<and> rs @ window s = window t @ fs"
  using assms
proof (induction fs arbitrary: t)
  case (Cons f fs)
  have f: "0 < key f" and wf: "tl_wf t" using Cons.prems by (auto simp: tl_inv_def)
  obtain r s where s: "Add key (Some f) t = Some (Inr (r, s))"
    using tlog.ad_returns [OF Cons.prems(1) f] by blast
  note a = Add_facts [OF Cons.prems(1) f s]
  have nz: "tl_size t \<noteq> 0" and lim: "tl_limit s" using wf a(2) Cons.prems(2)
    by (auto simp: tl_wf_def cap_of_def split: if_splits)
  have "\<forall>g \<in> set (window t). key g \<le> key f" using Cons.prems(5) by (simp add: sorted_append)
  then have ord: "window t \<noteq> [] \<Longrightarrow> \<not> key f < key (last (window t))"
    by (simp add: not_less)
  have o: "\<not> tl_ofo s" and w: "(case r of None \<Rightarrow> [] | Some x \<Rightarrow> [x]) @ window s = window t @ [f]"
    using a(3) Cons.prems(2,3) log_add_ordered [OF nz ord, of r "tl_ofo s" "window s"]
    by (simp_all add: log_of_def cap_of_def)
  have "sorted (map key ((case r of None \<Rightarrow> [] | Some x \<Rightarrow> [x]) @ window s @ fs))"
    using Cons.prems(5) w by (metis append.assoc append_Cons append_Nil)
  then have "sorted (map key (window s @ fs))" by (simp add: sorted_append)
  from Cons.IH [OF a(1) lim o _ this] Cons.prems(4) obtain rs u where
    u: "add_list (\<lambda>f. Add key (Some f)) fs s = Some (Inr (rs, u))" "\<not> tl_ofo u" "tl_inv key u"
    "rs @ window u = window s @ fs" by auto
  have "(case r of None \<Rightarrow> rs | Some x \<Rightarrow> x # rs) @ window u
      = (case r of None \<Rightarrow> [] | Some x \<Rightarrow> [x]) @ window s @ fs"
    using u(4) by (cases r) simp_all
  also have "\<dots> = window t @ f # fs" using arg_cong [OF w, of "\<lambda>v. v @ fs"] by simp
  finally have "(case r of None \<Rightarrow> rs | Some x \<Rightarrow> x # rs) @ window u = window t @ f # fs" .
  with s u(1-3) show ?case by auto
qed simp

section \<open>Readers\<close>

lemma window_as_map:
  "window t = map (\<lambda>i. window t ! (i - (tl_offset t - tl_size t))) [tl_offset t - tl_size t..<tl_offset t]"
  by (rule nth_equalityI) (auto simp: length_window)

lemma collect_feeds:
  assumes "tl_wf t" "\<forall>i \<in> set xs. tl_offset t - tl_size t \<le> i \<and> i < tl_offset t"
  shows "foldR (\<lambda>i res. bindR (getFeed t i) (\<lambda>v. bindR (call_GetOffset key v) (\<lambda>off.
      Inr (if P off then res @ [v] else res)))) xs acc
    = Inr (acc @ map Some (filter (\<lambda>f. P (key f)) (map (\<lambda>i. window t ! (i - (tl_offset t - tl_size t))) xs)))"
  using assms(2)
  by (induction xs arbitrary: acc) (simp_all add: getFeed_window [OF assms(1)] call_GetOffset_def)

lemma collect_all_feeds:
  assumes "tl_wf t" "\<forall>i \<in> set xs. tl_offset t - tl_size t \<le> i \<and> i < tl_offset t"
  shows "foldR (\<lambda>i res. bindR (getFeed t i) (\<lambda>v. Inr (res @ [v]))) xs acc
    = Inr (acc @ map Some (map (\<lambda>i. window t ! (i - (tl_offset t - tl_size t))) xs))"
  using assms(2)
  by (induction xs arbitrary: acc) (simp_all add: getFeed_window [OF assms(1)])

lemma empty_range: "tl_wf t \<Longrightarrow> tl_offset t \<le> tl_offset t - tl_size t \<Longrightarrow> window t = []"
  by (simp add: window_def)

lemma GetAllFeeds_window:
  "tl_wf t \<Longrightarrow> GetAllFeeds t =
    Inr (map Some (window t), tl_offset t - tl_size t, tl_offset t, tl_lower t, tl_upper t)"
  using collect_all_feeds [of t "[tl_offset t - tl_size t..<tl_offset t]" "[]"] empty_range [of t]
  by (simp only: window_as_map [of t, symmetric] GetAllFeeds_def GetRange_eq) simp

lemma GetAllFeedsReverse_window:
  "tl_wf t \<Longrightarrow> GetAllFeedsReverse t =
    Inr (map Some (rev (window t)), tl_offset t - tl_size t, tl_offset t, tl_lower t, tl_upper t)"
  using collect_all_feeds [of t "rev [tl_offset t - tl_size t..<tl_offset t]" "[]"] empty_range [of t]
  by (simp only: rev_map [symmetric] window_as_map [of t, symmetric] GetAllFeedsReverse_def GetRange_eq) simp

lemma GetFeeds_window:
  assumes "tl_wf t"
  shows "GetFeeds key t fromPos endPos =
      Inr (if fromPos > 0 \<and> endPos > 0 \<and> fromPos \<ge> endPos then []
           else map Some (filter (\<lambda>f.
             (if fromPos > tl_lower t \<and> fromPos < tl_upper t then fromPos else tl_lower t) \<le> key f \<and>
             key f \<le> (if endPos > 0 \<and> endPos < tl_upper t then endPos else tl_upper t)) (window t)),
         tl_offset t - tl_size t, tl_offset t, tl_lower t, tl_upper t)"
proof -
  have "\<forall>i \<in> set [tl_offset t - tl_size t..<tl_offset t]. tl_offset t - tl_size t \<le> i \<and> i < tl_offset t"
    by simp
  note * = collect_feeds [OF assms this, where acc = "[]", unfolded window_as_map [of t, symmetric]]
  show ?thesis using empty_range [OF assms]
    by (simp only: GetFeeds_def GetRange_eq * prod.case Let_def bindR_simps append_Nil if_cancel) simp
qed

section \<open>Properties\<close>

text \<open>
  C40. \<open>Add\<close> implements the log specification: on a well-formed time line and a feed with a positive
  stream offset it returns without a panic, the feed pushed out, the out-of-order mark and the
  list of feeds held are those of \<open>log_add\<close>, and the invariant holds again, so \<open>lower\<close> and
  \<open>upper\<close> are exactly the smallest and the largest offset held. The bubble sort over the ring
  indices is a stable sort of the window.
\<close>

theorem Add_refines:
  assumes "tl_inv key t" "0 < key f"
  shows "\<exists>r s. Add key (Some f) t = Some (Inr (r, s)) \<and> tl_inv key s \<and> cap_of s = cap_of t \<and>
    (r, log_of s) = log_add key (cap_of t) f (log_of t)"
  using Add_nonempty [OF assms] Add_first [OF assms] by blast

text \<open>
  A run of additions on a new time line loses and invents nothing: every call returns, the
  feeds held together with the feeds pushed out are the feeds added, a limited time line holds
  the last \<open>n\<close> of them (in number) and an unlimited one all, and the bounds are exact.
\<close>

theorem timeline_run:
  assumes "0 < n" "NewEvTimeLines n lim = Inr t" "\<forall>f \<in> set fs. 0 < key f" "fs \<noteq> []"
  shows "\<exists>rs s. add_list (\<lambda>f. Add key (Some f)) fs t = Some (Inr (rs, s)) \<and>
    mset (window s) + mset rs = mset fs \<and>
    length (window s) = (if lim then min (nat n) (length fs) else length fs) \<and>
    GetFeedRange s = (Min (key ` set (window s)), Max (key ` set (window s)))"
proof -
  have t: "tl_inv key t" "window t = []" using tl_inv_new [OF assms(1,2)] by auto
  obtain rs s where s: "add_list (\<lambda>f. Add key (Some f)) fs t = Some (Inr (rs, s))"
    "tl_inv key s" "mset (window s) + mset rs = mset fs"
    using tlog.run_conserves [OF t(1) assms(3)] t(2) by auto
  have off: "tl_offset s = length fs"
    using add_list_frame [OF t(1) assms(3) s(1)] assms(1,2)
    by (auto simp: NewEvTimeLines_def split: if_splits)
  have cap: "cap_of s = (if lim then Some (nat n) else None)"
    using add_list_frame [OF t(1) assms(3) s(1)] assms(1,2)
    by (auto simp: NewEvTimeLines_def cap_of_def split: if_splits)
  have "length (window s) = (if lim then min (nat n) (length fs) else length fs)"
    using cap off s(2) by (auto simp: cap_of_def length_window tl_inv_def tl_wf_def split: if_splits)
  with s off assms(4) show ?thesis by (auto simp: tl_inv_def GetFeedRange_def)
qed

text \<open>
  On feeds that arrive in the order of their offsets a limited time line is a ring buffer: it
  holds the most recent \<open>n\<close> feeds in order and has pushed out the others, oldest first.
\<close>

theorem timeline_ring:
  assumes "0 < n" "NewEvTimeLines n True = Inr t" "\<forall>f \<in> set fs. 0 < key f" "sorted (map key fs)"
  shows "\<exists>s. add_list (\<lambda>f. Add key (Some f)) fs t =
    Some (Inr (take (length fs - nat n) fs, s)) \<and> window s = drop (length fs - nat n) fs"
proof -
  have t: "tl_inv key t" "window t = []" using tl_inv_new [OF assms(1,2)] by auto
  have l: "tl_limit t" "\<not> tl_ofo t" "tl_offset t = 0" "cap_of t = Some (nat n)" using assms(1,2)
    by (auto simp: NewEvTimeLines_def cap_of_def split: if_splits)
  obtain rs s where s: "add_list (\<lambda>f. Add key (Some f)) fs t = Some (Inr (rs, s))"
    "tl_inv key s" "rs @ window s = fs"
    using sorted_run [OF t(1) l(1,2) assms(3)] assms(4) t(2) by auto
  have "tl_offset s = length fs" "cap_of s = Some (nat n)"
    using add_list_frame [OF t(1) assms(3) s(1)] l by auto
  then have "length (window s) = min (length fs) (nat n)"
    by (auto simp: length_window cap_of_def split: if_splits)
  then have "length rs = length fs - nat n" using arg_cong [OF s(3), of length] by auto
  then have "rs = take (length fs - nat n) fs" "window s = drop (length fs - nat n) fs"
    using s(3) by (metis append_eq_conv_conj)+
  with s(1) show ?thesis by blast
qed

text \<open>
  The readers return the feeds held, in ring order and reversed, with the range and the bounds;
  \<open>GetFeeds\<close> returns exactly those within the effective positions. None of them panics.
\<close>

theorem timeline_readers:
  assumes "tl_wf t"
  shows "GetAllFeeds t =
      Inr (map Some (window t), tl_offset t - tl_size t, tl_offset t, tl_lower t, tl_upper t) \<and>
    GetAllFeedsReverse t =
      Inr (map Some (rev (window t)), tl_offset t - tl_size t, tl_offset t, tl_lower t, tl_upper t) \<and>
    GetFeeds key t fromPos endPos =
      Inr (if fromPos > 0 \<and> endPos > 0 \<and> fromPos \<ge> endPos then []
           else map Some (filter (\<lambda>f.
             (if fromPos > tl_lower t \<and> fromPos < tl_upper t then fromPos else tl_lower t) \<le> key f \<and>
             key f \<le> (if endPos > 0 \<and> endPos < tl_upper t then endPos else tl_upper t)) (window t)),
         tl_offset t - tl_size t, tl_offset t, tl_lower t, tl_upper t)"
  by (intro conjI GetAllFeeds_window GetAllFeedsReverse_window GetFeeds_window assms)

text \<open>
  \<open>Expanse\<close> returns a power-of-two multiple of the size that is large enough for the next
  feed, unless the size is 0: then its loop never ends (an unlimited time line created with size
  0 hangs on the first feed).
\<close>

theorem Expanse_grows:
  "(Expanse t = None \<longleftrightarrow> tl_size t = 0) \<and>
    (\<forall>n. Expanse t = Some n \<longrightarrow> tl_offset t < n \<and> (\<exists>k. n = tl_size t * 2 ^ k))"
proof (cases "tl_size t \<le> tl_offset t \<and> 0 < tl_size t")
  case True
  then obtain k where "expanse_loop (tl_size t) (tl_offset t) = Some (tl_size t * 2 ^ Suc k)"
    "tl_offset t < tl_size t * 2 ^ Suc k"
    using expanse_loop_ge [of "tl_size t" "tl_offset t"] by blast
  with True show ?thesis by (auto simp: Expanse_def intro: exI [of _ "Suc k"])
next
  case False
  then show ?thesis by (auto simp: Expanse_def expanse_loop_zero intro: exI [of _ 0])
qed

section \<open>Witnesses\<close>

theorem Expanse_grows_witness:
  "\<exists>n k. Expanse \<lparr>tl_size = 3, tl_offset = 3, tl_limit = False, tl_lower = 1, tl_upper = 4,
      tl_data = map Some [1, 2, 4 :: int], tl_ofo = False\<rparr> = Some n \<and> 3 < n \<and> n = 3 * 2 ^ k"
  using Expanse_grows [of "\<lparr>tl_size = 3, tl_offset = 3, tl_limit = False, tl_lower = 1, tl_upper = 4,
      tl_data = map Some [1, 2, 4 :: int], tl_ofo = False\<rparr>"]
  by auto

theorem Add_refines_witness:
  "\<exists>t r s. NewEvTimeLines 2 True = Inr t \<and> Add id (Some 7) t = Some (Inr (r, s)) \<and> tl_inv id s \<and>
    cap_of s = cap_of t \<and> (r, log_of s) = log_add id (cap_of t) 7 (log_of t)"
proof -
  obtain t :: "int TimeLines" where t: "NewEvTimeLines 2 True = Inr t" by (simp add: NewEvTimeLines_def)
  then have "tl_inv id t" using tl_inv_new [of 2 True t id] by simp
  with t Add_refines [of id t 7] show ?thesis by auto
qed

theorem timeline_run_witness:
  "\<exists>t rs s. NewEvTimeLines 2 True = Inr t \<and>
    add_list (\<lambda>f. Add id (Some f)) [5, 3, 9, 4 :: int] t = Some (Inr (rs, s)) \<and>
    mset (window s) + mset rs = mset [5, 3, 9, 4] \<and> length (window s) = 2 \<and>
    GetFeedRange s = (Min (set (window s)), Max (set (window s)))"
proof -
  obtain t :: "int TimeLines" where t: "NewEvTimeLines 2 True = Inr t" by (simp add: NewEvTimeLines_def)
  with timeline_run [of 2 True t "[5, 3, 9, 4]" id] show ?thesis by auto
qed

theorem timeline_ring_witness:
  "\<exists>t s. NewEvTimeLines 2 True = Inr t \<and>
    add_list (\<lambda>f. Add id (Some f)) [3, 5, 9 :: int] t = Some (Inr ([3], s)) \<and> window s = [5, 9]"
proof -
  obtain t :: "int TimeLines" where t: "NewEvTimeLines 2 True = Inr t" by (simp add: NewEvTimeLines_def)
  with timeline_ring [of 2 t "[3, 5, 9]" id] show ?thesis by (auto simp: numeral_eq_Suc)
qed

theorem timeline_readers_witness:
  "GetFeeds id \<lparr>tl_size = 2, tl_offset = 3, tl_limit = True, tl_lower = 5, tl_upper = 9,
      tl_data = [Some 9, Some 5], tl_ofo = False\<rparr> (-1) 6 = Inr ([Some 5], 1, 3, 5, 9 :: int)"
  using timeline_readers [of "\<lparr>tl_size = 2, tl_offset = 3, tl_limit = True, tl_lower = 5, tl_upper = 9,
      tl_data = [Some 9, Some 5], tl_ofo = False\<rparr>" id "-1" 6]
  by (simp add: tl_wf_def window_def nth_Cons' upt_rec)

end
