(* ===== verification/Domains.thy ===== *)
theory Domains
  imports Prelude
begin

text \<open>
  Identifiers and the domains a server answers for (\<open>src/common/utils/utils.go\<close> and
  \<open>src/common/domain/domainMng.go\<close>): the domain and the local part of an identifier, the manager that
  keeps the list of local domains in step with the cache and the database, and the test whether
  a domain is local. The cache and the database are arguments; what the manager writes to them is
  part of the result.
\<close>

section \<open>Model\<close>

definition DomainFromID :: "string \<Rightarrow> string result" where
  "DomainFromID ident =
     (let parts = splitN2 CHR '':'' ident in
      if length parts \<noteq> 2 then Inl (Error ''invalid ID'') else Inr (parts ! 1))"

text \<open>On an error the code returns the whole identifier beside the error.\<close>

definition NickNameFromID :: "string \<Rightarrow> string \<times> bool" where
  "NickNameFromID ident =
     (case dropWhile (\<lambda>c. c \<noteq> CHR ''@'') ident of
        [] \<Rightarrow> (ident, False)
      | _ # r \<Rightarrow>
          if CHR '':'' \<in> set r then (takeWhile (\<lambda>c. c \<noteq> CHR '':'') r, True) else (ident, False))"

record DomainMng =
  dm_domains :: "string list"
  fromDb :: bool

datatype domain_write = AddDomain string | UpsertServerName string

text \<open>
  The domains, the manager with its list brought up to date, and the writes: an empty cache is filled from the
  database, an empty database from the manager's own list.
\<close>

definition GetDomain ::
  "string list result \<Rightarrow> string list result \<Rightarrow> DomainMng \<Rightarrow> string list \<times> DomainMng \<times> domain_write list" where
  "GetDomain cached stored dm =
     (if \<not> fromDb dm then (dm_domains dm, dm, [])
      else
        (case cached of
           Inr (d # ds) \<Rightarrow> (d # ds, dm\<lparr>dm_domains := d # ds\<rparr>, [])
         | _ \<Rightarrow>
             (case stored of
                Inl _ \<Rightarrow> (dm_domains dm, dm, [])
              | Inr [] \<Rightarrow> (dm_domains dm, dm, concat (map (\<lambda>d. [AddDomain d, UpsertServerName d]) (dm_domains dm)))
              | Inr (d # ds) \<Rightarrow> (d # ds, dm\<lparr>dm_domains := d # ds\<rparr>, map AddDomain (d # ds)))))"

fun in_domains :: "string \<Rightarrow> string list \<Rightarrow> bool" where
  "in_domains d [] = False"
| "in_domains d (v # vs) = (if v = d then True else in_domains d vs)"

definition CheckValidDomain ::
  "(DomainMng \<times> string list result \<times> string list result) option \<Rightarrow> string \<Rightarrow> string list \<Rightarrow> bool" where
  "CheckValidDomain inst domain domains =
     in_domains domain
       (case inst of
          None \<Rightarrow> domains
        | Some (dm, cached, stored) \<Rightarrow> if \<not> fromDb dm then domains else fst (GetDomain cached stored dm))"

section \<open>Lemmas\<close>

lemma in_domains_iff: "in_domains d ds \<longleftrightarrow> d \<in> set ds"
  by (induction ds) auto

lemma DomainFromID_iff:
  "DomainFromID ident = Inr d \<longleftrightarrow> (\<exists>l. ident = l @ CHR '':'' # d \<and> CHR '':'' \<notin> set l)"
proof -
  have "DomainFromID ident = Inr d \<longleftrightarrow> (\<exists>l. splitN2 CHR '':'' ident = [l, d])"
    by (auto simp: DomainFromID_def Let_def length_Suc_conv numeral_2_eq_2)
  then show ?thesis by (simp add: splitN2_two_iff)
qed

end
