(* ===== verification/Room_State.thy ===== *)
theory Room_State
  imports Time_Lines State_Resolution Domains
begin

text \<open>
  The current state of a room in the room server (\<open>src/model/repos/roomserverStateRepo.go\<close>): the
  state events by type, the members by membership, the number of joined members and the time line
  of each domain, how an event updates them, how the state answers the authorisation rules, and how it
  is written to and rebuilt from the cache and the database. The cache, the database and the JSON
  codec are arguments; log output, metrics and timing are left out, and calls are atomic.
\<close>

section \<open>Model\<close>

text \<open>
  What \<open>json.Unmarshal\<close> leaves in the create and member contents; its errors are ignored by the code, so
  these are total. \<open>re_domains\<close> is the list that \<open>CheckValidDomain\<close> goes through.
\<close>

record 'c room_env =
  re_create :: "'c \<Rightarrow> bool option \<times> bool option"
  re_membership :: "'c \<Rightarrow> string"
  re_domains :: "string list"

record 'c eventFeed =
  ef_ev :: "'c Event"
  ef_offset :: int

record 'c DomainTLItem =
  it_tl :: "'c eventFeed TimeLines"
  MemberCnt :: int

record RoomStateExt =
  PreStateId :: string
  LastStateId :: string
  PreMsgId :: string
  LastMsgId :: string
  ext_Depth :: int
  HasUpdate :: bool
  OutEventOffset :: int
  Domains :: "int smap"

record 'c RoomServerState =
  roomId :: string
  RoomNid :: int
  SnapId :: int
  IsEncrypted :: bool
  IsFed :: bool
  isDirect :: bool
  rs_Creator :: "'c Event option"
  rs_JoinRule :: "'c Event option"
  rs_HistoryVisibility :: "'c Event option"
  rs_Visibility :: "'c Event option"
  rs_Name :: "'c Event option"
  rs_Topic :: "'c Event option"
  rs_Desc :: "'c Event option"
  rs_CanonicalAlias :: "'c Event option"
  rs_Alias :: "'c Event option"
  rs_Power :: "'c Event option"
  rs_GuestAccess :: "'c Event option"
  rs_Avatar :: "'c Event option"
  rs_Pin :: "'c Event option"
  rs_join :: "'c Event smap"
  rs_leave :: "'c Event smap"
  rs_invite :: "'c Event smap"
  thirdInvite :: "'c Event smap"
  domainTl :: "'c DomainTLItem smap"
  Version :: int
  rs_ext :: RoomStateExt

definition empty_ext :: RoomStateExt where
  "empty_ext = \<lparr>PreStateId = [], LastStateId = [], PreMsgId = [], LastMsgId = [], ext_Depth = 0,
     HasUpdate = False, OutEventOffset = 0, Domains = []\<rparr>"

definition init :: "string \<Rightarrow> 'c RoomServerState" where
  "init room = \<lparr>roomId = room, RoomNid = - 1, SnapId = 0, IsEncrypted = False, IsFed = False, isDirect = False,
     rs_Creator = None, rs_JoinRule = None, rs_HistoryVisibility = None, rs_Visibility = None, rs_Name = None,
     rs_Topic = None, rs_Desc = None, rs_CanonicalAlias = None, rs_Alias = None, rs_Power = None,
     rs_GuestAccess = None, rs_Avatar = None, rs_Pin = None, rs_join = [], rs_leave = [], rs_invite = [],
     thirdInvite = [], domainTl = [], Version = 0, rs_ext = empty_ext\<rparr>"

subsection \<open>Reading the state\<close>

definition opt_list :: "'a option \<Rightarrow> 'a list" where
  "opt_list x = (case x of None \<Rightarrow> [] | Some v \<Rightarrow> [v])"

definition GetAllState :: "'c RoomServerState \<Rightarrow> 'c Event list result" where
  "GetAllState rs =
     (case rs_Creator rs of
        None \<Rightarrow> Inl (Panic ''nil pointer dereference'')
      | Some c \<Rightarrow> Inr (sort_by (\<lambda>a b. EventNID a < EventNID b)
          ([c] @ opt_list (rs_JoinRule rs) @ opt_list (rs_HistoryVisibility rs) @ opt_list (rs_Visibility rs) @
           opt_list (rs_Name rs) @ opt_list (rs_Topic rs) @ opt_list (rs_CanonicalAlias rs) @
           opt_list (rs_Alias rs) @ opt_list (rs_Power rs) @ opt_list (rs_Avatar rs) @ opt_list (rs_Pin rs) @
           opt_list (rs_GuestAccess rs) @ map snd (rs_join rs) @ map snd (rs_leave rs) @ map snd (rs_invite rs) @
           map snd (thirdInvite rs))))"

definition GetRefs :: "'c Event \<Rightarrow> 'c RoomServerState \<Rightarrow> string" where
  "GetRefs ev rs =
     (if EvType ev \<in> {''m.room.create'', ''m.room.member'', ''m.room.power_levels'', ''m.room.third_party_invite'',
          ''m.room.join_rules'', ''m.room.history_visibility'', ''m.room.visibility'', ''m.room.name'',
          ''m.room.topic'', ''m.room.desc'', ''m.room.aliases'', ''m.room.avatar'', ''m.room.pinned_events'',
          ''m.room.canonical_alias''}
      then PreStateId (rs_ext rs) else PreMsgId (rs_ext rs))"

definition Member :: "string \<Rightarrow> 'c RoomServerState \<Rightarrow> 'c Event option" where
  "Member k rs =
     (case map_of (rs_join rs) k of
        Some e \<Rightarrow> Some e
      | None \<Rightarrow>
          (case map_of (rs_leave rs) k of Some e \<Rightarrow> Some e | None \<Rightarrow> map_of (rs_invite rs) k))"

text \<open>The event's predecessor, and whether it is a state event. A member event without a state key panics.\<close>

definition GetPreEvent :: "'c Event \<Rightarrow> 'c RoomServerState \<Rightarrow> ('c Event option \<times> bool) result" where
  "GetPreEvent ev rs =
     (let ty = EvType ev in
      if ty = ''m.room.create'' then Inr (rs_Creator rs, True)
      else if ty = ''m.room.member'' then
        (case StateKey ev of None \<Rightarrow> Inl (Panic ''nil pointer dereference'') | Some k \<Rightarrow> Inr (Member k rs, True))
      else if ty = ''m.room.power_levels'' then Inr (rs_Power rs, True)
      else if ty = ''m.room.third_party_invite'' then
        (case StateKey ev of None \<Rightarrow> Inl (Panic ''nil pointer dereference'')
         | Some k \<Rightarrow> Inr (map_of (thirdInvite rs) k, True))
      else if ty = ''m.room.join_rules'' then Inr (rs_JoinRule rs, True)
      else if ty = ''m.room.history_visibility'' then Inr (rs_HistoryVisibility rs, True)
      else if ty = ''m.room.visibility'' then Inr (rs_Visibility rs, True)
      else if ty = ''m.room.name'' then Inr (rs_Name rs, True)
      else if ty = ''m.room.topic'' then Inr (rs_Topic rs, True)
      else if ty = ''m.room.desc'' then Inr (rs_Desc rs, True)
      else if ty = ''m.room.canonical_alias'' then Inr (rs_CanonicalAlias rs, True)
      else if ty = ''m.room.aliases'' then Inr (rs_Alias rs, True)
      else if ty = ''m.room.avatar'' then Inr (rs_Avatar rs, True)
      else if ty = ''m.room.guest_access'' then Inr (rs_GuestAccess rs, True)
      else if ty = ''m.room.pinned_events'' then Inr (rs_Pin rs, True)
      else if ty = ''m.room.encryption'' then Inr (None, True)
      else Inr (None, False))"

definition GetLastDomainOffset :: "'c Event \<Rightarrow> string \<Rightarrow> 'c RoomServerState \<Rightarrow> int" where
  "GetLastDomainOffset ev domain rs =
     (case map_of (Domains (rs_ext rs)) domain of
        Some v \<Rightarrow> if v > DomainOffset ev then v else DomainOffset ev
      | None \<Rightarrow> DomainOffset ev)"

definition GetLastState :: "'c RoomServerState \<Rightarrow> int list" where
  "GetLastState rs = map (\<lambda>(_, item). snd (GetFeedRange (it_tl item))) (domainTl rs)"

text \<open>The token of a room: the domains in order with the last offset of their time lines.\<close>

definition calcToken :: "'c RoomServerState \<Rightarrow> string" where
  "calcToken rs =
     (let part = (\<lambda>(d, item). d @ '':'' @ show_int (snd (GetFeedRange (it_tl item))));
          domains = sort_by (\<lambda>a b. fst a < fst b) (domainTl rs)
      in case domains of
           [] \<Rightarrow> []
         | x # xs \<Rightarrow> fold (\<lambda>p token. token @ ''_'' @ part p) xs (part x))"

definition room_provider :: "'c RoomServerState \<Rightarrow> 'c AuthEventProvider" where
  "room_provider rs =
     \<lparr>get_Create = Inr (rs_Creator rs), get_JoinRules = Inr (rs_JoinRule rs), get_PowerLevels = Inr (rs_Power rs),
      get_Member = (\<lambda>k. Inr (Member k rs)), get_ThirdPartyInvite = (\<lambda>k. Inr (map_of (thirdInvite rs) k))\<rparr>"

subsection \<open>Updating the state\<close>

definition UpdateDomainExt :: "int smap \<Rightarrow> 'c RoomServerState \<Rightarrow> 'c RoomServerState" where
  "UpdateDomainExt ds rs = rs\<lparr>rs_ext := (rs_ext rs)\<lparr>Domains := ds\<rparr>\<rparr>"

definition UpdateDepth :: "int \<Rightarrow> 'c RoomServerState \<Rightarrow> 'c RoomServerState" where
  "UpdateDepth depth rs = rs\<lparr>rs_ext := (rs_ext rs)\<lparr>ext_Depth := depth\<rparr>\<rparr>"

definition UpdateOutEventOffset :: "int \<Rightarrow> 'c RoomServerState \<Rightarrow> 'c RoomServerState" where
  "UpdateOutEventOffset offset rs = rs\<lparr>rs_ext := (rs_ext rs)\<lparr>OutEventOffset := offset\<rparr>\<rparr>"

definition UpdateMsgExt ::
  "string \<Rightarrow> string \<Rightarrow> string \<Rightarrow> string \<Rightarrow> 'c RoomServerState \<Rightarrow> 'c RoomServerState" where
  "UpdateMsgExt preStateId lastStateId preMsgId lastMsgId rs =
     rs\<lparr>rs_ext := (rs_ext rs)\<lparr>PreStateId := preStateId, LastStateId := lastStateId, PreMsgId := preMsgId,
       LastMsgId := lastMsgId\<rparr>\<rparr>"

definition getDomainTL ::
  "string \<Rightarrow> bool \<Rightarrow> 'c RoomServerState \<Rightarrow> ('c DomainTLItem option \<times> 'c RoomServerState) result" where
  "getDomainTL domain create rs =
     (case map_of (domainTl rs) domain of
        Some item \<Rightarrow> Inr (Some item, rs)
      | None \<Rightarrow>
          if create then
            bindR (NewEvTimeLines 16 False) (\<lambda>t.
              let item = \<lparr>it_tl = t, MemberCnt = 0\<rparr>
              in Inr (Some item, rs\<lparr>domainTl := store domain item (domainTl rs)\<rparr>))
          else Inr (None, rs))"

definition onCreateEv :: "'c room_env \<Rightarrow> 'c Event \<Rightarrow> 'c RoomServerState \<Rightarrow> 'c RoomServerState" where
  "onCreateEv env ev rs =
     (case re_create env (Content ev) of (federate, direct) \<Rightarrow>
        rs\<lparr>rs_Creator := Some ev,
           IsFed := (case federate of Some b \<Rightarrow> b | None \<Rightarrow> False),
           isDirect := (case direct of Some b \<Rightarrow> b | None \<Rightarrow> False)\<rparr>)"

definition pre_membership :: "string \<Rightarrow> 'c RoomServerState \<Rightarrow> string" where
  "pre_membership k rs =
     (if map_of (rs_join rs) k \<noteq> None then ''join''
      else if map_of (rs_leave rs) k \<noteq> None then ''leave''
      else if map_of (rs_invite rs) k \<noteq> None then ''invite''
      else [])"

text \<open>The two halves of a membership change: entering the new map, then leaving the previous one.\<close>

definition member_enter :: "string \<Rightarrow> string \<Rightarrow> 'c Event \<Rightarrow> 'c RoomServerState \<Rightarrow> 'c RoomServerState" where
  "member_enter m k ev rs =
     (if m = ''join'' then rs\<lparr>rs_join := store k ev (rs_join rs), thirdInvite := remove k (thirdInvite rs)\<rparr>
      else if m = ''invite'' then rs\<lparr>rs_invite := store k ev (rs_invite rs)\<rparr>
      else if m = ''leave'' \<or> m = ''ban''
      then rs\<lparr>rs_leave := store k ev (rs_leave rs), thirdInvite := remove k (thirdInvite rs)\<rparr>
      else rs)"

definition member_exit :: "string \<Rightarrow> string \<Rightarrow> 'c RoomServerState \<Rightarrow> 'c RoomServerState" where
  "member_exit pre k rs =
     (if pre = ''join'' then rs\<lparr>rs_join := remove k (rs_join rs)\<rparr>
      else if pre = ''invite'' then rs\<lparr>rs_invite := remove k (rs_invite rs)\<rparr>
      else if pre = ''leave'' then rs\<lparr>rs_leave := remove k (rs_leave rs)\<rparr>
      else rs)"

definition member_step :: "string \<Rightarrow> string \<Rightarrow> 'c Event \<Rightarrow> 'c RoomServerState \<Rightarrow> 'c RoomServerState" where
  "member_step m k ev rs =
     (let pre = pre_membership k rs;
          rs1 = member_enter m k ev rs
      in if m \<noteq> pre then member_exit pre k rs1 else rs1)"

definition count_change :: "string \<Rightarrow> string \<Rightarrow> int" where
  "count_change m pre =
     (if m = pre then 0 else (if pre = ''join'' then - 1 else 0) + (if m = ''join'' then 1 else 0))"

definition onMemberEv :: "'c room_env \<Rightarrow> 'c Event \<Rightarrow> 'c RoomServerState \<Rightarrow> 'c RoomServerState result" where
  "onMemberEv env ev rs =
     (case StateKey ev of
        None \<Rightarrow> Inl (Panic ''nil pointer dereference'')
      | Some k \<Rightarrow>
          (case DomainFromID k of
             Inl _ \<Rightarrow> Inr rs
           | Inr domain \<Rightarrow>
               bindR (getDomainTL domain True rs) (\<lambda>(tgtItem, rs1).
                 case tgtItem of
                   None \<Rightarrow> Inl (Panic ''nil pointer dereference'')
                 | Some item \<Rightarrow>
                     (let m = re_membership env (Content ev);
                          rs2 = member_step m k ev rs1;
                          item1 = item\<lparr>MemberCnt := MemberCnt item + count_change m (pre_membership k rs1)\<rparr>
                      in Inr (rs2\<lparr>domainTl := store domain item1 (domainTl rs2)\<rparr>)))))"

definition onEventUpdate :: "'c room_env \<Rightarrow> 'c Event \<Rightarrow> 'c RoomServerState \<Rightarrow> 'c RoomServerState result" where
  "onEventUpdate env ev rs =
     (let ty = EvType ev in
      if ty = ''m.room.create'' then Inr (onCreateEv env ev rs)
      else if ty = ''m.room.member'' then onMemberEv env ev rs
      else if ty = ''m.room.power_levels'' then Inr (rs\<lparr>rs_Power := Some ev\<rparr>)
      else if ty = ''m.room.third_party_invite'' then
        (case StateKey ev of None \<Rightarrow> Inl (Panic ''nil pointer dereference'')
         | Some k \<Rightarrow> Inr (rs\<lparr>thirdInvite := store k ev (thirdInvite rs)\<rparr>))
      else if ty = ''m.room.join_rules'' then Inr (rs\<lparr>rs_JoinRule := Some ev\<rparr>)
      else if ty = ''m.room.history_visibility'' then Inr (rs\<lparr>rs_HistoryVisibility := Some ev\<rparr>)
      else if ty = ''m.room.visibility'' then Inr (rs\<lparr>rs_Visibility := Some ev\<rparr>)
      else if ty = ''m.room.name'' then Inr (rs\<lparr>rs_Name := Some ev\<rparr>)
      else if ty = ''m.room.topic'' then Inr (rs\<lparr>rs_Topic := Some ev\<rparr>)
      else if ty = ''m.room.desc'' then Inr (rs\<lparr>rs_Desc := Some ev\<rparr>)
      else if ty = ''m.room.canonical_alias'' then Inr (rs\<lparr>rs_CanonicalAlias := Some ev\<rparr>)
      else if ty = ''m.room.aliases'' then Inr (rs\<lparr>rs_Alias := Some ev\<rparr>)
      else if ty = ''m.room.avatar'' then Inr (rs\<lparr>rs_Avatar := Some ev\<rparr>)
      else if ty = ''m.room.pinned_events'' then Inr (rs\<lparr>rs_Pin := Some ev\<rparr>)
      else if ty = ''m.room.encryption'' then Inr (rs\<lparr>IsEncrypted := True\<rparr>)
      else if ty = ''m.room.guest_access'' then Inr (rs\<lparr>rs_GuestAccess := Some ev\<rparr>)
      else Inr rs)"

definition onEventCheckUpdate ::
  "'c room_env \<Rightarrow> 'c Event \<Rightarrow> 'c Event option \<Rightarrow> string \<Rightarrow> bool \<Rightarrow> bool \<Rightarrow> RoomStateExt \<Rightarrow> bool \<times> RoomStateExt" where
  "onEventCheckUpdate env ev pre domain isState recover ext =
     (if in_domains domain (re_domains env) then
        (let ext1 = ext\<lparr>HasUpdate := isState\<rparr>
         in (isState,
             if recover then
               if isState then ext1\<lparr>PreStateId := LastStateId ext1, LastStateId := EventID ev, LastMsgId := EventID ev\<rparr>
               else ext1\<lparr>PreMsgId := LastMsgId ext1, LastMsgId := EventID ev\<rparr>
             else ext1))
      else
        (isState \<and> (case pre of None \<Rightarrow> True
                     | Some p \<Rightarrow> OriginServerTS p \<le> OriginServerTS ev \<and> EventID p \<noteq> EventID ev), ext))"

text \<open>The feed appended to the time line of the sender's domain. An append that does not return is the error \<open>does not return\<close>.\<close>

definition add_feed ::
  "string \<Rightarrow> 'c Event \<Rightarrow> int \<Rightarrow> 'c RoomServerState \<Rightarrow> 'c RoomServerState result" where
  "add_feed domain ev offset rs =
     bindR (getDomainTL domain True rs) (\<lambda>(item, rs1).
       case item of
         None \<Rightarrow> Inl (Panic ''nil pointer dereference'')
       | Some it \<Rightarrow>
           (case Add ef_offset (Some \<lparr>ef_ev = ev, ef_offset = offset\<rparr>) (it_tl it) of
              None \<Rightarrow> Inl (Panic ''does not return'')
            | Some (Inl e) \<Rightarrow> Inl e
            | Some (Inr (_, t)) \<Rightarrow> Inr (rs1\<lparr>domainTl := store domain (it\<lparr>it_tl := t\<rparr>) (domainTl rs1)\<rparr>)))"

definition onEvent ::
  "'c room_env \<Rightarrow> bool \<Rightarrow> 'c Event \<Rightarrow> int \<Rightarrow> 'c RoomServerState \<Rightarrow> 'c RoomServerState result" where
  "onEvent env recover ev offset rs =
     bindR (GetPreEvent ev rs) (\<lambda>(pre, isState).
       case DomainFromID (Sender ev) of
         Inl _ \<Rightarrow> Inr rs
       | Inr domain \<Rightarrow>
           (case onEventCheckUpdate env ev pre domain isState recover (rs_ext rs) of
              (upd, ext1) \<Rightarrow>
                (let rs1 = rs\<lparr>rs_ext := ext1\<lparr>HasUpdate := upd\<rparr>\<rparr> in
                 if \<not> upd then Inr rs1
                 else bindR (onEventUpdate env ev rs1) (add_feed domain ev offset))))"

subsection \<open>Cache and database\<close>

text \<open>What \<open>json.Marshal\<close> sees of a room state: the exported fields.\<close>

record 'c cached_room =
  cr_RoomNid :: int
  cr_SnapId :: int
  cr_IsEncrypted :: bool
  cr_IsFed :: bool
  cr_slots :: "'c Event option list"
  JoinExport :: "'c Event smap"
  LeaveExport :: "'c Event smap"
  InviteExport :: "'c Event smap"
  ThirdInviteExport :: "'c Event smap"
  DomainsExport :: "int smap"
  cr_Version :: int

text \<open>The thirteen single events in the order of the struct.\<close>

definition slots :: "'c RoomServerState \<Rightarrow> 'c Event option list" where
  "slots rs = [rs_Creator rs, rs_JoinRule rs, rs_HistoryVisibility rs, rs_Visibility rs, rs_Name rs, rs_Topic rs,
     rs_Desc rs, rs_CanonicalAlias rs, rs_Alias rs, rs_Power rs, rs_GuestAccess rs, rs_Avatar rs, rs_Pin rs]"

definition serialize :: "'c RoomServerState \<Rightarrow> 'c cached_room \<times> 'c RoomServerState" where
  "serialize rs =
     (let rs1 = rs\<lparr>Version := Version rs + 1\<rparr>
      in (\<lparr>cr_RoomNid = RoomNid rs1, cr_SnapId = SnapId rs1, cr_IsEncrypted = IsEncrypted rs1, cr_IsFed = IsFed rs1,
           cr_slots = slots rs1, JoinExport = rs_join rs1, LeaveExport = rs_leave rs1, InviteExport = rs_invite rs1,
           ThirdInviteExport = thirdInvite rs1,
           DomainsExport = map (\<lambda>(d, it). (d, MemberCnt it)) (domainTl rs1), cr_Version = Version rs1\<rparr>, rs1))"

text \<open>
  The state rebuilt from the exported fields: the single events but the description, and all members and
  invitations, are collected, the collected single events are reset, and the events are applied
  again in the order of their numbers.
\<close>

definition cached_events :: "'c cached_room \<Rightarrow> 'c Event list" where
  "cached_events c =
     concat (map opt_list (map (\<lambda>i. cr_slots c ! i) [0, 1, 2, 3, 4, 9, 5, 7, 8, 11, 12, 10])) @
     map snd (JoinExport c) @ map snd (LeaveExport c) @ map snd (InviteExport c) @ map snd (ThirdInviteExport c)"

definition unmarshal_reset :: "string \<Rightarrow> 'c cached_room \<Rightarrow> 'c RoomServerState" where
  "unmarshal_reset room c =
     (init room)\<lparr>RoomNid := cr_RoomNid c, SnapId := cr_SnapId c, IsEncrypted := cr_IsEncrypted c,
       IsFed := cr_IsFed c, rs_Desc := cr_slots c ! 6, Version := cr_Version c\<rparr>"

definition replay :: "'c room_env \<Rightarrow> ('c Event \<times> int) list \<Rightarrow> 'c RoomServerState \<Rightarrow> 'c RoomServerState result" where
  "replay env evs rs = foldR (\<lambda>(ev, offset). onEvent env True ev offset) evs rs"

definition parseCacheRoomState :: "'c room_env \<Rightarrow> string \<Rightarrow> 'c cached_room \<Rightarrow> 'c RoomServerState result" where
  "parseCacheRoomState env room c =
     replay env (map (\<lambda>e. (e, EventNID e)) (sort_by (\<lambda>a b. EventNID a < EventNID b) (cached_events c)))
       (unmarshal_reset room c)"

text \<open>The answers of the cache and of the database, and what is written to the cache.\<close>

record ('c, 'b) room_io =
  cacheGetRoomState :: "string \<Rightarrow> 'b option result"
  cacheGetRoomStateExt :: "string \<Rightarrow> RoomStateExt option result"
  dbGetRoomStates :: "string \<Rightarrow> ('c Event \<times> int) list result"
  dbRoomInfo :: "string \<Rightarrow> (int \<times> int \<times> int) result"
  dbGetRoomDomainsOffset :: "int \<Rightarrow> int smap result"
  json_marshal :: "'c cached_room \<Rightarrow> 'b result"
  json_unmarshal :: "'b \<Rightarrow> 'c cached_room result"

datatype 'b cache_write = SetRoomState string 'b string | SetRoomStateExt string RoomStateExt

definition flush :: "('c, 'b) room_io \<Rightarrow> 'c RoomServerState \<Rightarrow> 'b cache_write list \<times> 'c RoomServerState" where
  "flush io rs =
     (case serialize rs of (c, rs1) \<Rightarrow>
        (case json_marshal io c of
           Inl _ \<Rightarrow> ([], rs1)
         | Inr bytes \<Rightarrow> ([SetRoomState (roomId rs1) bytes (calcToken rs1)], rs1)))"

definition getRoomStateFromCache ::
  "'c room_env \<Rightarrow> ('c, 'b) room_io \<Rightarrow> string \<Rightarrow> 'c RoomServerState option result" where
  "getRoomStateFromCache env io room =
     bindR (cacheGetRoomState io room) (\<lambda>bytes.
       case bytes of
         None \<Rightarrow> Inr None
       | Some b \<Rightarrow>
           bindR (json_unmarshal io b) (\<lambda>c. bindR (parseCacheRoomState env room c) (\<lambda>rs. Inr (Some rs))))"

definition getRoomStateFromDb ::
  "'c room_env \<Rightarrow> ('c, 'b) room_io \<Rightarrow> string \<Rightarrow> 'c RoomServerState result" where
  "getRoomStateFromDb env io room =
     bindR (dbGetRoomStates io room) (\<lambda>events.
     bindR (replay env events (init room)) (\<lambda>rs.
     bindR (dbRoomInfo io room) (\<lambda>(roomNid, snapId, _).
       Inr (rs\<lparr>SnapId := snapId, RoomNid := roomNid\<rparr>))))"

text \<open>On the error for no rows the code goes on with the zero values of the results.\<close>

definition getRoomStateExtFromDb :: "('c, 'b) room_io \<Rightarrow> string \<Rightarrow> RoomStateExt result" where
  "getRoomStateExtFromDb io room =
     bindR (case dbRoomInfo io room of
              Inl e \<Rightarrow> if e = ErrNoRows then Inr (0, 0, 0) else Inl e
            | Inr info \<Rightarrow> Inr info) (\<lambda>(roomNid, _, depth).
       let ext = empty_ext\<lparr>ext_Depth := depth\<rparr> in
       case dbGetRoomDomainsOffset io roomNid of
         Inl e \<Rightarrow> if e = ErrNoRows then Inr ext else Inl e
       | Inr ds \<Rightarrow> Inr (ext\<lparr>Domains := fold (\<lambda>(d, off) m. store d off m) ds []\<rparr>))"

text \<open>A panic is passed on; every other error of the cache is answered by the database.\<close>

definition load_state ::
  "'c room_env \<Rightarrow> ('c, 'b) room_io \<Rightarrow> string \<Rightarrow>
    ('c RoomServerState option \<times> 'b cache_write list) result" where
  "load_state env io room =
     (case getRoomStateFromCache env io room of
        Inl (Panic m) \<Rightarrow> Inl (Panic m)
      | Inr (Some rs) \<Rightarrow> Inr (Some rs, [])
      | _ \<Rightarrow>
          (case getRoomStateFromDb env io room of
             Inl (Panic m) \<Rightarrow> Inl (Panic m)
           | Inl _ \<Rightarrow> Inr (None, [])
           | Inr rs \<Rightarrow> (case flush io rs of (ws, rs1) \<Rightarrow> Inr (Some rs1, ws))))"

definition GetRoomState ::
  "'c room_env \<Rightarrow> ('c, 'b) room_io \<Rightarrow> string \<Rightarrow>
    ('c RoomServerState option \<times> 'b cache_write list) result" where
  "GetRoomState env io room =
     bindR (load_state env io room) (\<lambda>(st, ws).
       case st of
         None \<Rightarrow> Inr (None, ws)
       | Some rs \<Rightarrow>
           (case cacheGetRoomStateExt io room of
              Inr (Some ext) \<Rightarrow> Inr (Some (rs\<lparr>rs_ext := ext\<rparr>), ws)
            | _ \<Rightarrow>
                (case getRoomStateExtFromDb io room of
                   Inl _ \<Rightarrow> Inr (None, ws)
                 | Inr ext \<Rightarrow>
                     (let ext1 = ext\<lparr>PreMsgId := PreMsgId (rs_ext rs), LastMsgId := LastMsgId (rs_ext rs),
                            PreStateId := PreStateId (rs_ext rs), LastStateId := LastStateId (rs_ext rs),
                            HasUpdate := False\<rparr>
                      in Inr (Some (rs\<lparr>rs_ext := ext1\<rparr>), ws @ [SetRoomStateExt room ext1])))))"

text \<open>
  \<open>OnEvent\<close> does not test for a nil state: only for an event whose type reads no field and whose sender has
  no domain is the nil state returned.
\<close>

definition reads_state :: "'c Event \<Rightarrow> bool" where
  "reads_state ev \<longleftrightarrow> EvType ev \<in> {''m.room.create'', ''m.room.member'', ''m.room.power_levels'',
     ''m.room.third_party_invite'', ''m.room.join_rules'', ''m.room.history_visibility'', ''m.room.visibility'',
     ''m.room.name'', ''m.room.topic'', ''m.room.desc'', ''m.room.canonical_alias'', ''m.room.aliases'',
     ''m.room.avatar'', ''m.room.guest_access'', ''m.room.pinned_events''}"

definition OnEvent ::
  "'c room_env \<Rightarrow> ('c, 'b) room_io \<Rightarrow> 'c Event \<Rightarrow> int \<Rightarrow> 'c RoomServerState option \<Rightarrow>
    ('c RoomServerState option \<times> 'b cache_write list) result" where
  "OnEvent env io ev offset rs0 =
     bindR (case rs0 of
              Some rs \<Rightarrow> Inr (Some rs, [])
            | None \<Rightarrow> if EvType ev \<noteq> ''m.room.create'' then GetRoomState env io (RoomID ev)
                      else Inr (Some (init (RoomID ev)), [])) (\<lambda>(st, ws).
       case st of
         None \<Rightarrow>
           (case DomainFromID (Sender ev) of
              Inl _ \<Rightarrow> if reads_state ev then Inl (Panic ''nil pointer dereference'') else Inr (None, ws)
            | Inr _ \<Rightarrow> Inl (Panic ''nil pointer dereference''))
       | Some rs \<Rightarrow> bindR (onEvent env False ev offset rs) (\<lambda>rs1. Inr (Some rs1, ws)))"

definition OnEventRecover ::
  "'c room_env \<Rightarrow> ('c, 'b) room_io \<Rightarrow> 'c Event \<Rightarrow> int \<Rightarrow>
    ('c RoomServerState option \<times> 'b cache_write list) result" where
  "OnEventRecover env io ev offset =
     bindR (GetRoomState env io (RoomID ev)) (\<lambda>(st, ws).
       case st of
         None \<Rightarrow> Inr (None, ws)
       | Some rs \<Rightarrow> bindR (onEvent env True ev offset rs) (\<lambda>rs1. Inr (Some rs1, ws)))"

definition GetRoomStateExt ::
  "('c, 'b) room_io \<Rightarrow> string \<Rightarrow> (RoomStateExt \<times> 'b cache_write list) result" where
  "GetRoomStateExt io room =
     (case cacheGetRoomStateExt io room of
        Inr (Some ext) \<Rightarrow> Inr (ext, [])
      | _ \<Rightarrow> bindR (getRoomStateExtFromDb io room) (\<lambda>ext. Inr (ext, [SetRoomStateExt room ext])))"

section \<open>Specification\<close>

text \<open>An entry of one of the member maps.\<close>

definition member_entry :: "'c room_env \<Rightarrow> string set \<Rightarrow> string \<Rightarrow> 'c Event \<Rightarrow> bool" where
  "member_entry env ms k e \<longleftrightarrow> EvType e = MRoomMember \<and> StateKey e = Some k \<and>
     re_membership env (Content e) \<in> ms \<and> (\<exists>d. DomainFromID k = Inr d)"

definition entries :: "(string \<Rightarrow> 'c Event \<Rightarrow> bool) \<Rightarrow> 'c Event smap \<Rightarrow> bool" where
  "entries P m \<longleftrightarrow> (\<forall>k e. map_of m k = Some e \<longrightarrow> P k e)"

definition apart :: "'v smap \<Rightarrow> 'w smap \<Rightarrow> bool" where
  "apart m n \<longleftrightarrow> (\<forall>k. map_of m k = None \<or> map_of n k = None)"

definition members_ok :: "'c room_env \<Rightarrow> 'c RoomServerState \<Rightarrow> bool" where
  "members_ok env rs \<longleftrightarrow>
     entries (member_entry env {''join''}) (rs_join rs) \<and>
     entries (member_entry env {''leave'', ''ban''}) (rs_leave rs) \<and>
     entries (member_entry env {''invite''}) (rs_invite rs) \<and>
     entries (\<lambda>k e. EvType e = MRoomThirdPartyInvite \<and> StateKey e = Some k) (thirdInvite rs) \<and>
     apart (rs_join rs) (rs_leave rs) \<and> apart (rs_join rs) (rs_invite rs) \<and> apart (rs_leave rs) (rs_invite rs)"

text \<open>The joined users of a domain, and the number the room keeps for it.\<close>

definition joined :: "string \<Rightarrow> 'c Event smap \<Rightarrow> string set" where
  "joined d m = {k \<in> fst ` set m. DomainFromID k = Inr d}"

definition member_count :: "'c RoomServerState \<Rightarrow> string \<Rightarrow> int" where
  "member_count rs d = (case map_of (domainTl rs) d of None \<Rightarrow> 0 | Some it \<Rightarrow> MemberCnt it)"

definition counts_ok :: "'c RoomServerState \<Rightarrow> bool" where
  "counts_ok rs \<longleftrightarrow> (\<forall>d. member_count rs d = int (card (joined d (rs_join rs)))) \<and>
     (\<forall>d it. map_of (domainTl rs) d = Some it \<longrightarrow> tl_inv ef_offset (it_tl it))"

definition slot_types :: "string list" where
  "slot_types = [''m.room.create'', ''m.room.join_rules'', ''m.room.history_visibility'', ''m.room.visibility'',
     ''m.room.name'', ''m.room.topic'', ''m.room.desc'', ''m.room.canonical_alias'', ''m.room.aliases'',
     ''m.room.power_levels'', ''m.room.guest_access'', ''m.room.avatar'', ''m.room.pinned_events'']"

definition slots_ok :: "'c RoomServerState \<Rightarrow> bool" where
  "slots_ok rs \<longleftrightarrow> list_all2 (\<lambda>ty s. \<forall>e. s = Some e \<longrightarrow> EvType e = ty) slot_types (slots rs)"

definition maps_ok :: "'c RoomServerState \<Rightarrow> bool" where
  "maps_ok rs \<longleftrightarrow> smap_ok (rs_join rs) \<and> smap_ok (rs_leave rs) \<and> smap_ok (rs_invite rs) \<and>
     smap_ok (thirdInvite rs) \<and> smap_ok (domainTl rs)"

definition room_inv :: "'c room_env \<Rightarrow> 'c RoomServerState \<Rightarrow> bool" where
  "room_inv env rs \<longleftrightarrow> maps_ok rs \<and> slots_ok rs \<and> members_ok env rs \<and> counts_ok rs"

text \<open>The types whose handling reads the state key.\<close>

definition keyed :: "'c Event \<Rightarrow> bool" where
  "keyed ev \<longleftrightarrow> (EvType ev \<in> {MRoomMember, MRoomThirdPartyInvite} \<longrightarrow> StateKey ev \<noteq> None)"

definition move :: "bool \<Rightarrow> bool \<Rightarrow> string \<Rightarrow> 'v \<Rightarrow> 'v smap \<Rightarrow> 'v smap" where
  "move into out k v m = (if out then remove k (if into then store k v m else m) else if into then store k v m else m)"

definition same_members :: "'c RoomServerState \<Rightarrow> 'c RoomServerState \<Rightarrow> bool" where
  "same_members rs rs1 \<longleftrightarrow> rs_join rs1 = rs_join rs \<and> rs_leave rs1 = rs_leave rs \<and> rs_invite rs1 = rs_invite rs \<and>
     thirdInvite rs1 = thirdInvite rs"

definition set_slots :: "'c Event \<Rightarrow> 'c Event option list \<Rightarrow> 'c Event option list" where
  "set_slots ev ss = map2 (\<lambda>ty s. if EvType ev = ty then Some ev else s) slot_types ss"

text \<open>The part that only an encryption event or the database changes.\<close>

definition room_meta :: "'c RoomServerState \<Rightarrow> string \<times> int \<times> int \<times> bool" where
  "room_meta rs = (roomId rs, RoomNid rs, SnapId rs, IsEncrypted rs)"

text \<open>The state of a room as a map from type and key to an event.\<close>

definition slot_of :: "'c RoomServerState \<Rightarrow> string \<Rightarrow> 'c Event option" where
  "slot_of rs ty = (case map_of (zip slot_types (slots rs)) ty of Some s \<Rightarrow> s | None \<Rightarrow> None)"

definition room_lookup :: "'c RoomServerState \<Rightarrow> 'c AuthEvents" where
  "room_lookup rs t =
     (if fst t = MRoomMember then Member (snd t) rs
      else if fst t = MRoomThirdPartyInvite then map_of (thirdInvite rs) (snd t)
      else if snd t = [] then slot_of rs (fst t) else None)"

text \<open>The key under which the room keeps an event: the state key counts for members and invitations only.\<close>

definition room_key :: "'c Event \<Rightarrow> StateKeyTuple" where
  "room_key ev = (EvType ev, if EvType ev \<in> {MRoomMember, MRoomThirdPartyInvite} then the (StateKey ev) else [])"

definition room_types :: "string set" where
  "room_types = set slot_types \<union> {MRoomMember, MRoomThirdPartyInvite}"

text \<open>Third party invitations are kept under tokens, which are no user identifiers.\<close>

definition third_plain :: "'c RoomServerState \<Rightarrow> bool" where
  "third_plain rs \<longleftrightarrow> (\<forall>k e. map_of (thirdInvite rs) k = Some e \<longrightarrow> (\<exists>x. DomainFromID k = Inl x))"

definition well_keyed :: "'c room_env \<Rightarrow> 'c Event \<Rightarrow> bool" where
  "well_keyed env ev \<longleftrightarrow>
     (if EvType ev = MRoomMember then
        (\<exists>k d. StateKey ev = Some k \<and> DomainFromID k = Inr d) \<and>
        re_membership env (Content ev) \<in> {''join'', ''invite'', ''leave'', ''ban''}
      else if EvType ev = MRoomThirdPartyInvite then (\<exists>k x. StateKey ev = Some k \<and> DomainFromID k = Inl x)
      else True)"

text \<open>A ban of a user who is not in the room already as left or banned.\<close>

definition fresh_ban :: "'c room_env \<Rightarrow> 'c AuthEvents \<Rightarrow> 'c Event \<Rightarrow> bool" where
  "fresh_ban env A ev \<longleftrightarrow>
     (EvType ev = MRoomMember \<and> re_membership env (Content ev) = ''ban'' \<longrightarrow>
        (case A (room_key ev) of None \<Rightarrow> True
         | Some p \<Rightarrow> re_membership env (Content p) \<notin> {''leave'', ''ban''}))"

text \<open>When the room takes an event over its predecessor: always from a local sender, else only a newer one.\<close>

definition accepted :: "'c room_env \<Rightarrow> 'c Event \<Rightarrow> 'c Event option \<Rightarrow> bool" where
  "accepted env ev pre \<longleftrightarrow>
     (case DomainFromID (Sender ev) of
        Inl _ \<Rightarrow> False
      | Inr d \<Rightarrow> in_domains d (re_domains env) \<or>
          (case pre of None \<Rightarrow> True | Some p \<Rightarrow> OriginServerTS p \<le> OriginServerTS ev \<and> EventID p \<noteq> EventID ev))"

definition put_event :: "'c Event \<Rightarrow> 'c AuthEvents \<Rightarrow> 'c AuthEvents" where
  "put_event ev A = (if EvType ev \<in> room_types then A(room_key ev \<mapsto> ev) else A)"

text \<open>The events of a run can all be taken: the bans are of users not yet left or banned.\<close>

fun run_ok :: "'c room_env \<Rightarrow> 'c AuthEvents \<Rightarrow> 'c Event list \<Rightarrow> bool" where
  "run_ok env A [] = True"
| "run_ok env A (ev # evs) =
     (well_keyed env ev \<and> fresh_ban env A ev \<and> (EvType ev \<in> room_types \<longrightarrow> accepted env ev (A (room_key ev))) \<and>
      run_ok env (put_event ev A) evs)"

definition auth_keyed :: "'c Event \<Rightarrow> bool" where
  "auth_keyed ev \<longleftrightarrow> (EvType ev \<in> {MRoomCreate, MRoomJoinRules, MRoomPowerLevels} \<longrightarrow> StateKey ev = Some [])"

definition agree :: "'c AuthEvents \<Rightarrow> 'c AuthEvents \<Rightarrow> bool" where
  "agree A B \<longleftrightarrow> (\<forall>t. class_of t \<noteq> Others \<longrightarrow> A t = B t)"

section \<open>Lemmas\<close>

section \<open>Domains and time lines\<close>

lemma new_timeline:
  "\<exists>t. NewEvTimeLines 16 False = Inr t \<and> tl_inv ef_offset t"
  by (simp add: NewEvTimeLines_def tl_inv_def tl_wf_def window_def)

lemma getDomainTL_create:
  assumes "counts_ok rs" "maps_ok rs"
  shows "\<exists>item rs1. getDomainTL d True rs = Inr (Some item, rs1) \<and> map_of (domainTl rs1) d = Some item \<and>
    rs1 = rs\<lparr>domainTl := domainTl rs1\<rparr> \<and> counts_ok rs1 \<and> maps_ok rs1"
proof (cases "map_of (domainTl rs) d")
  case None
  obtain t where t: "NewEvTimeLines 16 False = Inr t" "tl_inv ef_offset (t :: 'a eventFeed TimeLines)"
    using new_timeline by blast
  have "member_count (rs\<lparr>domainTl := store d \<lparr>it_tl = t, MemberCnt = 0\<rparr> (domainTl rs)\<rparr>) x = member_count rs x" for x
    using None by (simp add: member_count_def)
  with None t assms show ?thesis
    by (auto simp: getDomainTL_def Let_def counts_ok_def maps_ok_def)
next
  case (Some item)
  with assms show ?thesis by (simp add: getDomainTL_def)
qed

lemma set_item:
  assumes "counts_ok rs" "map_of (domainTl rs) d = Some it" "tl_inv ef_offset (it_tl it')"
  shows "member_count (rs\<lparr>domainTl := store d it' (domainTl rs)\<rparr>) x =
      (if x = d then MemberCnt it' else member_count rs x)"
    "\<forall>e j. map_of (domainTl (rs\<lparr>domainTl := store d it' (domainTl rs)\<rparr>)) e = Some j \<longrightarrow> tl_inv ef_offset (it_tl j)"
  using assms by (auto simp: member_count_def counts_ok_def)

section \<open>Member events\<close>

lemma member_enter_upd:
  "member_enter m k ev rs = rs\<lparr>rs_join := (if m = ''join'' then store k ev (rs_join rs) else rs_join rs),
     rs_leave := (if m = ''leave'' \<or> m = ''ban'' then store k ev (rs_leave rs) else rs_leave rs),
     rs_invite := (if m = ''invite'' then store k ev (rs_invite rs) else rs_invite rs),
     thirdInvite := (if m \<in> {''join'', ''leave'', ''ban''} then remove k (thirdInvite rs) else thirdInvite rs)\<rparr>"
  by (simp add: member_enter_def)

lemma member_exit_upd:
  "member_exit pre k rs = rs\<lparr>rs_join := (if pre = ''join'' then remove k (rs_join rs) else rs_join rs),
     rs_leave := (if pre = ''leave'' then remove k (rs_leave rs) else rs_leave rs),
     rs_invite := (if pre = ''invite'' then remove k (rs_invite rs) else rs_invite rs)\<rparr>"
  by (simp add: member_exit_def)

lemma member_step_upd:
  "member_step m k ev rs = (let pre = pre_membership k rs in
     rs\<lparr>rs_join := move (m = ''join'') (m \<noteq> pre \<and> pre = ''join'') k ev (rs_join rs),
        rs_leave := move (m = ''leave'' \<or> m = ''ban'') (m \<noteq> pre \<and> pre = ''leave'') k ev (rs_leave rs),
        rs_invite := move (m = ''invite'') (m \<noteq> pre \<and> pre = ''invite'') k ev (rs_invite rs),
        thirdInvite := (if m \<in> {''join'', ''leave'', ''ban''} then remove k (thirdInvite rs) else thirdInvite rs)\<rparr>)"
  by (cases "m = pre_membership k rs")
    (simp_all add: member_step_def member_enter_upd member_exit_upd move_def Let_def cong: if_cong split del: if_split)

lemma pre_membership_domainTl [simp]: "pre_membership k (rs\<lparr>domainTl := x\<rparr>) = pre_membership k rs"
  by (simp add: pre_membership_def)

lemma member_step_domainTl:
  "member_step m k ev (rs\<lparr>domainTl := x\<rparr>) = (member_step m k ev rs)\<lparr>domainTl := x\<rparr>"
  by (simp add: member_step_upd Let_def)

lemma member_step_frame:
  "domainTl (member_step m k ev rs) = domainTl rs" "slots (member_step m k ev rs) = slots rs"
  "rs_ext (member_step m k ev rs) = rs_ext rs"
  "IsEncrypted (member_step m k ev rs) = IsEncrypted rs" "IsFed (member_step m k ev rs) = IsFed rs"
  "isDirect (member_step m k ev rs) = isDirect rs" "roomId (member_step m k ev rs) = roomId rs"
  "RoomNid (member_step m k ev rs) = RoomNid rs" "SnapId (member_step m k ev rs) = SnapId rs"
  "Version (member_step m k ev rs) = Version rs"
  by (simp_all add: member_step_upd Let_def slots_def)

lemma slots_domainTl [simp]: "slots (rs\<lparr>domainTl := x\<rparr>) = slots rs"
  by (simp add: slots_def)

lemma map_of_move:
  "map_of (move into out k v m) = (map_of m)(k := if out then None else if into then Some v else map_of m k)"
  by (rule ext) (simp add: move_def)

lemma smap_ok_move [simp]: "smap_ok m \<Longrightarrow> smap_ok (move into out k v m)"
  by (simp add: move_def)

lemma pre_membership_cases:
  assumes "members_ok env rs"
  obtains (Join) "pre_membership k rs = ''join''" "map_of (rs_join rs) k \<noteq> None"
      "map_of (rs_leave rs) k = None" "map_of (rs_invite rs) k = None"
    | (Leave) "pre_membership k rs = ''leave''" "map_of (rs_join rs) k = None"
      "map_of (rs_leave rs) k \<noteq> None" "map_of (rs_invite rs) k = None"
    | (Invite) "pre_membership k rs = ''invite''" "map_of (rs_join rs) k = None"
      "map_of (rs_leave rs) k = None" "map_of (rs_invite rs) k \<noteq> None"
    | (Absent) "pre_membership k rs = []" "map_of (rs_join rs) k = None"
      "map_of (rs_leave rs) k = None" "map_of (rs_invite rs) k = None"
proof -
  have a: "map_of (rs_join rs) k = None \<or> map_of (rs_leave rs) k = None"
    "map_of (rs_join rs) k = None \<or> map_of (rs_invite rs) k = None"
    "map_of (rs_leave rs) k = None \<or> map_of (rs_invite rs) k = None"
    using assms by (auto simp: members_ok_def apart_def)
  show thesis
  proof (cases "map_of (rs_join rs) k = None")
    case j: True
    show thesis
    proof (cases "map_of (rs_leave rs) k = None")
      case l: True
      show thesis
        using Absent Invite j l by (cases "map_of (rs_invite rs) k = None") (simp_all add: pre_membership_def)
    next
      case False
      then show thesis using Leave j a(3) by (auto simp: pre_membership_def)
    qed
  next
    case False
    then show thesis using Join a(1,2) by (auto simp: pre_membership_def)
  qed
qed

lemma member_step_maps:
  assumes "members_ok env rs"
  shows "map_of (rs_join (member_step m k ev rs)) = (map_of (rs_join rs))(k := if m = ''join'' then Some ev else None)"
    "map_of (rs_leave (member_step m k ev rs)) = (map_of (rs_leave rs))
       (k := if m = ''leave'' \<or> m = ''ban'' \<and> map_of (rs_leave rs) k = None then Some ev else None)"
    "map_of (rs_invite (member_step m k ev rs)) =
       (map_of (rs_invite rs))(k := if m = ''invite'' then Some ev else None)"
    "map_of (thirdInvite (member_step m k ev rs)) =
       (if m \<in> {''join'', ''leave'', ''ban''} then (map_of (thirdInvite rs))(k := None) else map_of (thirdInvite rs))"
  by (cases rule: pre_membership_cases [OF assms, of k]; rule ext; simp add: member_step_upd Let_def map_of_move; auto)+

lemma member_step_maps_ok: "maps_ok rs \<Longrightarrow> maps_ok (member_step m k ev rs)"
  by (simp add: maps_ok_def member_step_upd Let_def)

lemma member_step_members:
  assumes "members_ok env rs" "EvType ev = MRoomMember" "StateKey ev = Some k" "DomainFromID k = Inr d"
    and "m = re_membership env (Content ev)"
  shows "members_ok env (member_step m k ev rs)"
proof -
  have new: "m = ''join'' \<Longrightarrow> member_entry env {''join''} k ev"
    "m = ''leave'' \<or> m = ''ban'' \<Longrightarrow> member_entry env {''leave'', ''ban''} k ev"
    "m = ''invite'' \<Longrightarrow> member_entry env {''invite''} k ev"
    using assms(2-5) by (auto simp: member_entry_def)
  show ?thesis
    using assms(1) new unfolding members_ok_def entries_def apart_def member_step_maps [OF assms(1)]
    by (simp split: if_splits)
qed

lemma joined_dom: "joined d m = {k. map_of m k \<noteq> None \<and> DomainFromID k = Inr d}"
  by (auto simp: joined_def map_of_eq_None_iff dest: map_of_SomeD intro: rev_image_eqI)

lemma finite_joined [simp]: "finite (joined d m)"
  by (simp add: joined_def)

lemma member_step_joined:
  assumes "members_ok env rs" "DomainFromID k = Inr d"
  shows "int (card (joined x (rs_join (member_step m k ev rs)))) =
    int (card (joined x (rs_join rs))) + (if x = d then count_change m (pre_membership k rs) else 0)"
proof -
  let ?j = "joined x (rs_join rs)"
  have j: "joined x (rs_join (member_step m k ev rs)) =
      (if x \<noteq> d then ?j else if m = ''join'' then insert k ?j else ?j - {k})"
    unfolding joined_dom member_step_maps [OF assms(1)] using assms(2) by auto
  have k: "k \<in> joined d (rs_join rs) \<longleftrightarrow> pre_membership k rs = ''join''"
    unfolding joined_dom pre_membership_def using assms(2) by simp
  have pos: "k \<in> ?j \<Longrightarrow> 0 < card ?j" by (auto simp: card_gt_0_iff)
  show ?thesis
    unfolding j using k pos by (auto simp: count_change_def card_insert_if of_nat_diff)
qed

lemma onMemberEv_inv:
  assumes "room_inv env rs" "EvType ev = MRoomMember" "StateKey ev = Some k"
  shows "\<exists>rs1. onMemberEv env ev rs = Inr rs1 \<and> room_inv env rs1 \<and>
    (case DomainFromID k of Inl _ \<Rightarrow> rs1 = rs
     | Inr d \<Rightarrow> rs1 = (member_step (re_membership env (Content ev)) k ev rs)\<lparr>domainTl := domainTl rs1\<rparr>)"
proof (cases "DomainFromID k")
  case (Inl e)
  with assms show ?thesis by (simp add: onMemberEv_def)
next
  case (Inr d)
  let ?m = "re_membership env (Content ev)"
  have ok: "counts_ok rs" "maps_ok rs" "members_ok env rs" "slots_ok rs" using assms(1) by (auto simp: room_inv_def)
  obtain item r where r: "getDomainTL d True rs = Inr (Some item, r)" "map_of (domainTl r) d = Some item"
    "r = rs\<lparr>domainTl := domainTl r\<rparr>" "counts_ok r" "maps_ok r"
    using getDomainTL_create [OF ok(1,2), of d] by blast
  obtain T where T: "r = rs\<lparr>domainTl := T\<rparr>" "domainTl r = T" using r(3) by simp
  have pre: "pre_membership k r = pre_membership k rs" by (simp add: T(1) pre_membership_def)
  have step: "member_step ?m k ev r = (member_step ?m k ev rs)\<lparr>domainTl := T\<rparr>"
    by (simp add: T(1) member_step_domainTl)
  define it1 where "it1 = item\<lparr>MemberCnt := MemberCnt item + count_change ?m (pre_membership k rs)\<rparr>"
  define rs1 where "rs1 = (member_step ?m k ev rs)\<lparr>domainTl := store d it1 T\<rparr>"
  have run: "onMemberEv env ev rs = Inr rs1"
    using assms(3) Inr r(1) by (simp add: onMemberEv_def rs1_def it1_def Let_def step pre)
  have c1: "counts_ok rs1"
  proof -
    have base: "member_count r x = int (card (joined x (rs_join rs)))" for x
      using r(4) by (simp add: counts_ok_def T(1))
    have "member_count rs1 x = int (card (joined x (rs_join rs1)))" for x
      using member_step_joined [OF ok(3) Inr, of x ?m ev] base [of x] base [of d] r(2)
      by (simp add: rs1_def member_count_def it1_def T(2) split: option.split)
    moreover have "tl_inv ef_offset (it_tl it1)" using r(2,4) by (simp add: it1_def counts_ok_def)
    ultimately show ?thesis using r(4) by (simp add: counts_ok_def rs1_def T(1))
  qed
  have "maps_ok rs1" using member_step_maps_ok [OF r(5), of ?m k ev]
    by (simp add: maps_ok_def rs1_def step)
  moreover have "members_ok env rs1"
    using member_step_members [OF ok(3) assms(2,3) Inr refl] by (simp add: rs1_def members_ok_def)
  moreover have "slots_ok rs1" using ok(4) by (simp add: slots_ok_def rs1_def member_step_frame)
  ultimately have "room_inv env rs1" using c1 by (simp add: room_inv_def)
  with run Inr show ?thesis by (simp add: rs1_def)
qed

section \<open>The other events\<close>

lemma onEventUpdate_slot:
  assumes "EvType ev \<notin> {MRoomMember, MRoomThirdPartyInvite}"
  shows "\<exists>rs1. onEventUpdate env ev rs = Inr rs1 \<and> same_members rs rs1 \<and> domainTl rs1 = domainTl rs \<and>
    (EvType ev \<noteq> ''m.room.encryption'' \<longrightarrow> room_meta rs1 = room_meta rs) \<and> slots rs1 = set_slots ev (slots rs)"
  using assms
  by (simp add: onEventUpdate_def Let_def same_members_def set_slots_def slots_def slot_types_def onCreateEv_def
      room_meta_def
      split: prod.split)

lemma same_members_inv:
  assumes "room_inv env rs" "same_members rs rs1" "domainTl rs1 = domainTl rs" "slots_ok rs1"
  shows "room_inv env rs1"
  using assms
  by (simp add: room_inv_def same_members_def maps_ok_def members_ok_def counts_ok_def member_count_def)

lemma set_slots_ok: "slots_ok rs \<Longrightarrow> slots rs1 = set_slots ev (slots rs) \<Longrightarrow> slots_ok rs1"
  by (simp add: slots_ok_def set_slots_def list_all2_conv_all_nth)

lemma onEventUpdate_third:
  assumes "EvType ev = MRoomThirdPartyInvite" "StateKey ev = Some k" "room_inv env rs"
  shows "\<exists>rs1. onEventUpdate env ev rs = Inr rs1 \<and> rs1 = rs\<lparr>thirdInvite := store k ev (thirdInvite rs)\<rparr> \<and>
    room_inv env rs1"
proof -
  let ?r = "rs\<lparr>thirdInvite := store k ev (thirdInvite rs)\<rparr>"
  have "slots_ok ?r = slots_ok rs" "counts_ok ?r = counts_ok rs"
    by (simp_all add: slots_ok_def slots_def counts_ok_def member_count_def)
  then show ?thesis
    using assms by (auto simp: onEventUpdate_def room_inv_def maps_ok_def members_ok_def entries_def)
qed

lemma onEventUpdate_inv:
  assumes "room_inv env rs" "keyed ev"
  shows "\<exists>rs1. onEventUpdate env ev rs = Inr rs1 \<and> room_inv env rs1"
proof -
  consider "EvType ev \<notin> {MRoomMember, MRoomThirdPartyInvite}"
    | k where "EvType ev = MRoomMember" "StateKey ev = Some k"
    | k where "EvType ev = MRoomThirdPartyInvite" "StateKey ev = Some k"
    using assms(2) unfolding keyed_def by blast
  then show ?thesis
  proof cases
    case 1
    from onEventUpdate_slot [OF this, of env rs] obtain rs1 where r: "onEventUpdate env ev rs = Inr rs1"
      "same_members rs rs1" "domainTl rs1 = domainTl rs" "slots rs1 = set_slots ev (slots rs)" by blast
    with same_members_inv [OF assms(1) r(2,3)] set_slots_ok [OF _ r(4)] assms(1) show ?thesis
      by (auto simp: room_inv_def)
  next
    case (2 k)
    with onMemberEv_inv [OF assms(1), of ev k] show ?thesis by (auto simp: onEventUpdate_def)
  next
    case (3 k)
    with onEventUpdate_third [OF _ _ assms(1), of ev k] show ?thesis by blast
  qed
qed

lemma add_feed_inv:
  assumes "room_inv env rs" "0 < offset"
  shows "\<exists>rs1. add_feed d ev offset rs = Inr rs1 \<and> room_inv env rs1 \<and> rs1 = rs\<lparr>domainTl := domainTl rs1\<rparr>"
proof -
  have ok: "counts_ok rs" "maps_ok rs" using assms(1) by (auto simp: room_inv_def)
  obtain item r where r: "getDomainTL d True rs = Inr (Some item, r)" "map_of (domainTl r) d = Some item"
    "r = rs\<lparr>domainTl := domainTl r\<rparr>" "counts_ok r" "maps_ok r"
    using getDomainTL_create [OF ok, of d] by blast
  obtain T where T: "r = rs\<lparr>domainTl := T\<rparr>" "domainTl r = T" using r(3) by simp
  let ?f = "\<lparr>ef_ev = ev, ef_offset = offset\<rparr>"
  have "tl_inv ef_offset (it_tl item)" using r(2,4) by (simp add: counts_ok_def)
  then obtain x t where t: "Add ef_offset (Some ?f) (it_tl item) = Some (Inr (x, t))" "tl_inv ef_offset t"
    using tlog.ad_returns [of ef_offset "it_tl item" ?f] tlog.ad_ok [of ef_offset "it_tl item" ?f] assms(2) by auto
  let ?r = "rs\<lparr>domainTl := store d (item\<lparr>it_tl := t\<rparr>) T\<rparr>"
  have "add_feed d ev offset rs = Inr ?r" using r(1) t(1) by (simp add: add_feed_def T)
  moreover have "member_count ?r x = member_count r x" for x
    using r(2) by (simp add: member_count_def T)
  then have "counts_ok ?r" using r(4) t(2) by (simp add: counts_ok_def T(1))
  moreover have "maps_ok ?r" using r(5) by (simp add: maps_ok_def T(1))
  ultimately show ?thesis using assms(1) by (simp add: room_inv_def slots_ok_def members_ok_def)
qed

lemma room_inv_ext [simp]: "room_inv env (rs\<lparr>rs_ext := x\<rparr>) = room_inv env rs"
  by (simp add: room_inv_def slots_ok_def members_ok_def slots_def counts_ok_def maps_ok_def member_count_def)

lemma GetPreEvent_keyed: "keyed ev \<Longrightarrow> \<exists>pre isState. GetPreEvent ev rs = Inr (pre, isState)"
  by (auto simp: GetPreEvent_def Let_def keyed_def)

lemma onEvent_inv:
  assumes "room_inv env rs" "keyed ev" "0 < offset"
  shows "\<exists>rs1. onEvent env recover ev offset rs = Inr rs1 \<and> room_inv env rs1"
proof -
  obtain pre isState where p: "GetPreEvent ev rs = Inr (pre, isState)"
    using GetPreEvent_keyed [OF assms(2)] by blast
  show ?thesis
  proof (cases "DomainFromID (Sender ev)")
    case (Inl e)
    with p assms(1) show ?thesis by (simp add: onEvent_def)
  next
    case (Inr d)
    obtain upd ext1 where u: "onEventCheckUpdate env ev pre d isState recover (rs_ext rs) = (upd, ext1)" by force
    let ?r = "rs\<lparr>rs_ext := ext1\<lparr>HasUpdate := upd\<rparr>\<rparr>"
    have inv: "room_inv env ?r" using assms(1) by simp
    obtain r1 where "onEventUpdate env ev ?r = Inr r1" "room_inv env r1"
      using onEventUpdate_inv [OF inv assms(2)] by blast
    moreover obtain r2 where "add_feed d ev offset r1 = Inr r2" "room_inv env r2"
      using add_feed_inv [OF calculation(2) assms(3)] by blast
    ultimately show ?thesis using p Inr u inv by (cases upd) (simp_all add: onEvent_def Let_def)
  qed
qed

lemma init_inv: "room_inv env (init room)"
  by (simp add: room_inv_def init_def slots_ok_def slots_def slot_types_def members_ok_def counts_ok_def maps_ok_def
      member_count_def entries_def apart_def joined_def)

section \<open>The state as a map\<close>

lemma left_iff:
  assumes "members_ok env rs"
  shows "map_of (rs_leave rs) k = None \<longleftrightarrow>
    (case room_lookup rs (MRoomMember, k) of None \<Rightarrow> True | Some p \<Rightarrow> re_membership env (Content p) \<notin> {''leave'', ''ban''})"
  using assms
  by (cases rule: pre_membership_cases [OF assms, of k])
    (auto simp: room_lookup_def Member_def members_ok_def entries_def member_entry_def)

lemma distinct_slot_types: "distinct slot_types" "length slot_types = 13"
  by (simp_all add: slot_types_def)

lemma slot_of_set:
  assumes "slots rs1 = set_slots ev (slots rs)"
  shows "slot_of rs1 ty = (if ty = EvType ev \<and> ty \<in> set slot_types then Some ev else slot_of rs ty)"
proof -
  have len: "length (slots rs) = length slot_types" by (simp add: slots_def slot_types_def)
  have z: "zip slot_types (slots rs1) = map (\<lambda>(ty, s). (ty, if EvType ev = ty then Some ev else s)) (zip slot_types (slots rs))"
    unfolding assms set_slots_def using len by (intro nth_equalityI) simp_all
  have "map_of (map (\<lambda>(ty, s). (ty, f ty s)) xs) ty = map_option (f ty) (map_of xs ty)" for xs :: "(string \<times> 'a Event option) list" and f
    by (induction xs) auto
  then have "map_of (zip slot_types (slots rs1)) ty =
      map_option (\<lambda>s. if EvType ev = ty then Some ev else s) (map_of (zip slot_types (slots rs)) ty)"
    unfolding z .
  moreover have "map_of (zip slot_types (slots rs)) ty = None \<longleftrightarrow> ty \<notin> set slot_types"
    using len by (simp add: map_of_zip_is_None)
  ultimately show ?thesis by (auto simp: slot_of_def split: option.split)
qed

lemma same_members_lookup:
  "same_members rs rs1 \<Longrightarrow> Member k rs1 = Member k rs" "same_members rs rs1 \<Longrightarrow> thirdInvite rs1 = thirdInvite rs"
  by (simp_all add: same_members_def Member_def cong: option.case_cong)

lemma room_lookup_slot:
  assumes "EvType ev \<notin> {MRoomMember, MRoomThirdPartyInvite}" "same_members rs rs1" "slots rs1 = set_slots ev (slots rs)"
  shows "room_lookup rs1 = (if EvType ev \<in> room_types then (room_lookup rs)(room_key ev \<mapsto> ev) else room_lookup rs)"
proof -
  note m = same_members_lookup [OF assms(2)]
  show ?thesis
    using assms(1) unfolding room_lookup_def slot_of_set [OF assms(3)] m room_key_def
    by (intro ext) (auto simp: room_types_def prod_eq_iff)
qed

lemma slot_of_cong: "slots rs1 = slots rs \<Longrightarrow> slot_of rs1 = slot_of rs"
  by (simp add: slot_of_def fun_eq_iff)

lemma room_lookup_member:
  assumes "members_ok env rs" "third_plain rs" "EvType ev = MRoomMember" "well_keyed env ev"
    "fresh_ban env (room_lookup rs) ev" "m = re_membership env (Content ev)" "StateKey ev = Some k"
  shows "room_lookup (member_step m k ev rs) = (room_lookup rs)(room_key ev \<mapsto> ev)"
    "third_plain (member_step m k ev rs)"
proof -
  let ?r = "member_step m k ev rs"
  obtain d where d: "DomainFromID k = Inr d" and m: "m \<in> {''join'', ''invite'', ''leave'', ''ban''}"
    using assms(3,4,6,7) by (auto simp: well_keyed_def)
  have key: "room_key ev = (MRoomMember, k)" using assms(3,7) by (simp add: room_key_def)
  have left: "map_of (rs_leave rs) k = None" if "m = ''ban''"
    using assms(5) that unfolding left_iff [OF assms(1)] fresh_ban_def key assms(6)
    using assms(3) by (simp cong: option.case_cong)
  have mem: "Member x ?r = (if x = k then Some ev else Member x rs)" for x
  proof (cases "x = k")
    case True
    from m left show ?thesis unfolding Member_def member_step_maps [OF assms(1)] True by auto
  next
    case False
    then show ?thesis unfolding Member_def member_step_maps [OF assms(1)] fun_upd_other [OF False] by simp
  qed
  have "map_of (thirdInvite rs) k = None" using assms(2) d by (auto simp: third_plain_def)
  then have third: "map_of (thirdInvite ?r) = map_of (thirdInvite rs)"
    unfolding member_step_maps [OF assms(1)] by (auto simp: fun_eq_iff)
  then show "third_plain ?r" using assms(2) by (simp add: third_plain_def)
  show "room_lookup ?r = (room_lookup rs)(room_key ev \<mapsto> ev)"
    unfolding room_lookup_def mem third slot_of_cong [OF member_step_frame(2)] key
    by (intro ext) (auto simp: prod_eq_iff)
qed

lemma room_lookup_cong:
  assumes "same_members rs rs1" "slots rs1 = slots rs"
  shows "room_lookup rs1 = room_lookup rs" "third_plain rs1 = third_plain rs"
  unfolding room_lookup_def third_plain_def slot_of_cong [OF assms(2)] same_members_lookup [OF assms(1)]
  by (rule refl)+

lemma lookup_domainTl [simp]:
  "room_lookup (rs\<lparr>domainTl := x\<rparr>) = room_lookup rs" "third_plain (rs\<lparr>domainTl := x\<rparr>) = third_plain rs"
  "room_lookup (rs\<lparr>rs_ext := y\<rparr>) = room_lookup rs" "third_plain (rs\<lparr>rs_ext := y\<rparr>) = third_plain rs"
  by (rule room_lookup_cong; simp add: same_members_def slots_def)+

lemma onEventUpdate_lookup:
  assumes "room_inv env rs" "third_plain rs" "well_keyed env ev" "fresh_ban env (room_lookup rs) ev"
  shows "\<exists>rs1. onEventUpdate env ev rs = Inr rs1 \<and> room_inv env rs1 \<and> third_plain rs1 \<and>
    (EvType ev \<noteq> ''m.room.encryption'' \<longrightarrow> room_meta rs1 = room_meta rs) \<and>
    room_lookup rs1 = (if EvType ev \<in> room_types then (room_lookup rs)(room_key ev \<mapsto> ev) else room_lookup rs)"
proof -
  have mok: "members_ok env rs" using assms(1) by (simp add: room_inv_def)
  consider "EvType ev \<notin> {MRoomMember, MRoomThirdPartyInvite}"
    | k d where "EvType ev = MRoomMember" "StateKey ev = Some k" "DomainFromID k = Inr d"
    | k x where "EvType ev = MRoomThirdPartyInvite" "StateKey ev = Some k" "DomainFromID k = Inl x"
    using assms(3) unfolding well_keyed_def by (auto split: if_splits)
  then show ?thesis
  proof cases
    case 1
    from onEventUpdate_slot [OF this, of env rs] obtain rs1 where r: "onEventUpdate env ev rs = Inr rs1"
      "same_members rs rs1" "domainTl rs1 = domainTl rs" "slots rs1 = set_slots ev (slots rs)"
      "EvType ev \<noteq> ''m.room.encryption'' \<longrightarrow> room_meta rs1 = room_meta rs" by blast
    have "room_inv env rs1"
      using same_members_inv [OF assms(1) r(2,3)] set_slots_ok [OF _ r(4)] assms(1) by (simp add: room_inv_def)
    moreover have "third_plain rs1" using r(2) assms(2) by (simp add: third_plain_def same_members_def)
    ultimately show ?thesis using r(1,5) room_lookup_slot [OF 1 r(2,4)] by blast
  next
    case (2 k d)
    obtain rs1 T where r: "onMemberEv env ev rs = Inr rs1" "room_inv env rs1"
      "rs1 = (member_step (re_membership env (Content ev)) k ev rs)\<lparr>domainTl := T\<rparr>"
      using onMemberEv_inv [OF assms(1) 2(1,2)] 2(3) by auto
    then show ?thesis
      using room_lookup_member [OF mok assms(2) 2(1) assms(3,4) refl 2(2)] 2(1)
      by (simp add: onEventUpdate_def room_types_def room_meta_def member_step_frame)
  next
    case (3 k x)
    let ?r = "rs\<lparr>thirdInvite := store k ev (thirdInvite rs)\<rparr>"
    have mem: "Member x ?r = Member x rs" for x by (simp add: Member_def cong: option.case_cong)
    have sl: "slot_of ?r = slot_of rs" by (intro slot_of_cong) (simp add: slots_def)
    have "room_lookup ?r = (room_lookup rs)(room_key ev \<mapsto> ev)"
      unfolding room_lookup_def sl mem using 3(1,2)
      by (intro ext) (auto simp: room_key_def prod_eq_iff)
    moreover have "third_plain ?r" using assms(2) 3(3) by (simp add: third_plain_def)
    ultimately show ?thesis
      using onEventUpdate_third [OF 3(1,2) assms(1)] 3(1) by (auto simp: room_types_def room_meta_def)
  qed
qed

section \<open>Runs\<close>

lemma slot_of_slots: "slots rs = map (slot_of rs) slot_types"
  by (simp add: slot_of_def slots_def slot_types_def)

lemma GetPreEvent_lookup:
  assumes "well_keyed env ev"
  shows "\<exists>pre. GetPreEvent ev rs = Inr (pre, EvType ev \<in> insert ''m.room.encryption'' room_types) \<and>
    (EvType ev \<in> room_types \<longrightarrow> pre = room_lookup rs (room_key ev))"
proof -
  consider "EvType ev \<notin> insert ''m.room.encryption'' room_types" | "EvType ev = ''m.room.encryption''"
    | "EvType ev = MRoomMember" | "EvType ev = MRoomThirdPartyInvite" | "EvType ev \<in> set slot_types"
    by (auto simp: room_types_def)
  then show ?thesis
  proof cases
    case 5
    then show ?thesis
      by (auto simp: slot_types_def GetPreEvent_def room_lookup_def room_key_def slot_of_def slots_def room_types_def)
  qed (use assms in \<open>auto simp: GetPreEvent_def Let_def well_keyed_def room_lookup_def room_key_def room_types_def
        slot_types_def\<close>)
qed

lemma well_keyed_keyed: "well_keyed env ev \<Longrightarrow> keyed ev"
  by (auto simp: well_keyed_def keyed_def split: if_splits)

lemma onEvent_lookup:
  assumes inv: "room_inv env rs" "third_plain rs" and ev: "well_keyed env ev" "fresh_ban env (room_lookup rs) ev"
    and acc: "EvType ev \<in> room_types \<longrightarrow> accepted env ev (room_lookup rs (room_key ev))" and off: "0 < offset"
  shows "\<exists>rs1. onEvent env recover ev offset rs = Inr rs1 \<and> room_inv env rs1 \<and> third_plain rs1 \<and>
    (EvType ev \<noteq> ''m.room.encryption'' \<longrightarrow> room_meta rs1 = room_meta rs) \<and>
    room_lookup rs1 = put_event ev (room_lookup rs)"
proof -
  let ?st = "EvType ev \<in> insert ''m.room.encryption'' room_types"
  obtain pre where p: "GetPreEvent ev rs = Inr (pre, ?st)"
    "EvType ev \<in> room_types \<longrightarrow> pre = room_lookup rs (room_key ev)"
    using GetPreEvent_lookup [OF ev(1), of rs] by blast
  show ?thesis
  proof (cases "DomainFromID (Sender ev)")
    case (Inl e)
    with p acc inv show ?thesis by (simp add: onEvent_def accepted_def put_event_def)
  next
    case (Inr d)
    obtain upd ext1 where u: "onEventCheckUpdate env ev pre d ?st recover (rs_ext rs) = (upd, ext1)" by force
    let ?r = "rs\<lparr>rs_ext := ext1\<lparr>HasUpdate := upd\<rparr>\<rparr>"
    have meta: "room_meta ?r = room_meta rs" by (simp add: room_meta_def)
    obtain r1 where r1: "onEventUpdate env ev ?r = Inr r1" "room_inv env r1" "third_plain r1"
      "EvType ev \<noteq> ''m.room.encryption'' \<longrightarrow> room_meta r1 = room_meta rs"
      "room_lookup r1 = put_event ev (room_lookup rs)"
      using onEventUpdate_lookup [of env ?r ev, folded put_event_def] inv ev meta
      by (simp add: put_event_def cong: if_cong) blast
    obtain r2 T where r2: "add_feed d ev offset r1 = Inr r2" "room_inv env r2" "r2 = r1\<lparr>domainTl := T\<rparr>"
      using add_feed_inv [OF r1(2) off, of d ev] by blast
    show ?thesis
    proof (cases upd)
      case True
      with p Inr u r1 r2 show ?thesis by (simp add: onEvent_def Let_def room_meta_def)
    next
      case False
      have "EvType ev \<notin> room_types"
        using False u acc p(2) Inr
        by (auto simp: onEventCheckUpdate_def accepted_def Let_def split: if_splits option.splits)
      with False p Inr u inv meta show ?thesis by (simp add: onEvent_def Let_def put_event_def)
    qed
  qed
qed

lemma run_lookup:
  assumes "room_inv env rs" "third_plain rs" "run_ok env (room_lookup rs) (map fst evs)"
    and "\<forall>p \<in> set evs. 0 < snd p"
  shows "\<exists>rs1. foldR (\<lambda>(ev, offset). onEvent env recover ev offset) evs rs = Inr rs1 \<and> room_inv env rs1 \<and>
    third_plain rs1 \<and> (''m.room.encryption'' \<notin> EvType ` fst ` set evs \<longrightarrow> room_meta rs1 = room_meta rs) \<and>
    room_lookup rs1 = fold put_event (map fst evs) (room_lookup rs)"
  using assms
proof (induction evs arbitrary: rs)
  case (Cons p evs)
  obtain ev off where p: "p = (ev, off)" by (cases p)
  obtain rs1 where r: "onEvent env recover ev off rs = Inr rs1" "room_inv env rs1" "third_plain rs1"
    "EvType ev \<noteq> ''m.room.encryption'' \<longrightarrow> room_meta rs1 = room_meta rs"
    "room_lookup rs1 = put_event ev (room_lookup rs)"
    using onEvent_lookup [OF Cons.prems(1,2), of ev off recover] Cons.prems(3,4) p by auto
  have "run_ok env (room_lookup rs1) (map fst evs)" "\<forall>p \<in> set evs. 0 < snd p"
    using Cons.prems(3,4) p r(5) by simp_all
  from Cons.IH [OF r(2,3) this] p r(1,4,5) show ?case by auto
qed simp

lemma init_plain: "third_plain (init room)" "room_lookup (init room) = Map.empty"
proof -
  have sl: "slot_of (init room) ty = None" for ty
    by (simp add: slot_of_def init_def slots_def slot_types_def)
  show "third_plain (init room)" by (simp add: third_plain_def init_def)
  show "room_lookup (init room) = Map.empty"
    unfolding room_lookup_def sl Member_def by (intro ext) (simp add: init_def)
qed

section \<open>Answers to the authorisation rules\<close>

lemma room_provider_lookup: "room_provider rs = AuthEvents_provider (room_lookup rs)"
  by (simp add: room_provider_def AuthEvents_provider_def room_lookup_def slot_of_def slot_types_def slots_def)

lemma agree_provider: "agree A B \<Longrightarrow> AuthEvents_provider A = AuthEvents_provider B"
  by (simp add: AuthEvents_provider_def agree_def class_of_def)

lemma agree_step:
  assumes "agree A B" "well_keyed env ev" "auth_keyed ev"
  shows "agree (put_event ev A) (snd (AddEvent ev B))"
proof (cases "class_of (EvType ev, case StateKey ev of Some k \<Rightarrow> k | None \<Rightarrow> []) = Others")
  case True
  have "class_of (room_key ev) = Others"
    using True assms(2,3)
    by (cases "StateKey ev") (auto simp: class_of_def room_key_def auth_keyed_def well_keyed_def split: if_splits)
  with True assms(1) show ?thesis
    by (cases "StateKey ev") (auto simp: agree_def put_event_def AddEvent_def)
next
  case False
  then have "EvType ev \<in> {MRoomCreate, MRoomJoinRules, MRoomPowerLevels, MRoomMember, MRoomThirdPartyInvite}"
    by (auto simp: class_of_def split: if_splits)
  then obtain k where k: "StateKey ev = Some k" "room_key ev = (EvType ev, k)" "EvType ev \<in> room_types"
    using assms(2,3)
    by (auto simp: auth_keyed_def well_keyed_def room_key_def room_types_def slot_types_def)
  have "snd (AddEvent ev B) = B((EvType ev, k) \<mapsto> ev)" "put_event ev A = A((EvType ev, k) \<mapsto> ev)"
    using k by (simp_all add: put_event_def AddEvent_def)
  with assms(1) show ?thesis by (simp add: agree_def)
qed

lemma agree_run:
  "agree A B \<Longrightarrow> run_ok env A' evs \<Longrightarrow> \<forall>ev \<in> set evs. auth_keyed ev \<Longrightarrow>
    agree (fold put_event evs A) (fold (\<lambda>e a. snd (AddEvent e a)) evs B)"
proof (induction evs arbitrary: A B A')
  case (Cons ev evs)
  then show ?case
    using agree_step [of A B env ev] Cons.IH [of "put_event ev A" "snd (AddEvent ev B)" "put_event ev A'"] by simp
qed simp

section \<open>Rebuilding from the cache\<close>

lemma values_iff: "smap_ok m \<Longrightarrow> e \<in> snd ` set m \<longleftrightarrow> (\<exists>k. map_of m k = Some e)"
  by (auto simp: smap_ok_def intro: rev_image_eqI dest: map_of_SomeD)

lemma slot_typed: "slots_ok rs \<Longrightarrow> slot_of rs ty = Some e \<Longrightarrow> EvType e = ty"
  by (auto simp: slots_ok_def list_all2_iff slot_of_def split: option.splits dest!: map_of_SomeD)

lemma slot_events_iff:
  assumes "slots_ok rs"
  shows "e \<in> set (concat (map opt_list (map (\<lambda>i. slots rs ! i) [0, 1, 2, 3, 4, 9, 5, 7, 8, 11, 12, 10]))) \<longleftrightarrow>
    EvType e \<in> set slot_types - {''m.room.desc''} \<and> slot_of rs (EvType e) = Some e"
proof -
  let ?I = "[0, 1, 2, 3, 4, 9, 5, 7, 8, 11, 12, 10] :: nat list"
  have "map (\<lambda>i. slots rs ! i) ?I = map (slot_of rs) (map (\<lambda>i. slot_types ! i) ?I)"
    unfolding slot_of_slots [of rs] by (simp add: slot_types_def)
  moreover have "set (map (\<lambda>i. slot_types ! i) ?I) = set slot_types - {''m.room.desc''}"
    by (auto simp: slot_types_def)
  moreover have "x \<in> set (opt_list y) \<longleftrightarrow> y = Some x" for x :: "'a Event" and y
    by (cases y) (auto simp: opt_list_def)
  ultimately have "e \<in> set (concat (map opt_list (map (\<lambda>i. slots rs ! i) ?I))) \<longleftrightarrow>
      (\<exists>ty \<in> set slot_types - {''m.room.desc''}. slot_of rs ty = Some e)"
    by (simp only: set_concat set_map UN_iff bex_simps image_iff)
  then show ?thesis using slot_typed [OF assms, of _ e] by blast
qed

lemma member_lookup_iff:
  assumes "maps_ok rs" "members_ok env rs" "EvType e = MRoomMember"
  shows "e \<in> snd ` set (rs_join rs) \<union> snd ` set (rs_leave rs) \<union> snd ` set (rs_invite rs) \<longleftrightarrow>
    StateKey e \<noteq> None \<and> Member (the (StateKey e)) rs = Some e"
proof -
  have v: "e \<in> snd ` set (rs_join rs) \<longleftrightarrow> (\<exists>k. map_of (rs_join rs) k = Some e)"
    "e \<in> snd ` set (rs_leave rs) \<longleftrightarrow> (\<exists>k. map_of (rs_leave rs) k = Some e)"
    "e \<in> snd ` set (rs_invite rs) \<longleftrightarrow> (\<exists>k. map_of (rs_invite rs) k = Some e)"
    using assms(1) by (simp_all add: maps_ok_def values_iff)
  have key: "StateKey e = Some k" if "map_of (rs_join rs) k = Some e \<or> map_of (rs_leave rs) k = Some e \<or>
      map_of (rs_invite rs) k = Some e" for k
    using that assms(2) by (auto simp: members_ok_def entries_def member_entry_def)
  have mem: "Member k rs = Some e \<longleftrightarrow> map_of (rs_join rs) k = Some e \<or> map_of (rs_leave rs) k = Some e \<or>
      map_of (rs_invite rs) k = Some e" for k
    by (cases rule: pre_membership_cases [OF assms(2), of k]) (auto simp: Member_def)
  show ?thesis unfolding Un_iff v using mem key by (metis option.distinct(1) option.sel)
qed

lemma cached_events_iff:
  assumes "room_inv env rs"
  shows "e \<in> set (cached_events (fst (serialize rs))) \<longleftrightarrow>
    EvType e \<in> room_types - {''m.room.desc''} \<and> keyed e \<and> room_lookup rs (room_key e) = Some e"
proof -
  have ok: "maps_ok rs" "slots_ok rs" "members_ok env rs" using assms by (auto simp: room_inv_def)
  have types: "e \<in> snd ` set (rs_join rs) \<union> snd ` set (rs_leave rs) \<union> snd ` set (rs_invite rs) \<Longrightarrow> EvType e = MRoomMember"
    "e \<in> snd ` set (thirdInvite rs) \<Longrightarrow> EvType e = MRoomThirdPartyInvite"
    using ok(1,3) by (auto simp: maps_ok_def members_ok_def values_iff entries_def member_entry_def)
  have third: "e \<in> snd ` set (thirdInvite rs) \<longleftrightarrow> StateKey e \<noteq> None \<and> map_of (thirdInvite rs) (the (StateKey e)) = Some e"
    if "EvType e = MRoomThirdPartyInvite"
    using ok(1,3) by (auto simp: maps_ok_def members_ok_def values_iff entries_def)
  have ser: "set (cached_events (fst (serialize rs))) =
      set (concat (map opt_list (map (\<lambda>i. slots rs ! i) [0, 1, 2, 3, 4, 9, 5, 7, 8, 11, 12, 10]))) \<union>
      (snd ` set (rs_join rs) \<union> snd ` set (rs_leave rs) \<union> snd ` set (rs_invite rs)) \<union> snd ` set (thirdInvite rs)"
    by (simp add: serialize_def Let_def cached_events_def slots_def Un_ac)
  have disj: "MRoomMember \<notin> set slot_types" "MRoomThirdPartyInvite \<notin> set slot_types" by (simp_all add: slot_types_def)
  consider "EvType e = MRoomMember" | "EvType e = MRoomThirdPartyInvite"
    | "EvType e \<notin> {MRoomMember, MRoomThirdPartyInvite}" by blast
  then show ?thesis
  proof cases
    case 1
    with types(2) member_lookup_iff [OF ok(1,3) 1] disj slot_events_iff [OF ok(2), of e] show ?thesis
      unfolding ser by (auto simp: room_types_def keyed_def room_key_def room_lookup_def)
  next
    case 2
    with types(1) third disj slot_events_iff [OF ok(2), of e] show ?thesis
      unfolding ser by (auto simp: room_types_def keyed_def room_key_def room_lookup_def)
  next
    case 3
    with types slot_events_iff [OF ok(2), of e] show ?thesis
      unfolding ser by (auto simp: room_types_def keyed_def room_key_def room_lookup_def)
  qed
qed

lemma run_ok_distinct:
  assumes "\<forall>e \<in> set es. well_keyed env e \<and> (\<exists>d. DomainFromID (Sender e) = Inr d)"
    "distinct (map room_key es)" "\<forall>e \<in> set es. A (room_key e) = None"
  shows "run_ok env A es"
  using assms
proof (induction es arbitrary: A)
  case (Cons e es)
  have "\<forall>x \<in> set es. put_event e A (room_key x) = None"
    using Cons.prems(2,3) by (auto simp: put_event_def image_iff)
  moreover have "fresh_ban env A e" "accepted env e (A (room_key e))"
    using Cons.prems(1,3) by (auto simp: fresh_ban_def accepted_def)
  ultimately show ?case using Cons.IH [of "put_event e A"] Cons.prems by simp
qed simp

lemma fold_put_other: "t \<notin> room_key ` set es \<Longrightarrow> fold put_event es A t = A t"
  by (induction es arbitrary: A) (auto simp: put_event_def)

lemma fold_put_distinct:
  assumes "distinct (map room_key es)" "\<forall>e \<in> set es. EvType e \<in> room_types" "e \<in> set es"
  shows "fold put_event es A (room_key e) = Some e"
  using assms
proof (induction es arbitrary: A)
  case (Cons x es)
  show ?case
  proof (cases "e = x")
    case True
    then have "room_key e \<notin> room_key ` set es" using Cons.prems(1) by simp
    moreover have "put_event x A (room_key x) = Some x" using Cons.prems(2) by (simp add: put_event_def)
    ultimately show ?thesis using fold_put_other [of "room_key e" es "put_event x A"] True by simp
  next
    case False
    with Cons show ?thesis by simp
  qed
qed simp

lemma lookup_key:
  assumes "room_inv env rs" "room_lookup rs t = Some e"
  shows "room_key e = t \<and> EvType e \<in> room_types \<and> keyed e"
proof -
  have ok: "slots_ok rs" "members_ok env rs" using assms(1) by (auto simp: room_inv_def)
  obtain ty k where t: "t = (ty, k)" by (cases t)
  consider "ty = MRoomMember" "Member k rs = Some e" | "ty = MRoomThirdPartyInvite" "map_of (thirdInvite rs) k = Some e"
    | "ty \<notin> {MRoomMember, MRoomThirdPartyInvite}" "k = []" "slot_of rs ty = Some e"
    using assms(2) t by (auto simp: room_lookup_def split: if_splits)
  then show ?thesis
  proof cases
    case 1
    then have "EvType e = MRoomMember \<and> StateKey e = Some k"
      using ok(2) by (auto simp: Member_def members_ok_def entries_def member_entry_def split: option.splits)
    with 1 t show ?thesis by (simp add: room_key_def room_types_def keyed_def)
  next
    case 2
    then have "EvType e = MRoomThirdPartyInvite \<and> StateKey e = Some k"
      using ok(2) by (auto simp: members_ok_def entries_def)
    with 2 t show ?thesis by (simp add: room_key_def room_types_def keyed_def)
  next
    case 3
    moreover have "ty \<in> set slot_types"
      using 3(3) by (auto simp: slot_of_def split: option.splits dest!: map_of_SomeD set_zip_leftD)
    ultimately show ?thesis using slot_typed [OF ok(1) 3(3)] t by (simp add: room_key_def room_types_def keyed_def)
  qed
qed

lemma members_of_lookup:
  assumes "members_ok env rs"
  defines "w \<equiv> \<lambda>ms k. case room_lookup rs (MRoomMember, k) of None \<Rightarrow> None
      | Some e \<Rightarrow> if re_membership env (Content e) \<in> ms then Some e else None"
  shows "map_of (rs_join rs) k = w {''join''} k" "map_of (rs_leave rs) k = w {''leave'', ''ban''} k"
    "map_of (rs_invite rs) k = w {''invite''} k"
proof -
  have e: "map_of (rs_join rs) k = Some e \<Longrightarrow> re_membership env (Content e) = ''join''"
    "map_of (rs_leave rs) k = Some e \<Longrightarrow> re_membership env (Content e) = ''leave'' \<or> re_membership env (Content e) = ''ban''"
    "map_of (rs_invite rs) k = Some e \<Longrightarrow> re_membership env (Content e) = ''invite''" for e
    using assms(1) by (auto simp: members_ok_def entries_def member_entry_def)
  have l: "room_lookup rs (MRoomMember, k) = Member k rs" by (simp add: room_lookup_def)
  show "map_of (rs_join rs) k = w {''join''} k" "map_of (rs_leave rs) k = w {''leave'', ''ban''} k"
    "map_of (rs_invite rs) k = w {''invite''} k"
    unfolding w_def l
    by (cases rule: pre_membership_cases [OF assms(1), of k]; use e in \<open>force simp: Member_def\<close>)+
qed

lemma unmarshal_reset_start:
  assumes "slots_ok rs" and r0_def: "r0 = unmarshal_reset room (fst (serialize rs))"
  shows "room_inv env r0" "third_plain r0" "room_lookup r0 t = (if t = (''m.room.desc'', []) then rs_Desc rs else None)"
    "room_meta r0 = (room, RoomNid rs, SnapId rs, IsEncrypted rs)"
proof -
  have r0: "r0 = (init room)\<lparr>RoomNid := RoomNid rs, SnapId := SnapId rs, IsEncrypted := IsEncrypted rs,
       IsFed := IsFed rs, rs_Desc := rs_Desc rs, Version := Version rs + 1\<rparr>"
    by (simp add: r0_def unmarshal_reset_def serialize_def Let_def slots_def)
  have sl: "slots r0 = map (\<lambda>ty. if ty = ''m.room.desc'' then rs_Desc rs else None) slot_types"
    by (simp add: r0 slots_def init_def slot_types_def)
  have desc: "rs_Desc rs = Some e \<Longrightarrow> EvType e = ''m.room.desc''" for e
    using assms(1) by (simp add: slots_ok_def slots_def slot_types_def)
  have mem: "same_members (init room) r0" "domainTl r0 = domainTl (init room)"
    by (simp_all add: same_members_def r0 init_def)
  have "slots_ok r0" using desc by (simp add: slots_ok_def sl list_all2_conv_all_nth)
  then show "room_inv env r0" by (rule same_members_inv [OF init_inv mem])
  show "third_plain r0" by (simp add: third_plain_def r0 init_def)
  show "room_meta r0 = (room, RoomNid rs, SnapId rs, IsEncrypted rs)" by (simp add: r0 room_meta_def init_def)
  have so: "slot_of r0 ty = (if ty = ''m.room.desc'' then rs_Desc rs else None)" for ty
    by (simp add: slot_of_def sl slot_types_def)
  show "room_lookup r0 t = (if t = (''m.room.desc'', []) then rs_Desc rs else None)"
    unfolding room_lookup_def so same_members_lookup [OF mem(1)]
    by (cases t) (simp add: init_def Member_def)
qed

lemma cached_well_keyed:
  assumes "members_ok env rs" "third_plain rs" "keyed e" "room_lookup rs (room_key e) = Some e"
  shows "well_keyed env e"
proof -
  consider "EvType e = MRoomMember" | "EvType e = MRoomThirdPartyInvite"
    | "EvType e \<notin> {MRoomMember, MRoomThirdPartyInvite}" by blast
  then show ?thesis
  proof cases
    case 1
    obtain k where k: "StateKey e = Some k" using assms(3) 1 by (auto simp: keyed_def)
    with assms(4) 1 have "Member k rs = Some e" by (simp add: room_lookup_def room_key_def)
    then have "member_entry env {''join'', ''invite'', ''leave'', ''ban''} k e"
      using assms(1) by (auto simp: Member_def members_ok_def entries_def member_entry_def split: option.splits)
    with 1 k show ?thesis by (auto simp: well_keyed_def member_entry_def)
  next
    case 2
    then show ?thesis
      using assms(2-4) by (auto simp: well_keyed_def keyed_def room_lookup_def room_key_def third_plain_def)
  qed (simp add: well_keyed_def)
qed

lemma parse_lookup:
  assumes inv: "room_inv env rs" "third_plain rs"
    and evs: "\<forall>e \<in> set (cached_events c). 0 < EventNID e \<and> (\<exists>d. DomainFromID (Sender e) = Inr d)"
    and dist: "distinct (map EventNID (cached_events c))" and c: "c = fst (serialize rs)"
  shows "\<exists>rs1. parseCacheRoomState env room c = Inr rs1 \<and> room_inv env rs1 \<and>
    room_lookup rs1 = room_lookup rs \<and> room_meta rs1 = (room, RoomNid rs, SnapId rs, IsEncrypted rs)"
proof -
  let ?es = "sort_by (\<lambda>a b. EventNID a < EventNID b) (cached_events c)"
  let ?r0 = "unmarshal_reset room c"
  have es: "set ?es = set (cached_events c)" by (rule sort_by_set)
  have mem: "e \<in> set ?es \<longleftrightarrow> EvType e \<in> room_types - {''m.room.desc''} \<and> keyed e \<and> room_lookup rs (room_key e) = Some e" for e
    unfolding es unfolding c by (rule cached_events_iff [OF inv(1)])
  have sl: "slots_ok rs" "members_ok env rs" using inv(1) by (auto simp: room_inv_def)
  note r0 = unmarshal_reset_start [OF sl(1), of ?r0 room, folded c, OF refl]
  have "distinct (cached_events c)" using dist by (simp add: distinct_map)
  then have "distinct ?es" using es by (metis distinct_count_atmost_1 sort_by_mset mset_eq_setD)
  moreover have "inj_on room_key (set ?es)" using mem by (auto simp: inj_on_def)
  ultimately have dk: "distinct (map room_key ?es)" by (simp add: distinct_map)
  have wk: "well_keyed env e" if "e \<in> set ?es" for e
    using that mem [of e] cached_well_keyed [OF sl(2) inv(2)] by blast
  have "room_key e \<noteq> (''m.room.desc'', [])" if "e \<in> set ?es" for e
    using that mem [of e] by (auto simp: room_key_def)
  then have "run_ok env (room_lookup ?r0) (map fst (map (\<lambda>e. (e, EventNID e)) ?es))"
    using wk evs es dk r0(3) by (simp add: o_def) (intro run_ok_distinct; auto)
  then obtain rs1 where r1: "parseCacheRoomState env room c = Inr rs1" "room_inv env rs1"
    "''m.room.encryption'' \<notin> EvType ` fst ` set (map (\<lambda>e. (e, EventNID e)) ?es) \<longrightarrow> room_meta rs1 = room_meta ?r0"
    "room_lookup rs1 = fold put_event (map fst (map (\<lambda>e. (e, EventNID e)) ?es)) (room_lookup ?r0)"
    using run_lookup [OF r0(1,2), of env "map (\<lambda>e. (e, EventNID e)) ?es" True] evs es
    by (auto simp: parseCacheRoomState_def replay_def)
  have fin: "room_lookup rs1 = fold put_event ?es (room_lookup ?r0)" using r1(4) by (simp add: o_def)
  have "room_lookup rs1 t = room_lookup rs t" for t
  proof (cases "t \<in> room_key ` set ?es")
    case True
    then obtain e where e: "e \<in> set ?es" "t = room_key e" by blast
    then show ?thesis using fold_put_distinct [OF dk _ e(1)] mem fin by auto
  next
    case False
    then have 0: "room_lookup rs1 t = (if t = (''m.room.desc'', []) then rs_Desc rs else None)"
      using fold_put_other [OF False] r0(3) fin by simp
    show ?thesis
    proof (cases "t = (''m.room.desc'', [])")
      case True
      with 0 show ?thesis by (simp add: room_lookup_def slot_of_def slots_def slot_types_def)
    next
      case nd: False
      have "room_lookup rs t \<noteq> Some e" for e
      proof
        assume l: "room_lookup rs t = Some e"
        note k = lookup_key [OF inv(1) l]
        have "EvType e \<noteq> ''m.room.desc''" using k nd by (auto simp: room_key_def)
        then have "e \<in> set ?es" using mem k l by simp
        with False k show False by blast
      qed
      then show ?thesis using 0 nd by (cases "room_lookup rs t") auto
    qed
  qed
  moreover have "''m.room.encryption'' \<notin> EvType ` set ?es" using mem by (auto simp: room_types_def slot_types_def)
  then have "room_meta rs1 = (room, RoomNid rs, SnapId rs, IsEncrypted rs)"
    using r1(3) r0(4) by (simp add: image_image)
  ultimately show ?thesis using r1(1,2) by blast
qed

lemma joined_cong: "map_of m = map_of n \<Longrightarrow> joined d m = joined d n"
  by (simp add: joined_dom)

section \<open>Properties\<close>

text \<open>
  C24. However events arrive, the room state stays well formed: applying any sequence of events with their
  needed state keys and positive offsets to a new room succeeds, no user is in two of the maps of
  joined, left and invited users, a look-up of a member returns a member event with that state key,
  and the number of members kept for each domain is the number of joined users of that domain, so
  it is never negative.
\<close>

theorem room_state_invariant:
  assumes "\<forall>(recover, ev, offset) \<in> set evs. keyed ev \<and> 0 < offset"
  shows "\<exists>rs. foldR (\<lambda>(recover, ev, offset). onEvent env recover ev offset) evs (init room) = Inr rs \<and>
    apart (rs_join rs) (rs_leave rs) \<and> apart (rs_join rs) (rs_invite rs) \<and> apart (rs_leave rs) (rs_invite rs) \<and>
    (\<forall>k e. Member k rs = Some e \<longrightarrow> EvType e = MRoomMember \<and> StateKey e = Some k) \<and>
    (\<forall>d. member_count rs d = int (card (joined d (rs_join rs))))"
proof -
  have "\<exists>rs. foldR (\<lambda>(recover, ev, offset). onEvent env recover ev offset) evs r0 = Inr rs \<and> room_inv env rs"
    if "room_inv env r0" for r0
    using that assms
  proof (induction evs arbitrary: r0)
    case (Cons x evs)
    obtain rc ev off where x: "x = (rc, ev, off)" by (cases x)
    with onEvent_inv [OF Cons.prems(1), of ev off rc] Cons.prems(2) obtain r1
      where "onEvent env rc ev off r0 = Inr r1" "room_inv env r1" by auto
    with Cons.IH [of r1] Cons.prems(2) x show ?case by auto
  qed simp
  from this [OF init_inv] obtain rs where rs: "foldR (\<lambda>(recover, ev, offset). onEvent env recover ev offset) evs
      (init room) = Inr rs" "room_inv env rs" by blast
  have "EvType e = MRoomMember \<and> StateKey e = Some k" if "Member k rs = Some e" for k e
    using lookup_key [OF rs(2), of "(MRoomMember, k)" e] that
    by (auto simp: room_lookup_def room_key_def keyed_def split: if_splits)
  with rs show ?thesis by (auto simp: room_inv_def members_ok_def counts_ok_def)
qed


text \<open>
  A ban of a user who has left (or is banned already) is forgotten: the update stores the event in the map
  of left users and then, because the membership differs from the previous one, deletes the
  user from that map. Afterwards the room knows no member event of the user.
\<close>

theorem ban_of_left_user_forgotten:
  assumes "room_inv env rs" "EvType ev = MRoomMember" "StateKey ev = Some k" "DomainFromID k = Inr d"
    "re_membership env (Content ev) = ''ban''" "map_of (rs_leave rs) k \<noteq> None"
  shows "\<exists>rs1. onEventUpdate env ev rs = Inr rs1 \<and> Member k rs1 = None"
proof -
  obtain rs1 T where r: "onMemberEv env ev rs = Inr rs1" "rs1 = (member_step ''ban'' k ev rs)\<lparr>domainTl := T\<rparr>"
    using onMemberEv_inv [OF assms(1-3)] assms(4,5) by auto
  have mok: "members_ok env rs" using assms(1) by (simp add: room_inv_def)
  have "Member k (member_step ''ban'' k ev rs) = None"
    unfolding Member_def member_step_maps [OF mok] using assms(6) by simp
  then have "Member k rs1 = None" by (simp add: r(2) Member_def cong: option.case_cong)
  with r(1) assms(2) show ?thesis by (simp add: onEventUpdate_def)
qed

text \<open>
  C26. A room state written to the cache and read back is the same room: every single state event, the joined,
  left, invited and third-party-invited users, the room and snapshot numbers, the encryption mark
  and the number of members of every domain. The JSON codec must read back what it writes, the
  events must have distinct positive numbers and senders with a domain, and third party
  invitations tokens that are no user identifiers.
\<close>

theorem cache_roundtrip:
  assumes "\<forall>c b. json_marshal io c = Inr b \<longrightarrow> json_unmarshal io b = Inr c"
    and "flush io rs = ([SetRoomState room bytes token], rs0)" "cacheGetRoomState io room = Inr (Some bytes)"
    and "room_inv env rs" "third_plain rs" "distinct (map EventNID (cached_events (fst (serialize rs))))"
    and "\<forall>e \<in> set (cached_events (fst (serialize rs))). 0 < EventNID e \<and> (\<exists>d. DomainFromID (Sender e) = Inr d)"
  shows "\<exists>rs1. getRoomStateFromCache env io room = Inr (Some rs1) \<and> slots rs1 = slots rs \<and>
    map_of (rs_join rs1) = map_of (rs_join rs) \<and> map_of (rs_leave rs1) = map_of (rs_leave rs) \<and>
    map_of (rs_invite rs1) = map_of (rs_invite rs) \<and> map_of (thirdInvite rs1) = map_of (thirdInvite rs) \<and>
    room_meta rs1 = room_meta rs \<and> (\<forall>d. member_count rs1 d = member_count rs d)"
proof -
  let ?c = "fst (serialize rs)"
  have c: "json_unmarshal io bytes = Inr ?c" "room = roomId rs"
    using assms(1,2) by (auto simp: flush_def serialize_def Let_def split: sum.splits)
  obtain rs1 where r: "parseCacheRoomState env room ?c = Inr rs1" "room_inv env rs1"
    "room_lookup rs1 = room_lookup rs" "room_meta rs1 = (room, RoomNid rs, SnapId rs, IsEncrypted rs)"
    using parse_lookup [OF assms(4,5,7,6) refl, of room] by blast
  have ok: "members_ok env rs1" "members_ok env rs" "counts_ok rs1" "counts_ok rs"
    using r(2) assms(4) by (auto simp: room_inv_def)
  have maps: "map_of (rs_join rs1) = map_of (rs_join rs)" "map_of (rs_leave rs1) = map_of (rs_leave rs)"
    "map_of (rs_invite rs1) = map_of (rs_invite rs)"
    by (rule ext; unfold members_of_lookup [OF ok(1)] members_of_lookup [OF ok(2)] r(3); rule refl)+
  have "map_of (thirdInvite rs1) k = map_of (thirdInvite rs) k" for k
    using fun_cong [OF r(3), of "(MRoomThirdPartyInvite, k)"] by (simp add: room_lookup_def)
  moreover have "slot_of rs1 ty = slot_of rs ty" if "ty \<in> set slot_types" for ty
    using fun_cong [OF r(3), of "(ty, [])"] that by (auto simp: room_lookup_def slot_types_def)
  then have "slots rs1 = slots rs" by (simp add: slot_of_slots)
  moreover have "member_count rs1 d = member_count rs d" for d
    using ok(3,4) joined_cong [OF maps(1)] by (simp add: counts_ok_def)
  moreover have "getRoomStateFromCache env io room = Inr (Some rs1)"
    using assms(3) c(1) r(1) by (simp add: getRoomStateFromCache_def)
  ultimately show ?thesis using maps r(4) c(2) by (auto simp: room_meta_def)
qed

text \<open>
  An event for a room whose state can be loaded neither from the cache nor from the database makes
  \<open>OnEvent\<close> panic: unlike \<open>OnEventRecover\<close> it does not test the loaded state for nil.
\<close>

theorem OnEvent_unloadable_panics:
  assumes "GetRoomState env io (RoomID ev) = Inr (None, ws)" "EvType ev \<noteq> ''m.room.create''"
    "DomainFromID (Sender ev) = Inr d"
  shows "is_panic (OnEvent env io ev offset None) \<and> OnEventRecover env io ev offset = Inr (None, ws)"
  using assms by (simp add: OnEvent_def OnEventRecover_def)

end
