(* ===== verification/Sample_State.thy ===== *)
theory Sample_State
  imports Sample_Room Room_State
begin

text \<open>
  A concrete room state, built event by event, on which the properties of the room state are applied, and
  a run that shows how a forgotten ban lets the banned user back into a public room.
\<close>

definition sample_renv :: "sample_json room_env" where
  "sample_renv = \<lparr>re_create = (\<lambda>j. (None, None)),
     re_membership = (\<lambda>j. case j of JMember m \<Rightarrow> m | _ \<Rightarrow> []), re_domains = [''x'']\<rparr>"

definition numbered :: "int \<Rightarrow> string \<Rightarrow> sample_json Event \<Rightarrow> sample_json Event" where
  "numbered n i e = e\<lparr>EventNID := n, EventID := i\<rparr>"

definition sample_history :: "sample_json Event list" where
  "sample_history =
     [numbered 1 ''$1:x'' (sample_event MRoomCreate ''@a:x'' (Some []) (JCreate ''@a:x'')),
      numbered 2 ''$2:x'' (sample_event MRoomMember ''@a:x'' (Some ''@a:x'') (JMember join)),
      numbered 3 ''$3:x'' (sample_event MRoomJoinRules ''@a:x'' (Some []) (JRule public)),
      numbered 4 ''$4:x'' (sample_event MRoomMember ''@n:x'' (Some ''@n:x'') (JMember join)),
      numbered 5 ''$5:x'' (sample_event MRoomMember ''@n:x'' (Some ''@n:x'') (JMember leave))]"

definition sample_late_ban :: "sample_json Event" where
  "sample_late_ban = numbered 6 ''$6:x'' (sample_event MRoomMember ''@a:x'' (Some ''@n:x'') (JMember ban))"

definition sample_rejoin :: "sample_json Event" where
  "sample_rejoin = numbered 7 ''$7:x'' (sample_event MRoomMember ''@n:x'' (Some ''@n:x'') (JMember join))"

definition sample_run :: "sample_json Event list \<Rightarrow> sample_json RoomServerState result" where
  "sample_run evs =
     foldR (\<lambda>(ev, offset). onEvent sample_renv False ev offset) (map (\<lambda>e. (e, EventNID e)) evs) (init ''!r:x'')"

definition with_state :: "sample_json RoomServerState result \<Rightarrow> (sample_json RoomServerState \<Rightarrow> bool) \<Rightarrow> bool" where
  "with_state r P = (case r of Inl _ \<Rightarrow> False | Inr rs \<Rightarrow> P rs)"

definition sample_state :: "sample_json RoomServerState" where
  "sample_state = (case sample_run sample_history of Inr rs \<Rightarrow> rs | Inl _ \<Rightarrow> init ''!r:x'')"

text \<open>A cache that holds the sample state, and a cache and database that answer nothing.\<close>

definition sample_io :: "(sample_json, sample_json cached_room) room_io" where
  "sample_io = \<lparr>cacheGetRoomState = (\<lambda>r. Inr (Some (fst (serialize sample_state)))),
     cacheGetRoomStateExt = (\<lambda>r. Inr None), dbGetRoomStates = (\<lambda>r. Inl (Error ''down'')),
     dbRoomInfo = (\<lambda>r. Inl (Error ''down'')), dbGetRoomDomainsOffset = (\<lambda>n. Inl (Error ''down'')),
     json_marshal = (\<lambda>c. Inr c), json_unmarshal = (\<lambda>c. Inr c)\<rparr>"

definition down_io :: "(sample_json, sample_json cached_room) room_io" where
  "down_io = sample_io\<lparr>cacheGetRoomState := (\<lambda>r. Inl (Error ''down''))\<rparr>"

section \<open>Evaluation\<close>

lemma sample_rejoin_accepted:
  "with_state (sample_run (sample_history @ [sample_late_ban]))
     (\<lambda>rs. fst (Allowed sample_env sample_rejoin (room_provider rs) no_skip) = Inr ())"
  by code_simp

lemma sample_ban_allowed:
  "with_state (sample_run sample_history)
     (\<lambda>rs. fst (Allowed sample_env sample_late_ban (room_provider rs) no_skip) = Inr ())"
  by code_simp

lemma sample_rejoin_refused:
  "fst (Allowed sample_env sample_rejoin
     (AuthEvents_provider (NewAuthEvents (sample_history @ [sample_late_ban]))) no_skip) \<noteq> Inr ()"
  by code_simp

lemma sample_domains:
  "DomainFromID ''@a:x'' = Inr ''x''" "DomainFromID ''@n:x'' = Inr ''x''"
  by (simp_all add: DomainFromID_def splitN2_def)

lemma sample_run_ok: "run_ok sample_renv Map.empty sample_history"
  by (simp add: sample_history_def numbered_def sample_event_def sample_renv_def sample_domains well_keyed_def
      fresh_ban_def accepted_def put_event_def room_key_def room_types_def slot_types_def)

lemma sample_history_keys: "\<forall>e \<in> set sample_history. auth_keyed e \<and> 0 < EventNID e"
  by (simp add: sample_history_def numbered_def sample_event_def auth_keyed_def)

lemma sample_state_run: "sample_run sample_history = Inr sample_state" "room_inv sample_renv sample_state"
  "third_plain sample_state"
proof -
  have f: "map fst (map (\<lambda>e. (e, EventNID e)) sample_history) = sample_history" by (simp add: o_def)
  obtain rs where "sample_run sample_history = Inr rs" "room_inv sample_renv rs" "third_plain rs"
    using run_lookup [OF init_inv init_plain(1), of sample_renv "''!r:x''" "map (\<lambda>e. (e, EventNID e)) sample_history" False,
        unfolded f init_plain(2)] sample_run_ok sample_history_keys by (auto simp: sample_run_def)
  then show "sample_run sample_history = Inr sample_state" "room_inv sample_renv sample_state" "third_plain sample_state"
    by (simp_all add: sample_state_def)
qed

lemma sample_left: "map_of (rs_leave sample_state) ''@n:x'' \<noteq> None"
  by code_simp

lemma sample_cached:
  "distinct (map EventNID (cached_events (fst (serialize sample_state))))"
  "\<forall>e \<in> set (cached_events (fst (serialize sample_state))). 0 < EventNID e \<and> Sender e \<in> {''@a:x'', ''@n:x''}"
  by code_simp+

section \<open>Properties\<close>


section \<open>Witnesses\<close>

theorem room_state_invariant_witness:
  "\<exists>rs. foldR (\<lambda>(recover, ev, offset). onEvent sample_renv recover ev offset)
      [(False, sample_late_ban, 6)] (init ''!r:x'') = Inr rs \<and>
    apart (rs_join rs) (rs_leave rs) \<and> member_count rs ''x'' = int (card (joined ''x'' (rs_join rs)))"
proof -
  have "\<forall>(recover, ev, offset) \<in> set [(False, sample_late_ban, 6)]. keyed ev \<and> (0 :: int) < offset"
    by (simp add: sample_late_ban_def numbered_def sample_event_def keyed_def)
  from room_state_invariant [OF this, of sample_renv "''!r:x''"] show ?thesis by blast
qed


theorem ban_of_left_user_forgotten_witness:
  "\<exists>rs1. onEventUpdate sample_renv sample_late_ban sample_state = Inr rs1 \<and> Member ''@n:x'' rs1 = None"
  by (rule ban_of_left_user_forgotten [OF sample_state_run(2) _ _ sample_domains(2) _ sample_left])
    (simp_all add: sample_late_ban_def numbered_def sample_event_def sample_renv_def)

theorem cache_roundtrip_witness:
  "\<exists>rs1. getRoomStateFromCache sample_renv sample_io (roomId sample_state) = Inr (Some rs1) \<and>
    slots rs1 = slots sample_state \<and> map_of (rs_leave rs1) = map_of (rs_leave sample_state)"
proof -
  have 1: "\<forall>c b. json_marshal sample_io c = Inr b \<longrightarrow> json_unmarshal sample_io b = Inr c"
    by (simp add: sample_io_def)
  have 2: "flush sample_io sample_state = ([SetRoomState (roomId sample_state) (fst (serialize sample_state))
      (calcToken (snd (serialize sample_state)))], snd (serialize sample_state))"
    by (simp add: flush_def sample_io_def serialize_def Let_def)
  have 3: "cacheGetRoomState sample_io (roomId sample_state) = Inr (Some (fst (serialize sample_state)))"
    by (simp add: sample_io_def)
  have 4: "\<forall>e \<in> set (cached_events (fst (serialize sample_state))). 0 < EventNID e \<and> (\<exists>d. DomainFromID (Sender e) = Inr d)"
    using sample_cached(2) sample_domains by auto
  from cache_roundtrip [OF 1 2 3 sample_state_run(2,3) sample_cached(1) 4] show ?thesis by blast
qed

theorem OnEvent_unloadable_panics_witness:
  "is_panic (OnEvent sample_renv down_io sample_late_ban 6 None) \<and>
    OnEventRecover sample_renv down_io sample_late_ban 6 = Inr (None, [])"
proof (rule OnEvent_unloadable_panics)
  show "GetRoomState sample_renv down_io (RoomID sample_late_ban) = Inr (None, [])"
    by (simp add: GetRoomState_def load_state_def getRoomStateFromCache_def getRoomStateFromDb_def down_io_def
        sample_io_def)
  show "DomainFromID (Sender sample_late_ban) = Inr ''x''"
    by (simp add: sample_late_ban_def numbered_def sample_event_def sample_domains)
qed (simp add: sample_late_ban_def numbered_def sample_event_def)

end
