(* ===== verification/Friendship.thy ===== *)
theory Friendship
  imports Domains Matrix_Events Actions
begin

text \<open>
  Direct rooms between two users (\<open>src/rcsserver\<close>): the friendship table with its statements
  (\<open>src/storage/implements/rcs_server/friendship.go\<close>), the helpers of \<open>util.go\<close>, and the event processor
  with the delegate of its state machine. Two users who invite each other at the same time
  have two rooms (glare); the processor gives one of them up.
  The handlers are actions: what they wrote to the table before an error stays written. The state machine library and the JSON codec are arguments. A
  statement fails only on a missing row or on a violated unique index.
\<close>

section \<open>Model\<close>

subsection \<open>The table\<close>

record RCSFriendship =
  f_ID :: string
  f_RoomID :: string
  FcID :: string
  ToFcID :: string
  FcIDState :: string
  ToFcIDState :: string
  FcIDIsBot :: bool
  ToFcIDIsBot :: bool
  FcIDRemark :: string
  ToFcIDRemark :: string
  FcIDOnceJoined :: bool
  ToFcIDOnceJoined :: bool
  FcIDDomain :: string
  ToFcIDDomain :: string
  f_EventID :: string

text \<open>The rows in the order in which the database returns them, and the number of identifiers taken.\<close>

record rcs_state =
  rows :: "RCSFriendship list"
  taken :: nat

definition InsertFriendship :: "RCSFriendship \<Rightarrow> (unit, rcs_state) action" where
  "InsertFriendship f s =
     (if \<exists>r \<in> set (rows s). f_ID r = f_ID f \<or> f_RoomID r = f_RoomID f
      then (Inl (Error ''duplicate key value''), s)
      else (Inr (), s\<lparr>rows := rows s @ [f]\<rparr>))"

definition GetFriendshipByRoomID :: "string \<Rightarrow> (RCSFriendship, rcs_state) action" where
  "GetFriendshipByRoomID room s =
     (case find (\<lambda>r. f_RoomID r = room) (rows s) of None \<Rightarrow> (Inl ErrNoRows, s) | Some r \<Rightarrow> (Inr r, s))"

definition GetFriendshipByFcIDAndToFcID :: "string \<Rightarrow> string \<Rightarrow> (RCSFriendship, rcs_state) action" where
  "GetFriendshipByFcIDAndToFcID fc toFc s =
     (case find (\<lambda>r. FcID r = fc \<and> ToFcID r = toFc) (rows s) of
        None \<Rightarrow> (Inl ErrNoRows, s) | Some r \<Rightarrow> (Inr r, s))"

text \<open>The row of the room is replaced; no such row is no error.\<close>

definition UpdateFriendshipByRoomID :: "RCSFriendship \<Rightarrow> (unit, rcs_state) action" where
  "UpdateFriendshipByRoomID f s =
     (if (\<exists>r \<in> set (rows s). f_RoomID r = f_RoomID f) \<and>
         (\<exists>r \<in> set (rows s). f_RoomID r \<noteq> f_RoomID f \<and> f_ID r = f_ID f)
      then (Inl (Error ''duplicate key value''), s)
      else (Inr (), s\<lparr>rows := map (\<lambda>r. if f_RoomID r = f_RoomID f then f else r) (rows s)\<rparr>))"

definition DeleteFriendshipByRoomID :: "string \<Rightarrow> (unit, rcs_state) action" where
  "DeleteFriendshipByRoomID room s = (Inr (), s\<lparr>rows := filter (\<lambda>r. f_RoomID r \<noteq> room) (rows s)\<rparr>)"

definition NotFound :: "go_error \<Rightarrow> bool" where
  "NotFound err \<longleftrightarrow> err = ErrNoRows"

text \<open>The friends of a user: the rooms where the user is joined and the other one is or once was.\<close>

definition selectFriendshipsByFcIDOrToFcID :: "string \<Rightarrow> rcs_state \<Rightarrow> (string \<times> string \<times> string \<times> bool \<times> string) set" where
  "selectFriendshipsByFcIDOrToFcID user s =
     set (map (\<lambda>r. (f_RoomID r, FcID r, ToFcID r, ToFcIDIsBot r, ToFcIDRemark r))
       (filter (\<lambda>r. FcID r = user \<and> FcIDState r = ''join'' \<and>
          ((ToFcIDState r = ''join'' \<and> \<not> ToFcIDOnceJoined r) \<or> ToFcIDOnceJoined r)) (rows s))) \<union>
     set (map (\<lambda>r. (f_RoomID r, ToFcID r, FcID r, FcIDIsBot r, FcIDRemark r))
       (filter (\<lambda>r. ToFcID r = user \<and> ToFcIDState r = ''join'' \<and>
          ((FcIDState r = ''join'' \<and> \<not> FcIDOnceJoined r) \<or> FcIDOnceJoined r)) (rows s)))"

subsection \<open>Helpers\<close>

definition isBot :: "string \<Rightarrow> bool" where
  "isBot account = str_contains account ''-bot:''"

definition getUsername :: "string \<Rightarrow> string result" where
  "getUsername account =
     (if CHR '':'' \<notin> set account then Inr []
      else (case takeWhile (\<lambda>c. c \<noteq> CHR '':'') account of
              [] \<Rightarrow> Inl (Panic ''slice bounds out of range'')
            | _ # name \<Rightarrow> Inr name))"

definition getDomain :: "string \<Rightarrow> string" where
  "getDomain account = (case DomainFromID account of Inr d \<Rightarrow> d | Inl _ \<Rightarrow> [])"

definition getID :: "string \<Rightarrow> string \<Rightarrow> string" where
  "getID fc toFc = (if fc < toFc then fc @ toFc else toFc @ fc)"

text \<open>
  The environment: what the codec reads from a member content, the content it writes for a membership, the
  identifiers of the generator in turn, the local domains, and the state machine library, which
  selects a transition from the table for a state and an event.
\<close>

record Transition =
  From :: string
  tr_Event :: string
  To :: string
  Action :: string

record 'c rcs_env =
  rcs_codec :: "'c codec"
  rcs_displayname :: "'c \<Rightarrow> string"
  rcs_member_content :: "string \<Rightarrow> 'c result"
  rcs_null :: 'c
  rcs_nid :: "nat \<Rightarrow> int"
  rcs_ServerName :: "string list"
  findTransMatching :: "Transition list \<Rightarrow> string \<Rightarrow> string \<Rightarrow> Transition option"

definition remark :: "'c rcs_env \<Rightarrow> string \<Rightarrow> 'c Event \<Rightarrow> string result" where
  "remark env account ev =
     (if rcs_displayname env (Content ev) \<noteq> [] then Inr (rcs_displayname env (Content ev)) else getUsername account)"

subsection \<open>The delegate of the state machine\<close>

abbreviation (input) ST_INIT :: string where "ST_INIT \<equiv> ''init''"
abbreviation (input) ST_INVITE :: string where "ST_INVITE \<equiv> ''invite''"
abbreviation (input) ST_JOIN :: string where "ST_JOIN \<equiv> ''join''"
abbreviation (input) ST_LEAVE :: string where "ST_LEAVE \<equiv> ''leave''"
abbreviation (input) OP_JOIN :: string where "OP_JOIN \<equiv> ''join''"
abbreviation (input) OP_INVITE :: string where "OP_INVITE \<equiv> ''invite''"
abbreviation (input) OP_LEAVE :: string where "OP_LEAVE \<equiv> ''leave''"
abbreviation (input) ACT_DEFAULT :: string where "ACT_DEFAULT \<equiv> ''update database''"
abbreviation (input) ACT_IGNORE :: string where "ACT_IGNORE \<equiv> ''ignore''"
abbreviation (input) ACT_JOIN :: string where "ACT_JOIN \<equiv> ''join''"
abbreviation (input) ACT_INVITE :: string where "ACT_INVITE \<equiv> ''invite''"

text \<open>The side of the user in the row gets the new state and remark; the marks and domains are written anew.\<close>

definition set_side ::
  "'c rcs_env \<Rightarrow> string \<Rightarrow> string \<Rightarrow> bool \<Rightarrow> RCSFriendship \<Rightarrow> 'c Event \<Rightarrow> RCSFriendship result" where
  "set_side env toState stateKey isCreator f ev =
     bindR (remark env stateKey ev) (\<lambda>rm.
       Inr (if isCreator then
              f\<lparr>FcID := stateKey, FcIDState := toState, FcIDIsBot := isBot stateKey, ToFcIDIsBot := isBot (ToFcID f),
                FcIDRemark := rm, FcIDDomain := getDomain stateKey, ToFcIDDomain := getDomain (ToFcID f),
                f_EventID := EventID ev\<rparr>
            else
              f\<lparr>ToFcID := stateKey, ToFcIDState := toState, FcIDIsBot := isBot (FcID f), ToFcIDIsBot := isBot stateKey,
                ToFcIDRemark := rm, FcIDDomain := getDomain (FcID f), ToFcIDDomain := getDomain stateKey,
                f_EventID := EventID ev\<rparr>))"

definition handleJoinOperation ::
  "'c rcs_env \<Rightarrow> string \<Rightarrow> string \<Rightarrow> bool \<Rightarrow> RCSFriendship \<Rightarrow> 'c Event \<Rightarrow> (unit, rcs_state) action" where
  "handleJoinOperation env toState stateKey isCreator f ev =
     bindS (liftS (set_side env toState stateKey isCreator f ev)) (\<lambda>r.
       UpdateFriendshipByRoomID
         (if isCreator then r\<lparr>FcIDOnceJoined := True\<rparr> else r\<lparr>ToFcIDOnceJoined := True\<rparr>))"

definition handleInviteOperation ::
  "'c rcs_env \<Rightarrow> string \<Rightarrow> string \<Rightarrow> string \<Rightarrow> bool \<Rightarrow> RCSFriendship \<Rightarrow> 'c Event \<Rightarrow> (unit, rcs_state) action" where
  "handleInviteOperation env toState sender stateKey isCreator f ev =
     bindS (liftS (set_side env toState stateKey isCreator f ev)) (\<lambda>r.
       UpdateFriendshipByRoomID
         (r\<lparr>f_ID := (if sender \<noteq> stateKey then getID sender stateKey else f_ID f)\<rparr>))"

definition handleNormalOperation ::
  "'c rcs_env \<Rightarrow> string \<Rightarrow> string \<Rightarrow> bool \<Rightarrow> RCSFriendship \<Rightarrow> 'c Event \<Rightarrow> (unit, rcs_state) action" where
  "handleNormalOperation env toState stateKey isCreator f ev =
     bindS (liftS (set_side env toState stateKey isCreator f ev)) UpdateFriendshipByRoomID"

definition HandleEvent ::
  "'c rcs_env \<Rightarrow> string \<Rightarrow> string \<Rightarrow> string \<Rightarrow> string \<Rightarrow> bool \<Rightarrow> RCSFriendship \<Rightarrow> 'c Event \<Rightarrow> (unit, rcs_state) action" where
  "HandleEvent env action toState sender stateKey stateKeyIsCreator f ev =
     (if action = ACT_IGNORE then returnS ()
      else if action = ACT_JOIN then handleJoinOperation env toState stateKey stateKeyIsCreator f ev
      else if action = ACT_INVITE then handleInviteOperation env toState sender stateKey stateKeyIsCreator f ev
      else if action = ACT_DEFAULT then handleNormalOperation env toState stateKey stateKeyIsCreator f ev
      else returnS ())"

definition transition :: "string \<Rightarrow> string \<Rightarrow> string \<Rightarrow> string \<Rightarrow> Transition" where
  "transition f e t a = \<lparr>From = f, tr_Event = e, To = t, Action = a\<rparr>"

definition NewFSM :: "Transition list" where
  "NewFSM =
     [transition ST_INIT OP_JOIN ST_JOIN ACT_JOIN,
      transition ST_INIT OP_INVITE ST_INVITE ACT_INVITE,
      transition ST_JOIN OP_LEAVE ST_LEAVE ACT_DEFAULT,
      transition ST_INVITE OP_JOIN ST_JOIN ACT_JOIN,
      transition ST_INVITE OP_LEAVE ST_LEAVE ACT_DEFAULT,
      transition ST_LEAVE OP_INVITE ST_INVITE ACT_INVITE,
      transition ST_JOIN OP_JOIN ST_JOIN ACT_IGNORE,
      transition ST_INVITE OP_INVITE ST_INVITE ACT_IGNORE,
      transition ST_LEAVE OP_LEAVE ST_LEAVE ACT_IGNORE]"

text \<open>The call of the library: no transition is an error, otherwise the delegate handles the action.\<close>

definition Trigger ::
  "'c rcs_env \<Rightarrow> string \<Rightarrow> string \<Rightarrow> string \<Rightarrow> string \<Rightarrow> bool \<Rightarrow> RCSFriendship \<Rightarrow> 'c Event \<Rightarrow> (unit, rcs_state) action" where
  "Trigger env st op sender stateKey stateKeyIsCreator f ev =
     (case findTransMatching env NewFSM st op of
        None \<Rightarrow> liftS (Inl (Error ''cannot convert the state''))
      | Some t \<Rightarrow> HandleEvent env (Action t) (To t) sender stateKey stateKeyIsCreator f ev)"

subsection \<open>The event processor\<close>

definition HandleCreate :: "'c Event \<Rightarrow> ('c Event list, rcs_state) action" where
  "HandleCreate ev =
     bindS (InsertFriendship
       \<lparr>f_ID = EventID ev, f_RoomID = RoomID ev, FcID = Sender ev, ToFcID = [], FcIDState = ST_INIT,
        ToFcIDState = ST_INIT, FcIDIsBot = False, ToFcIDIsBot = False, FcIDRemark = [], ToFcIDRemark = [],
        FcIDOnceJoined = False, ToFcIDOnceJoined = False, FcIDDomain = [], ToFcIDDomain = [],
        f_EventID = EventID ev\<rparr>) (\<lambda>_. returnS [ev])"

definition next_nid :: "'c rcs_env \<Rightarrow> (int, rcs_state) action" where
  "next_nid env s = (Inr (rcs_nid env (taken s)), s\<lparr>taken := taken s + 1\<rparr>)"

definition BuildEvent :: "'c rcs_env \<Rightarrow> 'c EventBuilder \<Rightarrow> string \<Rightarrow> ('c Event, rcs_state) action" where
  "BuildEvent env eb domain = bindS (next_nid env) (\<lambda>nid. liftS (Build eb nid domain))"

definition buildEvent ::
  "'c rcs_env \<Rightarrow> string \<Rightarrow> string \<Rightarrow> string \<Rightarrow> string \<Rightarrow> ('c Event, rcs_state) action" where
  "buildEvent env sender room stateKey membership =
     bindS (liftS (rcs_member_content env membership)) (\<lambda>c.
       BuildEvent env
         \<lparr>eb_Sender = sender, eb_RoomID = room, eb_Type = MRoomMember, eb_StateKey = Some stateKey,
          eb_Redacts = [], eb_Depth = 0, eb_DomainOffset = 0, eb_Content = c, eb_Unsigned = rcs_null env,
          eb_RedactsSender = []\<rparr> (getDomain sender))"

definition local_domain :: "'c rcs_env \<Rightarrow> string \<Rightarrow> bool" where
  "local_domain env user = in_domains (getDomain user) (rcs_ServerName env)"

text \<open>Marks and domains written anew for both sides of a row.\<close>

definition fresh_marks :: "'c Event \<Rightarrow> RCSFriendship \<Rightarrow> RCSFriendship" where
  "fresh_marks ev f =
     f\<lparr>FcIDIsBot := isBot (FcID f), ToFcIDIsBot := isBot (ToFcID f), FcIDDomain := getDomain (FcID f),
       ToFcIDDomain := getDomain (ToFcID f), f_EventID := EventID ev\<rparr>"

text \<open>A member who left invites the other one: they join first, and the other one is invited if they left too.\<close>

definition invite_after_leave ::
  "'c rcs_env \<Rightarrow> 'c Event \<Rightarrow> string \<Rightarrow> string \<Rightarrow> bool \<Rightarrow> RCSFriendship \<Rightarrow> ('c Event list, rcs_state) action" where
  "invite_after_leave env ev stateKey stateKeySt senderIsCreator f =
     bindS (buildEvent env (Sender ev) (RoomID ev) (Sender ev) ''invite'') (\<lambda>e1.
     bindS (buildEvent env (Sender ev) (RoomID ev) (Sender ev) ''join'') (\<lambda>e2.
     bindS (if stateKeySt = ST_LEAVE
            then bindS (buildEvent env (Sender ev) (RoomID ev) stateKey ''invite'') (\<lambda>e3. returnS (ST_INVITE, [e1, e2, e3]))
            else returnS (stateKeySt, [e1, e2])) (\<lambda>(newSt, evs).
     bindS (UpdateFriendshipByRoomID
             (fresh_marks ev (if senderIsCreator then f\<lparr>FcIDState := ST_JOIN, ToFcIDState := newSt\<rparr>
                              else f\<lparr>FcIDState := newSt, ToFcIDState := ST_JOIN\<rparr>))) (\<lambda>_.
       returnS evs))))"

definition handleNormalMembership :: "'c rcs_env \<Rightarrow> 'c Event \<Rightarrow> ('c Event list, rcs_state) action" where
  "handleNormalMembership env ev s =
     (case StateKey ev of
        None \<Rightarrow> (Inl (Error ''StateKey is nil''), s)
      | Some stateKey \<Rightarrow>
          (case EventMembership (rcs_codec env) ev of
             Inl e \<Rightarrow> (Inl e, s)
           | Inr op \<Rightarrow>
               (case GetFriendshipByRoomID (RoomID ev) s of
                  (Inl e, s1) \<Rightarrow>
                    if NotFound e \<and> op = OP_LEAVE \<and> \<not> local_domain env (Sender ev) then (Inr [ev], s1) else (Inl e, s1)
                | (Inr f, s1) \<Rightarrow>
                    (let senderIsCreator = (Sender ev = FcID f);
                         senderSt = (if senderIsCreator then FcIDState f else ToFcIDState f);
                         stateKeyIsCreator = (stateKey = FcID f);
                         stateKeySt = (if stateKeyIsCreator then FcIDState f else ToFcIDState f)
                     in if local_domain env (Sender ev) \<and> senderSt = ST_LEAVE \<and> op = OP_INVITE \<and> Sender ev \<noteq> stateKey
                        then invite_after_leave env ev stateKey stateKeySt senderIsCreator f s1
                        else bindS (Trigger env stateKeySt op (Sender ev) stateKey stateKeyIsCreator f ev)
                               (\<lambda>_. returnS [ev]) s1))))"

text \<open>Another room of the two users, in the other direction.\<close>

definition other_room :: "string \<Rightarrow> string \<Rightarrow> (RCSFriendship option, rcs_state) action" where
  "other_room fc toFc s =
     (case GetFriendshipByFcIDAndToFcID fc toFc s of
        (Inl e, s1) \<Rightarrow> if NotFound e then (Inr None, s1) else (Inl e, s1)
      | (Inr f, s1) \<Rightarrow> (Inr (Some f), s1))"

text \<open>Glare on a federated invitation: the smaller room identifier wins.\<close>

definition fed_glare ::
  "'c rcs_env \<Rightarrow> 'c Event \<Rightarrow> string \<Rightarrow> string \<Rightarrow> ('c Event list, rcs_state) action" where
  "fed_glare env ev stateKey room2 =
     (let fcID1 = Sender ev; room1 = RoomID ev in
      if room1 < room2 then
        bindS (DeleteFriendshipByRoomID room2) (\<lambda>_.
        bindS (GetFriendshipByRoomID room1) (\<lambda>f1.
        bindS (liftS (remark env stateKey ev)) (\<lambda>rm.
        bindS (UpdateFriendshipByRoomID
                 (f1\<lparr>f_ID := getID fcID1 stateKey, f_RoomID := room1, FcID := fcID1, ToFcID := stateKey,
                    ToFcIDState := ST_JOIN, FcIDIsBot := isBot fcID1, ToFcIDIsBot := isBot stateKey,
                    ToFcIDRemark := rm, FcIDOnceJoined := True, ToFcIDOnceJoined := True,
                    FcIDDomain := getDomain fcID1, ToFcIDDomain := getDomain stateKey,
                    f_EventID := EventID ev\<rparr>)) (\<lambda>_.
        bindS (buildEvent env stateKey room2 stateKey ''leave'') (\<lambda>e1.
        bindS (buildEvent env stateKey room1 stateKey ''join'') (\<lambda>e2. returnS [e1, e2]))))))
      else
        bindS (DeleteFriendshipByRoomID room1) (\<lambda>_.
        bindS (buildEvent env stateKey room1 stateKey ''leave'') (\<lambda>e. returnS [e])))"

definition handleFedInvite :: "'c rcs_env \<Rightarrow> string \<Rightarrow> 'c Event \<Rightarrow> ('c Event list, rcs_state) action" where
  "handleFedInvite env stateKey ev =
     bindS (other_room stateKey (Sender ev)) (\<lambda>f2.
       case f2 of
         Some f \<Rightarrow> if f_RoomID f \<noteq> RoomID ev then fed_glare env ev stateKey (f_RoomID f)
                    else handleNormalMembership env ev
       | None \<Rightarrow> handleNormalMembership env ev)"

text \<open>Glare on a local invitation: the invitation is dropped and the sender joins the other room.\<close>

definition local_glare ::
  "'c rcs_env \<Rightarrow> 'c Event \<Rightarrow> RCSFriendship \<Rightarrow> ('c Event list, rcs_state) action" where
  "local_glare env ev f2 =
     (let fcID1 = Sender ev; room1 = RoomID ev; room2 = f_RoomID f2 in
      bindS (DeleteFriendshipByRoomID room1) (\<lambda>_.
      bindS (buildEvent env fcID1 room1 fcID1 ''leave'') (\<lambda>e1.
      bindS (liftS (getUsername (ToFcID f2))) (\<lambda>rm.
      bindS (UpdateFriendshipByRoomID
               (fresh_marks ev (f2\<lparr>ToFcIDState := ST_JOIN, ToFcIDRemark := rm, ToFcIDOnceJoined := True\<rparr>))) (\<lambda>_.
      bindS (buildEvent env fcID1 room2 fcID1 ''join'') (\<lambda>e2. returnS [e1, e2]))))))"

text \<open>An invitation from a user who is invited themselves is taken as their join.\<close>

definition invited_joins ::
  "'c rcs_env \<Rightarrow> 'c Event \<Rightarrow> ('c Event list, rcs_state) action" where
  "invited_joins env ev =
     (let fcID1 = Sender ev; room1 = RoomID ev in
      bindS (GetFriendshipByRoomID room1) (\<lambda>f1.
        if fcID1 = FcID f1 \<and> FcIDState f1 = ST_INVITE then
          bindS (UpdateFriendshipByRoomID (fresh_marks ev (f1\<lparr>FcIDState := ST_JOIN, FcIDOnceJoined := True\<rparr>))) (\<lambda>_.
          bindS (buildEvent env fcID1 room1 fcID1 ''join'') (\<lambda>e. returnS [e]))
        else if fcID1 \<noteq> FcID f1 \<and> ToFcIDState f1 = ST_INVITE then
          bindS (UpdateFriendshipByRoomID (fresh_marks ev (f1\<lparr>ToFcIDState := ST_JOIN, ToFcIDOnceJoined := True\<rparr>))) (\<lambda>_.
          bindS (buildEvent env fcID1 room1 fcID1 ''join'') (\<lambda>e. returnS [e]))
        else returnS []))"

definition handleLocalInvite :: "'c rcs_env \<Rightarrow> string \<Rightarrow> 'c Event \<Rightarrow> ('c Event list, rcs_state) action" where
  "handleLocalInvite env stateKey ev =
     bindS (other_room stateKey (Sender ev)) (\<lambda>f2.
       if (case f2 of Some f \<Rightarrow> f_RoomID f \<noteq> RoomID ev | None \<Rightarrow> False) then local_glare env ev (the f2)
       else
         bindS (invited_joins env ev) (\<lambda>evs.
           if evs \<noteq> [] then returnS evs else handleNormalMembership env ev))"

definition handleInvite :: "'c rcs_env \<Rightarrow> 'c Event \<Rightarrow> ('c Event list, rcs_state) action" where
  "handleInvite env ev =
     (case StateKey ev of
        None \<Rightarrow> liftS (Inl (Error ''State key is nil''))
      | Some stateKey \<Rightarrow>
          if local_domain env (Sender ev) then handleLocalInvite env stateKey ev else handleFedInvite env stateKey ev)"

definition HandleMembership :: "'c rcs_env \<Rightarrow> 'c Event \<Rightarrow> ('c Event list, rcs_state) action" where
  "HandleMembership env ev =
     bindS (liftS (EventMembership (rcs_codec env) ev)) (\<lambda>m.
       if m = ''invite'' then handleInvite env ev else handleNormalMembership env ev)"

definition handleEvent :: "'c rcs_env \<Rightarrow> 'c Event \<Rightarrow> ('c Event list, rcs_state) action" where
  "handleEvent env ev =
     (if EvType ev = MRoomCreate then HandleCreate ev
      else if EvType ev = MRoomMember then HandleMembership env ev
      else returnS [ev])"

section \<open>Specification\<close>

text \<open>What the documentation of the state machine library says of the selection of a transition.\<close>

definition fsm_documented :: "'c rcs_env \<Rightarrow> bool" where
  "fsm_documented env \<longleftrightarrow>
     (\<forall>ts st op. findTransMatching env ts st op = find (\<lambda>t. From t = st \<and> tr_Event t = op) ts)"

definition member_states :: "string set" where
  "member_states = {ST_INIT, ST_INVITE, ST_JOIN, ST_LEAVE}"

definition row_ok :: "RCSFriendship \<Rightarrow> bool" where
  "row_ok r \<longleftrightarrow> FcIDState r \<in> member_states \<and> ToFcIDState r \<in> member_states"

definition table_ok :: "rcs_state \<Rightarrow> bool" where
  "table_ok s \<longleftrightarrow> distinct (map f_ID (rows s)) \<and> distinct (map f_RoomID (rows s)) \<and> (\<forall>r \<in> set (rows s). row_ok r)"

definition rooms :: "rcs_state \<Rightarrow> string set" where
  "rooms s = f_RoomID ` set (rows s)"

text \<open>The row after each of the four events.\<close>

definition created :: "'c Event \<Rightarrow> RCSFriendship" where
  "created ev = \<lparr>f_ID = EventID ev, f_RoomID = RoomID ev, FcID = Sender ev, ToFcID = [], FcIDState = ST_INIT,
     ToFcIDState = ST_INIT, FcIDIsBot = False, ToFcIDIsBot = False, FcIDRemark = [], ToFcIDRemark = [],
     FcIDOnceJoined = False, ToFcIDOnceJoined = False, FcIDDomain = [], ToFcIDDomain = [], f_EventID = EventID ev\<rparr>"

text \<open>The row after a join and after an invitation.\<close>

definition joined_row :: "'c Event \<Rightarrow> string \<Rightarrow> string \<Rightarrow> RCSFriendship \<Rightarrow> RCSFriendship" where
  "joined_row ev k rm f =
     (if k = FcID f then
        f\<lparr>FcIDState := ST_JOIN, FcIDIsBot := isBot k, ToFcIDIsBot := isBot (ToFcID f), FcIDRemark := rm,
          FcIDDomain := getDomain k, ToFcIDDomain := getDomain (ToFcID f), f_EventID := EventID ev, FcIDOnceJoined := True\<rparr>
      else
        f\<lparr>ToFcID := k, ToFcIDState := ST_JOIN, FcIDIsBot := isBot (FcID f), ToFcIDIsBot := isBot k, ToFcIDRemark := rm,
          FcIDDomain := getDomain (FcID f), ToFcIDDomain := getDomain k, f_EventID := EventID ev, ToFcIDOnceJoined := True\<rparr>)"

definition invited_row :: "'c Event \<Rightarrow> string \<Rightarrow> string \<Rightarrow> RCSFriendship \<Rightarrow> RCSFriendship" where
  "invited_row ev k rm f =
     f\<lparr>ToFcID := k, ToFcIDState := ST_INVITE, FcIDIsBot := isBot (FcID f), ToFcIDIsBot := isBot k, ToFcIDRemark := rm,
       FcIDDomain := getDomain (FcID f), ToFcIDDomain := getDomain k, f_EventID := EventID ev, f_ID := getID (Sender ev) k\<rparr>"

section \<open>Lemmas\<close>

section \<open>The table invariant\<close>

lemma safe_get:
  "safe table_ok (GetFriendshipByRoomID room) row_ok"
  "safe table_ok (GetFriendshipByFcIDAndToFcID fc toFc) row_ok"
  by (auto simp: safe_def GetFriendshipByRoomID_def GetFriendshipByFcIDAndToFcID_def table_ok_def find_Some_iff
      split: option.split)

lemma distinct_update:
  assumes "distinct (map f_ID xs)" "distinct (map f_RoomID xs)"
    and "\<not> (\<exists>r \<in> set xs. f_RoomID r \<noteq> f_RoomID f \<and> f_ID r = f_ID f)"
  shows "distinct (map f_ID (map (\<lambda>r. if f_RoomID r = f_RoomID f then f else r) xs))"
  using assms
proof (induction xs)
  case (Cons x xs)
  let ?u = "\<lambda>r. if f_RoomID r = f_RoomID f then f else r"
  have "f_ID (?u x) \<notin> f_ID ` ?u ` set xs"
  proof
    assume "f_ID (?u x) \<in> f_ID ` ?u ` set xs"
    then obtain y where y: "y \<in> set xs" "f_ID (?u x) = f_ID (?u y)" by auto
    have "f_ID x \<noteq> f_ID y" "f_RoomID x \<noteq> f_RoomID y" using Cons.prems(1,2) y(1) by auto
    with y Cons.prems(3) show False by (auto split: if_splits)
  qed
  moreover have "distinct (map f_ID (map ?u xs))" using Cons by simp
  ultimately show ?case by (simp only: list.map distinct.simps set_map simp_thms)
qed simp

lemma safe_update:
  assumes "row_ok f"
  shows "safe table_ok (UpdateFriendshipByRoomID f) (\<lambda>_. True)"
proof -
  have "table_ok (snd (UpdateFriendshipByRoomID f s))" if ok: "table_ok s" for s
  proof (cases "(\<exists>r \<in> set (rows s). f_RoomID r = f_RoomID f) \<and>
      (\<exists>r \<in> set (rows s). f_RoomID r \<noteq> f_RoomID f \<and> f_ID r = f_ID f)")
    case True
    then show ?thesis using ok by (simp add: UpdateFriendshipByRoomID_def)
  next
    case False
    let ?u = "\<lambda>r. if f_RoomID r = f_RoomID f then f else r"
    have eq: "snd (UpdateFriendshipByRoomID f s) = s\<lparr>rows := map ?u (rows s)\<rparr>"
      "rows (s\<lparr>rows := map ?u (rows s)\<rparr>) = map ?u (rows s)"
      using False by (simp only: UpdateFriendshipByRoomID_def if_False snd_conv) simp
    have 1: "distinct (map f_ID (map ?u (rows s)))"
    proof (cases "\<exists>r \<in> set (rows s). f_RoomID r = f_RoomID f")
      case True
      with False show ?thesis using ok by (intro distinct_update) (auto simp: table_ok_def)
    next
      case none: False
      then have "map ?u (rows s) = rows s" by (intro map_idI) auto
      then show ?thesis using ok by (simp add: table_ok_def)
    qed
    have "map f_RoomID (map ?u (rows s)) = map f_RoomID (rows s)" by simp
    then have 2: "distinct (map f_RoomID (map ?u (rows s)))" using ok by (simp only: table_ok_def)
    have 3: "\<forall>r \<in> set (map ?u (rows s)). row_ok r" using ok assms by (auto simp: table_ok_def)
    show ?thesis unfolding table_ok_def eq using 1 2 3 by blast
  qed
  then show ?thesis by (simp add: safe_def)
qed

lemma safe_insert: "row_ok f \<Longrightarrow> safe table_ok (InsertFriendship f) (\<lambda>_. True)"
  by (auto simp: safe_def InsertFriendship_def table_ok_def)

lemma safe_delete: "safe table_ok (DeleteFriendshipByRoomID room) (\<lambda>_. True)"
  by (simp add: safe_def DeleteFriendshipByRoomID_def table_ok_def distinct_map_filter)

lemma safe_buildEvent: "safe table_ok (buildEvent env sender room k m) (\<lambda>_. True)"
  unfolding buildEvent_def BuildEvent_def
  by (intro safe_bindS [where Q = "\<lambda>_. True"] safe_liftS) (auto simp: safe_def next_nid_def table_ok_def)

lemma set_side_ok: "set_side env st k c f ev = Inr r \<Longrightarrow> row_ok f \<Longrightarrow> st \<in> member_states \<Longrightarrow> row_ok r"
  by (auto simp: set_side_def result_simps row_ok_def)

lemma row_ok_frame [simp]:
  "row_ok (r\<lparr>FcIDOnceJoined := b\<rparr>) = row_ok r" "row_ok (r\<lparr>ToFcIDOnceJoined := b\<rparr>) = row_ok r"
  "row_ok (r\<lparr>f_ID := i\<rparr>) = row_ok r" "row_ok (fresh_marks ev r) = row_ok r"
  by (simp_all add: row_ok_def fresh_marks_def)

lemma safe_side:
  assumes "row_ok f" "st \<in> member_states" "\<And>r. row_ok r \<Longrightarrow> row_ok (g r)"
  shows "safe table_ok (bindS (liftS (set_side env st k c f ev)) (\<lambda>r. UpdateFriendshipByRoomID (g r))) (\<lambda>_. True)"
  by (rule safe_bindS [where Q = row_ok], rule safe_liftS, erule set_side_ok [OF _ assms(1,2)])
    (rule safe_update, erule assms(3))

lemma safe_HandleEvent:
  assumes "row_ok f" "st \<in> member_states"
  shows "safe table_ok (HandleEvent env act st sender k c f ev) (\<lambda>_. True)"
proof -
  note side = safe_side [OF assms]
  have "safe table_ok (handleJoinOperation env st k c f ev) (\<lambda>_. True)"
    unfolding handleJoinOperation_def by (rule side) simp
  moreover have "safe table_ok (handleInviteOperation env st sender k c f ev) (\<lambda>_. True)"
    unfolding handleInviteOperation_def by (rule side) simp
  moreover have "safe table_ok (handleNormalOperation env st k c f ev) (\<lambda>_. True)"
    unfolding handleNormalOperation_def using side [of "\<lambda>r. r"] by simp
  moreover have "safe table_ok (returnS ()) (\<lambda>_. True)" by (rule safe_returnS) simp
  ultimately show ?thesis unfolding HandleEvent_def by (simp split: if_split)
qed

lemma safe_Trigger:
  assumes "fsm_documented env" "row_ok f"
  shows "safe table_ok (Trigger env st op sender k c f ev) (\<lambda>_. True)"
proof (cases "findTransMatching env NewFSM st op")
  case None
  then show ?thesis by (simp add: Trigger_def safe_liftS)
next
  case (Some t)
  then have "t \<in> set NewFSM" using assms(1) by (auto simp: fsm_documented_def find_Some_iff)
  then have "To t \<in> member_states" by (auto simp: NewFSM_def transition_def member_states_def)
  with Some show ?thesis using safe_HandleEvent [OF assms(2)] by (simp add: Trigger_def)
qed

lemma states_mem: "ST_INIT \<in> member_states" "ST_INVITE \<in> member_states" "ST_JOIN \<in> member_states" "ST_LEAVE \<in> member_states"
  by (simp_all add: member_states_def)

lemma safe_invite_after_leave:
  assumes "row_ok f" "st \<in> member_states"
  shows "safe table_ok (invite_after_leave env ev k st c f) (\<lambda>_. True)"
  unfolding invite_after_leave_def
proof (intro safe_then [OF safe_buildEvent])
  fix e1 e2
  show "safe table_ok
      (bindS (if st = ST_LEAVE
            then bindS (buildEvent env (Sender ev) (RoomID ev) k ''invite'') (\<lambda>e3. returnS (ST_INVITE, [e1, e2, e3]))
            else returnS (st, [e1, e2])) (\<lambda>(newSt, evs).
       bindS (UpdateFriendshipByRoomID
             (fresh_marks ev (if c then f\<lparr>FcIDState := ST_JOIN, ToFcIDState := newSt\<rparr>
                              else f\<lparr>FcIDState := newSt, ToFcIDState := ST_JOIN\<rparr>))) (\<lambda>_.
       returnS evs))) (\<lambda>_. True)"
  proof (rule safe_bindS [where Q = "\<lambda>p. fst p \<in> member_states"])
    show "safe table_ok (if st = ST_LEAVE
        then bindS (buildEvent env (Sender ev) (RoomID ev) k ''invite'') (\<lambda>e3. returnS (ST_INVITE, [e1, e2, e3]))
        else returnS (st, [e1, e2])) (\<lambda>p. fst p \<in> member_states)"
      using assms(2) states_mem
      by (simp split: if_split) (intro conjI impI safe_then [OF safe_buildEvent] safe_returnS; simp)
    fix p :: "string \<times> 'a Event list"
    assume p: "fst p \<in> member_states"
    obtain newSt evs where pe: "p = (newSt, evs)" by (cases p)
    have "row_ok (fresh_marks ev (if c then f\<lparr>FcIDState := ST_JOIN, ToFcIDState := newSt\<rparr>
        else f\<lparr>FcIDState := newSt, ToFcIDState := ST_JOIN\<rparr>))"
      using p pe states_mem by (simp add: row_ok_def fresh_marks_def)
    then show "safe table_ok (case p of (newSt, evs) \<Rightarrow> bindS (UpdateFriendshipByRoomID
         (fresh_marks ev (if c then f\<lparr>FcIDState := ST_JOIN, ToFcIDState := newSt\<rparr>
          else f\<lparr>FcIDState := newSt, ToFcIDState := ST_JOIN\<rparr>))) (\<lambda>_. returnS evs)) (\<lambda>_. True)"
      unfolding pe prod.case by (intro safe_then [OF safe_update safe_return])
  qed
qed

lemma safe_handleNormalMembership:
  assumes "fsm_documented env"
  shows "safe table_ok (handleNormalMembership env ev) (\<lambda>_. True)"
proof -
  have "table_ok (snd (handleNormalMembership env ev s))" if s: "table_ok s" for s
  proof -
    obtain r s1 where g: "GetFriendshipByRoomID (RoomID ev) s = (r, s1)" by force
    have s1: "table_ok s1" and f: "\<And>f. r = Inr f \<Longrightarrow> row_ok f"
      using safe_get(1) [of "RoomID ev"] s g by (force simp: safe_def)+
    show ?thesis
    proof (cases r)
      case (Inl e)
      then show ?thesis
        using g s s1 by (simp add: handleNormalMembership_def split: option.split sum.split)
    next
      case (Inr f)
      with f have "row_ok f" by simp
      then have st: "FcIDState f \<in> member_states" "ToFcIDState f \<in> member_states" by (simp_all add: row_ok_def)
      have 1: "table_ok (snd (invite_after_leave env ev k st c f s1))" if "st \<in> member_states" for k st c
        by (rule safe_at [OF safe_invite_after_leave [OF \<open>row_ok f\<close> that] s1])
      have 2: "table_ok (snd (bindS (Trigger env st op a k c f ev) (\<lambda>_. returnS [ev]) s1))" for st op a k c
        by (rule safe_at [OF safe_then [OF safe_Trigger [OF assms \<open>row_ok f\<close>] safe_return] s1])
      show ?thesis
        using g s Inr by (simp add: handleNormalMembership_def Let_def 1 2 st states_mem split: option.split sum.split)
    qed
  qed
  then show ?thesis by (simp add: safe_def)
qed

lemma safe_other_room: "safe table_ok (other_room a b) (\<lambda>f. \<forall>r. f = Some r \<longrightarrow> row_ok r)"
  using safe_get(2) [of a b] by (auto simp: safe_def other_room_def split: prod.split sum.split)

lemma safe_fed_glare: "safe table_ok (fed_glare env ev k room2) (\<lambda>_. True)"
proof -
  have "safe table_ok (UpdateFriendshipByRoomID
      (f\<lparr>f_ID := i, f_RoomID := room, FcID := a, ToFcID := b, ToFcIDState := ST_JOIN, FcIDIsBot := x1, ToFcIDIsBot := x2,
         ToFcIDRemark := rm, FcIDOnceJoined := True, ToFcIDOnceJoined := True, FcIDDomain := d1, ToFcIDDomain := d2,
         f_EventID := ei\<rparr>)) (\<lambda>_. True)" if "row_ok f" for f i room a b x1 x2 rm d1 d2 ei
    using that states_mem by (intro safe_update) (simp add: row_ok_def)
  then show ?thesis
    unfolding fed_glare_def Let_def
    by (simp split: if_split)
      (intro conjI impI safe_then [OF safe_delete] safe_bindS [OF safe_get(1)] safe_then [OF safe_lift]
        safe_then [OF safe_buildEvent] safe_return safe_then)
qed

lemma safe_local_glare:
  assumes "row_ok f2"
  shows "safe table_ok (local_glare env ev f2) (\<lambda>_. True)"
proof -
  have "safe table_ok (UpdateFriendshipByRoomID
      (fresh_marks ev (f2\<lparr>ToFcIDState := ST_JOIN, ToFcIDRemark := rm, ToFcIDOnceJoined := True\<rparr>))) (\<lambda>_. True)" for rm
    using assms states_mem by (intro safe_update) (simp add: row_ok_def fresh_marks_def)
  then show ?thesis
    unfolding local_glare_def Let_def
    by (intro safe_then [OF safe_delete] safe_then [OF safe_buildEvent] safe_then [OF safe_lift] safe_return safe_then)
qed

lemma safe_invited_joins: "safe table_ok (invited_joins env ev) (\<lambda>_. True)"
proof -
  have "safe table_ok (UpdateFriendshipByRoomID (fresh_marks ev (f\<lparr>FcIDState := ST_JOIN, FcIDOnceJoined := True\<rparr>))) (\<lambda>_. True)"
    "safe table_ok (UpdateFriendshipByRoomID (fresh_marks ev (f\<lparr>ToFcIDState := ST_JOIN, ToFcIDOnceJoined := True\<rparr>))) (\<lambda>_. True)"
    if "row_ok f" for f
    using that states_mem by (intro safe_update; simp add: row_ok_def fresh_marks_def)+
  note upd = this
  show ?thesis
    unfolding invited_joins_def Let_def
    by (intro safe_bindS [OF safe_get(1)]; simp split: if_split)
      (intro conjI impI safe_then [OF upd(1)] safe_then [OF upd(2)] safe_then [OF safe_buildEvent] safe_return; assumption)
qed

lemma safe_handleEvent:
  assumes "fsm_documented env"
  shows "safe table_ok (handleEvent env ev) (\<lambda>_. True)"
proof -
  note normal = safe_handleNormalMembership [OF assms]
  have fed: "safe table_ok (handleFedInvite env k ev) (\<lambda>_. True)" for k
    unfolding handleFedInvite_def
    by (intro safe_bindS [OF safe_other_room]) (simp add: normal safe_fed_glare split: option.split)
  have loc: "safe table_ok (handleLocalInvite env k ev) (\<lambda>_. True)" for k
    unfolding handleLocalInvite_def
  proof (rule safe_bindS [OF safe_other_room])
    fix f2 :: "RCSFriendship option"
    assume f2: "\<forall>r. f2 = Some r \<longrightarrow> row_ok r"
    have "safe table_ok (bindS (invited_joins env ev) (\<lambda>evs. if evs \<noteq> [] then returnS evs else handleNormalMembership env ev)) (\<lambda>_. True)"
      by (rule safe_then [OF safe_invited_joins]) (simp add: normal safe_return)
    then show "safe table_ok (if (case f2 of Some f \<Rightarrow> f_RoomID f \<noteq> RoomID ev | None \<Rightarrow> False) then local_glare env ev (the f2)
       else bindS (invited_joins env ev) (\<lambda>evs. if evs \<noteq> [] then returnS evs else handleNormalMembership env ev)) (\<lambda>_. True)"
      using f2 by (cases f2) (simp_all add: safe_local_glare split: if_split)
  qed
  have inv: "safe table_ok (handleInvite env ev) (\<lambda>_. True)"
    unfolding handleInvite_def by (simp add: fed loc safe_lift split: option.split)
  have mem: "safe table_ok (HandleMembership env ev) (\<lambda>_. True)"
    unfolding HandleMembership_def by (rule safe_then [OF safe_lift]) (simp add: inv normal)
  have "safe table_ok (HandleCreate ev) (\<lambda>_. True)"
    unfolding HandleCreate_def using states_mem
    by (intro safe_then [OF safe_insert safe_return]) (simp add: row_ok_def)
  then show ?thesis unfolding handleEvent_def using mem by (simp add: safe_return)
qed

section \<open>Rows\<close>

lemma buildEvent_rows: "rows (snd (buildEvent env a room k m s)) = rows s"
  by (simp add: buildEvent_def BuildEvent_def bindS_def next_nid_def split: sum.split prod.split)

lemma bindS_rows:
  "(\<And>x s. rows (snd (f x s)) = rows s) \<Longrightarrow> rows (snd (bindS m f s)) = rows (snd (m s))"
  by (simp add: bindS_def split: sum.split prod.split)

lemma update_rooms: "rooms (snd (UpdateFriendshipByRoomID f s)) = rooms s"
proof -
  let ?u = "\<lambda>r. if f_RoomID r = f_RoomID f then f else r"
  have "f_RoomID ` ?u ` set (rows s) = f_RoomID ` set (rows s)"
    unfolding image_image by (rule image_cong) auto
  then show ?thesis unfolding rooms_def UpdateFriendshipByRoomID_def by (simp only: split: if_split) simp
qed

lemma delete_rooms: "rooms (snd (DeleteFriendshipByRoomID room s)) = rooms s - {room}"
  by (auto simp: rooms_def DeleteFriendshipByRoomID_def)

lemma get_room:
  assumes "room \<in> rooms s"
  shows "\<exists>f. GetFriendshipByRoomID room s = (Inr f, s) \<and> f_RoomID f = room"
proof (cases "find (\<lambda>r. f_RoomID r = room) (rows s)")
  case None
  then show ?thesis using assms by (auto simp: find_None_iff rooms_def)
next
  case (Some f)
  then have "f_RoomID f = room" by (auto simp: find_Some_iff)
  with Some show ?thesis by (simp add: GetFriendshipByRoomID_def)
qed

text \<open>The rooms after a glare: the larger of the two room identifiers is gone, the smaller one is kept.\<close>

lemma fed_glare_rooms:
  assumes "RoomID ev \<noteq> room2" "RoomID ev \<in> rooms s"
  shows "rooms (snd (fed_glare env ev k room2 s)) = rooms s - {max (RoomID ev) room2}"
proof (cases "RoomID ev < room2")
  case True
  let ?s1 = "snd (DeleteFriendshipByRoomID room2 s)"
  have d: "DeleteFriendshipByRoomID room2 s = (Inr (), ?s1)" by (simp add: DeleteFriendshipByRoomID_def)
  have r1: "rooms ?s1 = rooms s - {room2}" by (rule delete_rooms)
  then obtain f where f: "GetFriendshipByRoomID (RoomID ev) ?s1 = (Inr f, ?s1)"
    using get_room [of "RoomID ev" ?s1] assms by auto
  have tail: "rooms (snd (bindS (liftS r) (\<lambda>rm. bindS (UpdateFriendshipByRoomID (g rm)) (\<lambda>_.
      bindS (buildEvent env a b c m1) (\<lambda>e1. bindS (buildEvent env a' b' c' m2) (\<lambda>e2. returnS [e1, e2])))) s')) = rooms s'"
    for r g a b c m1 a' b' c' m2 s'
  proof (cases r)
    case (Inr rm)
    have "rows (snd (bindS (UpdateFriendshipByRoomID (g rm)) (\<lambda>_.
        bindS (buildEvent env a b c m1) (\<lambda>e1. bindS (buildEvent env a' b' c' m2) (\<lambda>e2. returnS [e1, e2]))) s')) =
        rows (snd (UpdateFriendshipByRoomID (g rm) s'))"
      by (simp add: bindS_rows buildEvent_rows)
    then show ?thesis using Inr update_rooms [of "g rm" s'] by (simp add: rooms_def)
  qed simp
  have "snd (fed_glare env ev k room2 s) = snd (bindS (liftS (remark env k ev)) (\<lambda>rm.
        bindS (UpdateFriendshipByRoomID
                 (f\<lparr>f_ID := getID (Sender ev) k, f_RoomID := RoomID ev, FcID := Sender ev, ToFcID := k,
                    ToFcIDState := ST_JOIN, FcIDIsBot := isBot (Sender ev), ToFcIDIsBot := isBot k,
                    ToFcIDRemark := rm, FcIDOnceJoined := True, ToFcIDOnceJoined := True,
                    FcIDDomain := getDomain (Sender ev), ToFcIDDomain := getDomain k,
                    f_EventID := EventID ev\<rparr>)) (\<lambda>_.
        bindS (buildEvent env k room2 k ''leave'') (\<lambda>e1.
        bindS (buildEvent env k (RoomID ev) k ''join'') (\<lambda>e2. returnS [e1, e2])))) ?s1)"
    unfolding fed_glare_def Let_def using True d f by (simp only: if_True bindS_simps)
  then have "rooms (snd (fed_glare env ev k room2 s)) = rooms ?s1" using tail by simp
  with r1 True show ?thesis by (simp add: max_def)
next
  case False
  then have "rooms (snd (fed_glare env ev k room2 s)) = rooms (snd (DeleteFriendshipByRoomID (RoomID ev) s))"
    by (simp add: fed_glare_def Let_def rooms_def bindS_rows buildEvent_rows)
  with False show ?thesis by (simp add: delete_rooms max_def)
qed

section \<open>A friendship from its beginning\<close>

lemma find_fresh: "\<forall>r \<in> set xs. f_RoomID r \<noteq> f_RoomID f \<Longrightarrow> find (\<lambda>r. f_RoomID r = f_RoomID f) (xs @ [f]) = Some f"
  by (induction xs) auto

lemma get_last:
  assumes "\<forall>r \<in> set xs. f_RoomID r \<noteq> f_RoomID f" "rows s = xs @ [f]"
  shows "GetFriendshipByRoomID (f_RoomID f) s = (Inr f, s)"
  using find_fresh [OF assms(1)] assms(2) by (simp add: GetFriendshipByRoomID_def)

lemma update_last:
  assumes "\<forall>r \<in> set xs. f_RoomID r \<noteq> f_RoomID f \<and> f_ID r \<noteq> f_ID g" "rows s = xs @ [f]" "f_RoomID g = f_RoomID f"
  shows "UpdateFriendshipByRoomID g s = (Inr (), s\<lparr>rows := xs @ [g]\<rparr>)"
proof -
  have "map (\<lambda>r. if f_RoomID r = f_RoomID g then g else r) (rows s) = xs @ [g]"
    using assms by (auto intro!: map_idI)
  then show ?thesis using assms by (auto simp: UpdateFriendshipByRoomID_def)
qed

lemma fsm_step:
  assumes "fsm_documented env"
  shows "findTransMatching env NewFSM ''init'' ''join'' = Some (transition ''init'' ''join'' ''join'' ''join'')"
    "findTransMatching env NewFSM ''init'' ''invite'' = Some (transition ''init'' ''invite'' ''invite'' ''invite'')"
    "findTransMatching env NewFSM ''invite'' ''join'' = Some (transition ''invite'' ''join'' ''join'' ''join'')"
  using assms by (simp_all add: fsm_documented_def NewFSM_def transition_def)

lemma HandleCreate_row:
  assumes "\<forall>r \<in> set (rows s). f_ID r \<noteq> EventID ev \<and> f_RoomID r \<noteq> RoomID ev"
  shows "HandleCreate ev s = (Inr [ev], s\<lparr>rows := rows s @ [created ev]\<rparr>)"
proof -
  have "InsertFriendship (created ev) s = (Inr (), s\<lparr>rows := rows s @ [created ev]\<rparr>)"
    using assms by (auto simp: InsertFriendship_def created_def)
  then show ?thesis by (simp add: HandleCreate_def created_def)
qed

text \<open>A membership change that is one transition of the state machine.\<close>

lemma membership_transition:
  assumes f: "\<forall>r \<in> set xs. f_RoomID r \<noteq> f_RoomID f" "rows s = xs @ [f]" "RoomID ev = f_RoomID f"
    and k: "StateKey ev = Some k" "EventMembership (rcs_codec env) ev = Inr op"
    and st: "st = (if k = FcID f then FcIDState f else ToFcIDState f)"
    and nl: "(if Sender ev = FcID f then FcIDState f else ToFcIDState f) \<noteq> ST_LEAVE"
    and t: "findTransMatching env NewFSM st op = Some t"
    and h: "HandleEvent env (Action t) (To t) (Sender ev) k (k = FcID f) f ev s = (Inr (), s1)"
  shows "handleNormalMembership env ev s = (Inr [ev], s1)"
proof -
  have g: "GetFriendshipByRoomID (RoomID ev) s = (Inr f, s)" unfolding f(3) by (rule get_last [OF f(1,2)])
  have "Trigger env st op (Sender ev) k (k = FcID f) f ev s = (Inr (), s1)" using t h by (simp add: Trigger_def)
  then show ?thesis
    using k nl unfolding st by (simp add: handleNormalMembership_def g Let_def)
qed

lemma join_step:
  assumes "\<forall>r \<in> set xs. f_RoomID r \<noteq> f_RoomID f \<and> f_ID r \<noteq> f_ID f" "rows s = xs @ [f]" "remark env k ev = Inr rm"
  shows "HandleEvent env ''join'' ''join'' a k (k = FcID f) f ev s = (Inr (), s\<lparr>rows := xs @ [joined_row ev k rm f]\<rparr>)"
proof -
  have side: "bindS (liftS (set_side env ''join'' k (k = FcID f) f ev)) (\<lambda>r. UpdateFriendshipByRoomID
         (if k = FcID f then r\<lparr>FcIDOnceJoined := True\<rparr> else r\<lparr>ToFcIDOnceJoined := True\<rparr>)) s
      = UpdateFriendshipByRoomID (joined_row ev k rm f) s"
    using assms(3) by (simp add: set_side_def joined_row_def)
  have "UpdateFriendshipByRoomID (joined_row ev k rm f) s = (Inr (), s\<lparr>rows := xs @ [joined_row ev k rm f]\<rparr>)"
    using assms(1) by (intro update_last [OF _ assms(2)]) (auto simp: joined_row_def)
  with side show ?thesis by (simp add: HandleEvent_def handleJoinOperation_def)
qed

lemma invite_step:
  assumes "\<forall>r \<in> set xs. f_RoomID r \<noteq> f_RoomID f \<and> f_ID r \<noteq> getID (Sender ev) k" "rows s = xs @ [f]"
    "remark env k ev = Inr rm" "k \<noteq> FcID f" "Sender ev \<noteq> k"
  shows "HandleEvent env ''invite'' ''invite'' (Sender ev) k (k = FcID f) f ev s =
    (Inr (), s\<lparr>rows := xs @ [invited_row ev k rm f]\<rparr>)"
proof -
  have side: "bindS (liftS (set_side env ''invite'' k (k = FcID f) f ev)) (\<lambda>r. UpdateFriendshipByRoomID
         (r\<lparr>f_ID := (if Sender ev \<noteq> k then getID (Sender ev) k else f_ID f)\<rparr>)) s
      = UpdateFriendshipByRoomID (invited_row ev k rm f) s"
    using assms(3-5) by (simp add: set_side_def invited_row_def)
  have "UpdateFriendshipByRoomID (invited_row ev k rm f) s = (Inr (), s\<lparr>rows := xs @ [invited_row ev k rm f]\<rparr>)"
    using assms(1) by (intro update_last [OF _ assms(2)]) (auto simp: invited_row_def)
  with side show ?thesis by (simp add: HandleEvent_def handleInviteOperation_def)
qed

text \<open>An invitation by the joined creator of a room without glare.\<close>

lemma local_invite:
  assumes "\<forall>r \<in> set xs. f_RoomID r \<noteq> f_RoomID f \<and> f_ID r \<noteq> getID (Sender ev) k \<and> \<not> (FcID r = k \<and> ToFcID r = Sender ev)"
    and "rows s = xs @ [f]" "RoomID ev = f_RoomID f" "Sender ev = FcID f" "k \<noteq> FcID f"
    and "StateKey ev = Some k" "EventMembership (rcs_codec env) ev = Inr ''invite''" "remark env k ev = Inr rm"
    and "FcIDState f = ''join''" "ToFcIDState f = ''init''" "fsm_documented env"
  shows "handleLocalInvite env k ev s = (Inr [ev], s\<lparr>rows := xs @ [invited_row ev k rm f]\<rparr>)"
proof -
  have "find (\<lambda>r. FcID r = k \<and> ToFcID r = Sender ev) (rows s) = None"
    using assms(1,2,4,5) by (auto simp: find_None_iff)
  then have o: "other_room k (Sender ev) s = (Inr None, s)"
    by (simp add: other_room_def GetFriendshipByFcIDAndToFcID_def NotFound_def)
  have r: "\<forall>r \<in> set xs. f_RoomID r \<noteq> f_RoomID f" using assms(1) by auto
  have j: "invited_joins env ev s = (Inr [], s)"
    using get_last [OF r assms(2)] assms(3,4,9) by (simp add: invited_joins_def Let_def)
  have "handleNormalMembership env ev s = (Inr [ev], s\<lparr>rows := xs @ [invited_row ev k rm f]\<rparr>)"
  proof (rule membership_transition [OF r assms(2,3,6,7) refl])
    show "findTransMatching env NewFSM (if k = FcID f then FcIDState f else ToFcIDState f) ''invite'' =
        Some (transition ''init'' ''invite'' ''invite'' ''invite'')"
      using fsm_step(2) [OF assms(11)] assms(5,10) by simp
    show "HandleEvent env (Action (transition ''init'' ''invite'' ''invite'' ''invite'')) (To (transition ''init'' ''invite'' ''invite'' ''invite''))
        (Sender ev) k (k = FcID f) f ev s = (Inr (), s\<lparr>rows := xs @ [invited_row ev k rm f]\<rparr>)"
      using invite_step [OF _ assms(2,8,5)] assms(1,4,5) by (simp add: transition_def)
  qed (use assms(4,9) in simp)
  with o j show ?thesis by (simp add: handleLocalInvite_def)
qed

section \<open>Properties\<close>

text \<open>
  C31. Whatever events arrive, and also when handling one of them fails half-way, the friendship table has at most
  one row per room, unique identifiers, and only the four membership states.
\<close>

theorem friendship_table_invariant:
  assumes "fsm_documented env"
  shows "let s = fold (\<lambda>ev s. snd (handleEvent env ev s)) evs \<lparr>rows = [], taken = 0\<rparr>
    in distinct (map f_ID (rows s)) \<and> distinct (map f_RoomID (rows s)) \<and>
       (\<forall>r \<in> set (rows s). {FcIDState r, ToFcIDState r} \<subseteq> {''init'', ''invite'', ''join'', ''leave''})"
proof -
  have "table_ok s \<Longrightarrow> table_ok (fold (\<lambda>ev s. snd (handleEvent env ev s)) evs s)" for s
    by (induction evs arbitrary: s) (simp_all add: safe_at [OF safe_handleEvent [OF assms]])
  from this [of "\<lparr>rows = [], taken = 0\<rparr>"] show ?thesis
    by (simp add: table_ok_def row_ok_def member_states_def Let_def)
qed

text \<open>
  C29. Glare between two servers ends in agreement. A user \<open>a\<close> of one server and a user \<open>b\<close> of another have each
  created a direct room and invited the other. When each server handles the invitation from the
  other one, both keep the room with the smaller identifier and give the other room up.
\<close>

theorem fed_glare_agreement:
  assumes "EvType evB = MRoomMember" "Sender evB = b" "StateKey evB = Some a" "RoomID evB = RB"
    "EventMembership (rcs_codec envA) evB = Inr ''invite''" "\<not> local_domain envA b"
    "EvType evA = MRoomMember" "Sender evA = a" "StateKey evA = Some b" "RoomID evA = RA"
    "EventMembership (rcs_codec envB) evA = Inr ''invite''" "\<not> local_domain envB a"
    and "RA \<noteq> RB" "{RA, RB} \<subseteq> rooms sA" "{RA, RB} \<subseteq> rooms sB"
    and "map_option f_RoomID (find (\<lambda>r. FcID r = a \<and> ToFcID r = b) (rows sA)) = Some RA"
    and "map_option f_RoomID (find (\<lambda>r. FcID r = b \<and> ToFcID r = a) (rows sB)) = Some RB"
  shows "rooms (snd (handleEvent envA evB sA)) = rooms sA - {max RA RB} \<and>
    rooms (snd (handleEvent envB evA sB)) = rooms sB - {max RA RB}"
proof -
  have one: "rooms (snd (handleEvent env ev s)) = rooms s - {max (RoomID ev) R}"
    if ev: "EvType ev = MRoomMember" "Sender ev = x" "StateKey ev = Some y"
      "EventMembership (rcs_codec env) ev = Inr ''invite''" "\<not> local_domain env x"
      and R: "RoomID ev \<noteq> R" "RoomID ev \<in> rooms s"
      "map_option f_RoomID (find (\<lambda>r. FcID r = y \<and> ToFcID r = x) (rows s)) = Some R" for env :: "'c rcs_env" and ev s x y R
  proof -
    obtain f where "find (\<lambda>r. FcID r = y \<and> ToFcID r = x) (rows s) = Some f" "f_RoomID f = R" using R(3) by auto
    then have "other_room y x s = (Inr (Some f), s)"
      by (simp add: other_room_def GetFriendshipByFcIDAndToFcID_def)
    then have "handleEvent env ev s = fed_glare env ev y R s"
      using ev R(1) \<open>f_RoomID f = R\<close>
      by (simp add: handleEvent_def HandleMembership_def handleInvite_def handleFedInvite_def)
    then show ?thesis using fed_glare_rooms [OF R(1,2)] by simp
  qed
  show ?thesis
    using one [of evB b a envA RA sA] one [of evA a b envB RB sB] assms by (auto simp: max.commute)
qed

text \<open>
  C30. A friendship comes about: when a local user creates a direct room, joins it and invites another user, and that
  user joins, all four events are passed on and each of the two users finds the other one among
  their friends. The identifier of the pair must be free and there must be no room in the
  other direction.
\<close>

theorem friendship_established:
  assumes "fsm_documented env" "local_domain env a" "a \<noteq> b"
    and "EvType ec = MRoomCreate" "Sender ec = a" "RoomID ec = R"
    and "EvType ej = MRoomMember" "Sender ej = a" "StateKey ej = Some a" "RoomID ej = R"
      "EventMembership (rcs_codec env) ej = Inr ''join''" "remark env a ej = Inr ra"
    and "EvType ei = MRoomMember" "Sender ei = a" "StateKey ei = Some b" "RoomID ei = R"
      "EventMembership (rcs_codec env) ei = Inr ''invite''" "remark env b ei = Inr rb"
    and "EvType ek = MRoomMember" "Sender ek = b" "StateKey ek = Some b" "RoomID ek = R"
      "EventMembership (rcs_codec env) ek = Inr ''join''" "remark env b ek = Inr rc"
    and "\<forall>r \<in> set (rows s). f_RoomID r \<noteq> R \<and> f_ID r \<notin> {EventID ec, getID a b} \<and> \<not> (FcID r = b \<and> ToFcID r = a)"
  shows "\<exists>s1. bindS (handleEvent env ec) (\<lambda>e1. bindS (handleEvent env ej) (\<lambda>e2. bindS (handleEvent env ei) (\<lambda>e3.
      bindS (handleEvent env ek) (\<lambda>e4. returnS (e1 @ e2 @ e3 @ e4))))) s = (Inr [ec, ej, ei, ek], s1) \<and>
    (R, a, b, isBot b, rc) \<in> selectFriendshipsByFcIDOrToFcID a s1 \<and>
    (R, b, a, isBot a, ra) \<in> selectFriendshipsByFcIDOrToFcID b s1"
proof -
  define f0 f1 f2 f3 where "f0 = created ec" and "f1 = joined_row ej a ra f0" and "f2 = invited_row ei b rb f1"
    and "f3 = joined_row ek b rc f2"
  note fs = f0_def f1_def f2_def f3_def created_def joined_row_def invited_row_def
  have row: "f_RoomID f0 = R" "FcID f0 = a" "f_ID f0 = EventID ec" "f_RoomID f1 = R" "FcID f1 = a" "FcIDState f1 = ''join''"
    "ToFcIDState f1 = ''init''" "f_RoomID f2 = R" "FcID f2 = a" "f_ID f2 = getID a b" "ToFcIDState f2 = ''invite''"
    using assms(3,5,6,14) by (simp_all add: fs)
  let ?xs = "rows s"
  define s0 s1 s2 s3 where "s0 = s\<lparr>rows := ?xs @ [f0]\<rparr>" and "s1 = s\<lparr>rows := ?xs @ [f1]\<rparr>"
    and "s2 = s\<lparr>rows := ?xs @ [f2]\<rparr>" and "s3 = s\<lparr>rows := ?xs @ [f3]\<rparr>"
  have 0: "handleEvent env ec s = (Inr [ec], s0)"
    using HandleCreate_row [of s ec] assms(4,6,25) by (simp add: handleEvent_def s0_def f0_def)
  have "handleNormalMembership env ej s0 = (Inr [ej], s1)"
  proof (rule membership_transition [where f = f0 and xs = ?xs, OF _ _ _ assms(9,11) refl])
    show "findTransMatching env NewFSM (if a = FcID f0 then FcIDState f0 else ToFcIDState f0) ''join'' =
        Some (transition ''init'' ''join'' ''join'' ''join'')"
      using fsm_step(1) [OF assms(1)] by (simp add: f0_def created_def)
    show "HandleEvent env (Action (transition ''init'' ''join'' ''join'' ''join'')) (To (transition ''init'' ''join'' ''join'' ''join''))
        (Sender ej) a (a = FcID f0) f0 ej s0 = (Inr (), s1)"
      using join_step [of ?xs f0 s0 env a ej ra a] assms(8,12,25) row by (simp add: transition_def s0_def s1_def f1_def)
  qed (use assms(10,25) row in \<open>auto simp: s0_def f0_def created_def\<close>)
  then have 1: "handleEvent env ej s0 = (Inr [ej], s1)" using assms(7,11) by (simp add: handleEvent_def HandleMembership_def)
  have "handleLocalInvite env b ei s1 = (Inr [ei], s2)"
    using local_invite [of ?xs f1 ei b s1 env rb] assms(1,3,14-18,25) row by (simp add: s1_def s2_def f2_def)
  then have 2: "handleEvent env ei s1 = (Inr [ei], s2)"
    using assms(2,13,14,15,17) by (simp add: handleEvent_def HandleMembership_def handleInvite_def)
  have "handleNormalMembership env ek s2 = (Inr [ek], s3)"
  proof (rule membership_transition [where f = f2 and xs = ?xs, OF _ _ _ assms(21,23) refl])
    show "findTransMatching env NewFSM (if b = FcID f2 then FcIDState f2 else ToFcIDState f2) ''join'' =
        Some (transition ''invite'' ''join'' ''join'' ''join'')"
      using fsm_step(3) [OF assms(1)] row assms(3) by simp
    show "HandleEvent env (Action (transition ''invite'' ''join'' ''join'' ''join'')) (To (transition ''invite'' ''join'' ''join'' ''join''))
        (Sender ek) b (b = FcID f2) f2 ek s2 = (Inr (), s3)"
      using join_step [of ?xs f2 s2 env b ek rc b] assms(20,24,25) row by (simp add: transition_def s2_def s3_def f3_def)
  qed (use assms(3,20,22,25) row in \<open>auto simp: s2_def\<close>)
  then have 3: "handleEvent env ek s2 = (Inr [ek], s3)" using assms(19,23) by (simp add: handleEvent_def HandleMembership_def)
  have "f3 \<in> set (rows s3)" by (simp add: s3_def)
  moreover have "f_RoomID f3 = R" "FcID f3 = a" "ToFcID f3 = b" "FcIDState f3 = ''join''" "ToFcIDState f3 = ''join''"
    "FcIDOnceJoined f3" "ToFcIDOnceJoined f3" "ToFcIDRemark f3 = rc" "FcIDRemark f3 = ra" "FcIDIsBot f3 = isBot a" "ToFcIDIsBot f3 = isBot b"
    using assms(3,5,6) by (simp_all add: fs)
  ultimately show ?thesis
    using 0 1 2 3 by (auto simp: selectFriendshipsByFcIDOrToFcID_def image_iff intro!: bexI [of _ f3])
qed

end
