(* ===== verification/Sample_Friendship.thy ===== *)
theory Sample_Friendship
  imports Sample_Room Friendship
begin

text \<open>Concrete users, events and tables on which the properties of the friendship processor are applied.\<close>

definition friend_env :: "string list \<Rightarrow> sample_json rcs_env" where
  "friend_env domains = \<lparr>rcs_codec = sample_codec, rcs_displayname = (\<lambda>j. []), rcs_member_content = (\<lambda>m. Inr (JMember m)),
     rcs_null = JInt 0, rcs_nid = (\<lambda>n. int n + 1), rcs_ServerName = domains,
     findTransMatching = (\<lambda>ts st op. find (\<lambda>t. From t = st \<and> tr_Event t = op) ts)\<rparr>"

definition room_event :: "string \<Rightarrow> string \<Rightarrow> string \<Rightarrow> string option \<Rightarrow> sample_json \<Rightarrow> sample_json Event" where
  "room_event room ty sender sk content = (sample_event ty sender sk content)\<lparr>RoomID := room\<rparr>"

definition sample_row :: "string \<Rightarrow> string \<Rightarrow> string \<Rightarrow> string \<Rightarrow> string \<Rightarrow> RCSFriendship" where
  "sample_row ident room fc toFc st = \<lparr>f_ID = ident, f_RoomID = room, FcID = fc, ToFcID = toFc, FcIDState = st,
     ToFcIDState = ''init'', FcIDIsBot = False, ToFcIDIsBot = False, FcIDRemark = [], ToFcIDRemark = [],
     FcIDOnceJoined = False, ToFcIDOnceJoined = False, FcIDDomain = [], ToFcIDDomain = [], f_EventID = []\<rparr>"

lemma friend_env_documented: "fsm_documented (friend_env ds)"
  by (simp add: fsm_documented_def friend_env_def)

section \<open>Witnesses\<close>

theorem friendship_table_invariant_witness:
  "let s = fold (\<lambda>ev s. snd (handleEvent (friend_env [''x'']) ev s))
        [room_event ''!1:x'' MRoomCreate ''@a:x'' (Some []) (JCreate ''@a:x'')] \<lparr>rows = [], taken = 0\<rparr>
    in distinct (map f_ID (rows s)) \<and> distinct (map f_RoomID (rows s)) \<and>
       (\<forall>r \<in> set (rows s). {FcIDState r, ToFcIDState r} \<subseteq> {''init'', ''invite'', ''join'', ''leave''})"
  by (rule friendship_table_invariant [OF friend_env_documented])

theorem fed_glare_agreement_witness:
  "rooms (snd (handleEvent (friend_env [''x'']) (room_event ''!2:y'' MRoomMember ''@b:y'' (Some ''@a:x'') (JMember invite))
      \<lparr>rows = [sample_row ''ab'' ''!1:x'' ''@a:x'' ''@b:y'' join, sample_row ''ba'' ''!2:y'' ''@b:y'' [] join], taken = 0\<rparr>))
    = {''!1:x'', ''!2:y''} - {max ''!1:x'' ''!2:y''}"
proof -
  let ?sA = "\<lparr>rows = [sample_row ''ab'' ''!1:x'' ''@a:x'' ''@b:y'' join, sample_row ''ba'' ''!2:y'' ''@b:y'' [] join], taken = 0\<rparr>"
  let ?sB = "\<lparr>rows = [sample_row ''ba'' ''!2:y'' ''@b:y'' ''@a:x'' join, sample_row ''ab'' ''!1:x'' ''@a:x'' [] join], taken = 0\<rparr>"
  have "rooms (snd (handleEvent (friend_env [''x'']) (room_event ''!2:y'' MRoomMember ''@b:y'' (Some ''@a:x'') (JMember invite)) ?sA))
      = rooms ?sA - {max ''!1:x'' ''!2:y''} \<and>
    rooms (snd (handleEvent (friend_env [''y'']) (room_event ''!1:x'' MRoomMember ''@a:x'' (Some ''@b:y'') (JMember invite)) ?sB))
      = rooms ?sB - {max ''!1:x'' ''!2:y''}"
    by (rule fed_glare_agreement [where a = "''@a:x''" and b = "''@b:y''"])
      (simp_all add: room_event_def sample_event_def friend_env_def EventMembership_def sample_codec_def
        local_domain_def getDomain_def DomainFromID_def splitN2_def rooms_def sample_row_def)
  then show ?thesis by (simp add: rooms_def sample_row_def)
qed

theorem friendship_established_witness:
  "\<exists>s1. (''!1:x'', ''@a:x'', ''@b:y'', False, ''b'') \<in> selectFriendshipsByFcIDOrToFcID ''@a:x'' s1 \<and>
    (''!1:x'', ''@b:y'', ''@a:x'', False, ''a'') \<in> selectFriendshipsByFcIDOrToFcID ''@b:y'' s1"
proof -
  let ?env = "friend_env [''x'']"
  let ?ec = "room_event ''!1:x'' MRoomCreate ''@a:x'' (Some []) (JCreate ''@a:x'')"
  let ?ej = "room_event ''!1:x'' MRoomMember ''@a:x'' (Some ''@a:x'') (JMember join)"
  let ?ei = "room_event ''!1:x'' MRoomMember ''@a:x'' (Some ''@b:y'') (JMember invite)"
  let ?ek = "room_event ''!1:x'' MRoomMember ''@b:y'' (Some ''@b:y'') (JMember join)"
  have bots: "isBot ''@a:x'' = False" "isBot ''@b:y'' = False" by (simp_all add: isBot_def)
  have "\<exists>s1. bindS (handleEvent ?env ?ec) (\<lambda>e1. bindS (handleEvent ?env ?ej) (\<lambda>e2. bindS (handleEvent ?env ?ei) (\<lambda>e3.
      bindS (handleEvent ?env ?ek) (\<lambda>e4. returnS (e1 @ e2 @ e3 @ e4))))) \<lparr>rows = [], taken = 0\<rparr> = (Inr [?ec, ?ej, ?ei, ?ek], s1) \<and>
    (''!1:x'', ''@a:x'', ''@b:y'', isBot ''@b:y'', ''b'') \<in> selectFriendshipsByFcIDOrToFcID ''@a:x'' s1 \<and>
    (''!1:x'', ''@b:y'', ''@a:x'', isBot ''@a:x'', ''a'') \<in> selectFriendshipsByFcIDOrToFcID ''@b:y'' s1"
    by (rule friendship_established [OF friend_env_documented])
      (simp_all add: room_event_def sample_event_def friend_env_def EventMembership_def sample_codec_def remark_def
        getUsername_def local_domain_def getDomain_def DomainFromID_def splitN2_def)
  then show ?thesis by (auto simp: bots)
qed

end
