(* ===== verification/Selector.thy ===== *)
theory Selector
  imports Matrix_Events "HOL-Library.AList"
begin

text \<open>
  The consistent-hashing selectors (\<open>src/plugins/selector\<close>): the ring of hosts with ten replicas each, the
  search for the host that owns a key, and the variant with bounded loads. The hash function is
  an argument with 64-bit results. Loads are kept behind pointers, as in the code, because all
  hosts start with the address of one package variable. A load is small enough for exact \<open>float64\<close>
  arithmetic, so the rounded-up product with 1.25 is computed on integers.
\<close>

section \<open>Model\<close>

subsection \<open>The ring\<close>

type_synonym hash_fun = "string \<Rightarrow> 64 word"

definition replicationFactor :: nat where
  "replicationFactor = 10"

abbreviation ErrNoKeys :: go_error where "ErrNoKeys \<equiv> Error ''no keys added''"

text \<open>The map of loads holds addresses; address 0 is the package variable \<open>defaultLoad\<close>.\<close>

record Consistent =
  keys :: "(64 word \<times> string) list"
  sortedSet :: "64 word list"
  loadMap :: "(string \<times> nat) list"

definition NewConsistent :: Consistent where
  "NewConsistent = \<lparr>keys = [], sortedSet = [], loadMap = []\<rparr>"

definition replica :: "hash_fun \<Rightarrow> string \<Rightarrow> nat \<Rightarrow> 64 word" where
  "replica hash host i = hash (host @ show_nat i)"

definition add_replica :: "hash_fun \<Rightarrow> string \<Rightarrow> nat \<Rightarrow> Consistent \<Rightarrow> Consistent" where
  "add_replica hash host i c =
     c\<lparr>keys := AList.update (replica hash host i) host (keys c), sortedSet := sortedSet c @ [replica hash host i]\<rparr>"

definition AddNode :: "hash_fun \<Rightarrow> string \<Rightarrow> Consistent \<Rightarrow> Consistent" where
  "AddNode hash host c =
     (if map_of (loadMap c) host \<noteq> None then c
      else
        (let c1 = fold (add_replica hash host) [0..<replicationFactor]
                    (c\<lparr>loadMap := AList.update host 0 (loadMap c)\<rparr>)
         in c1\<lparr>sortedSet := sort (sortedSet c1)\<rparr>))"

text \<open>\<open>sort.Search\<close>: the binary search of the standard library for the first index at which the predicate holds.\<close>

function Search :: "(nat \<Rightarrow> bool) \<Rightarrow> nat \<Rightarrow> nat \<Rightarrow> nat" where
  "Search f i j =
     (if i < j then (let h = (i + j) div 2 in if \<not> f h then Search f (h + 1) j else Search f i h) else i)"
  by auto
termination by (relation "measure (\<lambda>(f, i, j). j - i)") auto

definition search :: "64 word \<Rightarrow> Consistent \<Rightarrow> nat" where
  "search key c =
     (let idx = Search (\<lambda>i. sortedSet c ! i \<ge> key) 0 (length (sortedSet c))
      in if idx \<ge> length (sortedSet c) then 0 else idx)"

text \<open>The host of the ring position \<open>i\<close>; a hash that is no key gives the empty string.\<close>

definition host_at :: "Consistent \<Rightarrow> nat \<Rightarrow> string result" where
  "host_at c i =
     (if i < length (sortedSet c)
      then Inr (case map_of (keys c) (sortedSet c ! i) of Some host \<Rightarrow> host | None \<Rightarrow> [])
      else Inl (Panic ''index out of range''))"

definition GetNode :: "hash_fun \<Rightarrow> string \<Rightarrow> Consistent \<Rightarrow> string result" where
  "GetNode hash key c = (if keys c = [] then Inl ErrNoKeys else host_at c (search (hash key) c))"

text \<open>The loop goes on at the next index after a removal.\<close>

function delSlice_loop :: "64 word \<Rightarrow> nat \<Rightarrow> 64 word list \<Rightarrow> 64 word list" where
  "delSlice_loop val i xs =
     (if i < length xs then
        if xs ! i = val then delSlice_loop val (i + 1) (take i xs @ drop (i + 1) xs)
        else delSlice_loop val (i + 1) xs
      else xs)"
  by auto
termination by (relation "measure (\<lambda>(val, i, xs). length xs - i)") auto

definition delSlice :: "64 word \<Rightarrow> Consistent \<Rightarrow> Consistent" where
  "delSlice val c = c\<lparr>sortedSet := delSlice_loop val 0 (sortedSet c)\<rparr>"

definition del_replica :: "hash_fun \<Rightarrow> string \<Rightarrow> nat \<Rightarrow> Consistent \<Rightarrow> Consistent" where
  "del_replica hash host i c =
     delSlice (replica hash host i) (c\<lparr>keys := AList.delete (replica hash host i) (keys c)\<rparr>)"

definition DelNode :: "hash_fun \<Rightarrow> string \<Rightarrow> Consistent \<Rightarrow> Consistent" where
  "DelNode hash host c =
     (let c1 = fold (del_replica hash host) [0..<replicationFactor] c
      in c1\<lparr>loadMap := AList.delete host (loadMap c1)\<rparr>)"

subsection \<open>Bounded loads\<close>

text \<open>The selector, the cells its pointers point to, and the next free address.\<close>

record BoundedLoad =
  ring :: Consistent
  totalLoad :: int
  cells :: "nat \<Rightarrow> int"
  next_cell :: nat

definition NewConsistentWithBoundedLoad :: BoundedLoad where
  "NewConsistentWithBoundedLoad = \<lparr>ring = NewConsistent, totalLoad = 0, cells = (\<lambda>_. 0), next_cell = 1\<rparr>"

definition add_node :: "hash_fun \<Rightarrow> string \<Rightarrow> BoundedLoad \<Rightarrow> BoundedLoad" where
  "add_node hash host c = c\<lparr>ring := AddNode hash host (ring c)\<rparr>"

definition load_of :: "BoundedLoad \<Rightarrow> string \<Rightarrow> int option" where
  "load_of c host = map_option (cells c) (map_of (loadMap (ring c)) host)"

text \<open>\<open>math.Ceil(x * 1.25)\<close> of a whole number.\<close>

definition ceil_125 :: "int \<Rightarrow> int" where
  "ceil_125 x = (5 * x + 3) div 4"

definition MaxLoad :: "BoundedLoad \<Rightarrow> (int \<times> BoundedLoad) result" where
  "MaxLoad c =
     (let c1 = (if totalLoad c = 0 then c\<lparr>totalLoad := 1\<rparr> else c); n = int (length (loadMap (ring c))) in
      if n = 0 then Inl (Panic ''integer divide by zero'')
      else
        (let avg = totalLoad c1 sdiv n; avg1 = (if avg = 0 then 1 else avg) in Inr (ceil_125 avg1, c1)))"

definition loadOK :: "string \<Rightarrow> BoundedLoad \<Rightarrow> (bool \<times> BoundedLoad) result" where
  "loadOK host c =
     (let c1 = (if totalLoad c < 0 then c\<lparr>totalLoad := 0\<rparr> else c); n = int (length (loadMap (ring c))) in
      if n = 0 then Inl (Panic ''integer divide by zero'')
      else
        (let avg = (totalLoad c1 + 1) sdiv n; avg1 = ceil_125 (if avg = 0 then 1 else avg) in
         case load_of c1 host of
           None \<Rightarrow> Inl (Panic ''given host not in loadsMap'')
         | Some val \<Rightarrow> Inr (val + 1 \<le> avg1, c1)))"

text \<open>The endless loop over the ring; \<open>None\<close> when it does not return.\<close>

partial_function (option) bounded_loop :: "nat \<Rightarrow> BoundedLoad \<Rightarrow> (string \<times> BoundedLoad) result option" where
  "bounded_loop i c =
     (case host_at (ring c) i of
        Inl e \<Rightarrow> Some (Inl e)
      | Inr host \<Rightarrow>
          (case loadOK host c of
             Inl e \<Rightarrow> Some (Inl e)
           | Inr (ok, c1) \<Rightarrow>
               if ok then Some (Inr (host, c1))
               else bounded_loop (if i + 1 \<ge> length (keys (ring c)) then 0 else i + 1) c1))"

definition bounded_GetNode ::
  "hash_fun \<Rightarrow> string \<Rightarrow> BoundedLoad \<Rightarrow> (string \<times> BoundedLoad) result option" where
  "bounded_GetNode hash key c =
     (if keys (ring c) = [] then Some (Inl ErrNoKeys) else bounded_loop (search (hash key) (ring c)) c)"

definition UpdateLoad :: "string \<Rightarrow> int \<Rightarrow> BoundedLoad \<Rightarrow> BoundedLoad" where
  "UpdateLoad host load c =
     (case load_of c host of
        None \<Rightarrow> c
      | Some old \<Rightarrow>
          c\<lparr>totalLoad := totalLoad c - old + load,
            cells := (cells c)(next_cell c := load), next_cell := next_cell c + 1,
            ring := (ring c)\<lparr>loadMap := AList.update host (next_cell c) (loadMap (ring c))\<rparr>\<rparr>)"

definition add_load :: "string \<Rightarrow> int \<Rightarrow> BoundedLoad \<Rightarrow> BoundedLoad result" where
  "add_load host d c =
     (case map_of (loadMap (ring c)) host of
        None \<Rightarrow> Inl (Panic ''nil pointer dereference'')
      | Some p \<Rightarrow> Inr (c\<lparr>cells := (cells c)(p := cells c p + d), totalLoad := totalLoad c + d\<rparr>))"

definition Inc :: "string \<Rightarrow> BoundedLoad \<Rightarrow> BoundedLoad result" where
  "Inc host c = add_load host 1 c"

definition Done :: "string \<Rightarrow> BoundedLoad \<Rightarrow> BoundedLoad result" where
  "Done host c = (if map_of (loadMap (ring c)) host = None then Inr c else add_load host (- 1) c)"

definition Remove :: "hash_fun \<Rightarrow> string \<Rightarrow> BoundedLoad \<Rightarrow> BoundedLoad" where
  "Remove hash host c = c\<lparr>ring := DelNode hash host (ring c)\<rparr>"

section \<open>Specification\<close>

text \<open>The clockwise successor of a hash on a ring.\<close>

definition successor :: "64 word set \<Rightarrow> 64 word \<Rightarrow> 64 word" where
  "successor H h = (if \<exists>x \<in> H. h \<le> x then Min {x \<in> H. h \<le> x} else Min H)"

definition replicas :: "hash_fun \<Rightarrow> string \<Rightarrow> 64 word set" where
  "replicas hash host = replica hash host ` {..<replicationFactor}"

text \<open>No two replicas of the given hosts have the same hash.\<close>

definition no_collisions :: "hash_fun \<Rightarrow> string set \<Rightarrow> bool" where
  "no_collisions hash hosts \<longleftrightarrow> inj_on (\<lambda>(host, i). replica hash host i) (hosts \<times> {..<replicationFactor})"

definition hosts_of :: "Consistent \<Rightarrow> string set" where
  "hosts_of c = fst ` set (loadMap c)"

definition ring_inv :: "hash_fun \<Rightarrow> Consistent \<Rightarrow> bool" where
  "ring_inv hash c \<longleftrightarrow> sorted (sortedSet c) \<and> distinct (sortedSet c) \<and> distinct (map fst (keys c)) \<and>
     set (sortedSet c) = fst ` set (keys c) \<and>
     (\<forall>x host. map_of (keys c) x = Some host \<longleftrightarrow> host \<in> hosts_of c \<and> x \<in> replicas hash host)"

text \<open>One change of the ring: a host is added or deleted.\<close>

definition ring_op :: "hash_fun \<Rightarrow> bool \<times> string \<Rightarrow> Consistent \<Rightarrow> Consistent" where
  "ring_op hash op c = (if fst op then AddNode hash (snd op) c else DelNode hash (snd op) c)"

text \<open>The largest load a host may have after one more request.\<close>

definition load_bound :: "BoundedLoad \<Rightarrow> int" where
  "load_bound c = ceil_125 (max 1 ((totalLoad c + 1) div int (length (loadMap (ring c)))))"

text \<open>The load a host has; zero for a host that is not known.\<close>

definition the_load :: "BoundedLoad \<Rightarrow> string \<Rightarrow> int" where
  "the_load c host = (case load_of c host of Some val \<Rightarrow> val | None \<Rightarrow> 0)"

text \<open>No load is negative, the loads add up to at most the total, and the shared cell of new hosts is still zero.\<close>

definition loads_inv :: "BoundedLoad \<Rightarrow> bool" where
  "loads_inv c \<longleftrightarrow> distinct (map fst (loadMap (ring c))) \<and> (\<forall>host. 0 \<le> the_load c host) \<and>
     (\<Sum>host \<in> hosts_of (ring c). the_load c host) \<le> totalLoad c \<and>
     (\<forall>host p. map_of (loadMap (ring c)) host = Some p \<longrightarrow> p < next_cell c) \<and> 0 < next_cell c \<and> cells c 0 = 0"

text \<open>The operations of the membership watcher: a host comes, its load is set, a host goes.\<close>

datatype load_op = AddHost string | SetLoad string nat | RemoveHost string

fun load_step :: "hash_fun \<Rightarrow> load_op \<Rightarrow> BoundedLoad \<Rightarrow> BoundedLoad" where
  "load_step hash (AddHost host) c = add_node hash host c"
| "load_step hash (SetLoad host load) c = UpdateLoad host (int load) c"
| "load_step hash (RemoveHost host) c = Remove hash host c"

fun op_host :: "load_op \<Rightarrow> string" where
  "op_host (AddHost host) = host"
| "op_host (SetLoad host load) = host"
| "op_host (RemoveHost host) = host"

text \<open>The hosts that are left after a sequence of additions (\<open>True\<close>) and deletions.\<close>

definition live_hosts :: "(bool \<times> string) list \<Rightarrow> string set" where
  "live_hosts ops = fold (\<lambda>op A. if fst op then insert (snd op) A else A - {snd op}) ops {}"

definition bounded_op :: "hash_fun \<Rightarrow> bool \<times> string \<Rightarrow> BoundedLoad \<Rightarrow> BoundedLoad" where
  "bounded_op hash op c = (if fst op then add_node hash (snd op) c else Remove hash (snd op) c)"

text \<open>The host the bounded-load selector answers, without the new state.\<close>

definition bounded_answer :: "hash_fun \<Rightarrow> string \<Rightarrow> BoundedLoad \<Rightarrow> string result option" where
  "bounded_answer hash key c = map_option (map_sum (\<lambda>e. e) fst) (bounded_GetNode hash key c)"

text \<open>All hosts above their bound: the loop does not come back.\<close>

definition over_bound :: "hash_fun \<Rightarrow> BoundedLoad \<Rightarrow> bool" where
  "over_bound hash c \<longleftrightarrow> ring_inv hash (ring c) \<and> 0 \<le> totalLoad c \<and>
     (\<forall>host \<in> hosts_of (ring c). \<exists>val. load_of c host = Some val \<and> load_bound c < val + 1)"

section \<open>Lemmas\<close>

section \<open>Searching\<close>

declare Search.simps [simp del] delSlice_loop.simps [simp del]

lemma Search_spec:
  assumes "\<forall>a b. a \<le> b \<and> b < n \<and> f a \<longrightarrow> f b" "i \<le> j" "j \<le> n"
  shows "i \<le> Search f i j \<and> Search f i j \<le> j \<and> (\<forall>k. i \<le> k \<and> k < Search f i j \<longrightarrow> \<not> f k) \<and>
    (\<forall>k. Search f i j \<le> k \<and> k < j \<longrightarrow> f k)"
  using assms
proof (induction f i j rule: Search.induct)
  case (1 f i j)
  note mono = "1.prems"(1)
  show ?case
  proof (cases "i < j")
    case True
    let ?h = "(i + j) div 2"
    have h: "i \<le> ?h" "?h < j" "?h < n" using True "1.prems"(3) by auto
    show ?thesis
    proof (cases "f ?h")
      case fh: True
      have below: "f k" if "?h \<le> k" "k < j" for k using mono [rule_format, of ?h k] that fh "1.prems"(3) by simp
      have s: "Search f i j = Search f i ?h" using True fh by (subst Search.simps) (simp add: Let_def)
      from "1.IH"(2) [OF True refl _ mono] fh h
      have "i \<le> Search f i ?h \<and> Search f i ?h \<le> ?h \<and> (\<forall>k. i \<le> k \<and> k < Search f i ?h \<longrightarrow> \<not> f k) \<and>
          (\<forall>k. Search f i ?h \<le> k \<and> k < ?h \<longrightarrow> f k)" by auto
      with s h below show ?thesis by (metis le_less_linear less_imp_le_nat order.trans)
    next
      case fh: False
      have above: "\<not> f k" if "k \<le> ?h" for k using mono [rule_format, of k ?h] that fh h by auto
      have s: "Search f i j = Search f (?h + 1) j" using True fh by (subst Search.simps) (simp add: Let_def)
      from "1.IH"(1) [OF True refl _ mono] fh h "1.prems"(3)
      have "?h + 1 \<le> Search f (?h + 1) j \<and> Search f (?h + 1) j \<le> j \<and>
          (\<forall>k. ?h + 1 \<le> k \<and> k < Search f (?h + 1) j \<longrightarrow> \<not> f k) \<and> (\<forall>k. Search f (?h + 1) j \<le> k \<and> k < j \<longrightarrow> f k)"
        by auto
      with s h above show ?thesis by (metis Suc_eq_plus1 le_trans not_less_eq_eq le_SucI)
    qed
  next
    case False
    then have "Search f i j = i" by (subst Search.simps) simp
    with False "1.prems"(2) show ?thesis by auto
  qed
qed

lemma successor_mem: "finite H \<Longrightarrow> H \<noteq> {} \<Longrightarrow> successor H h \<in> H"
  using Min_in [of "{x \<in> H. h \<le> x}"] by (auto simp: successor_def)

lemma successor_subset:
  assumes "finite K" "H \<subseteq> K" "successor K h \<in> H"
  shows "successor H h = successor K h"
proof -
  have fin: "finite H" using assms(1,2) by (rule rev_finite_subset)
  show ?thesis
  proof (cases "\<exists>x \<in> K. h \<le> x")
    case True
    let ?m = "Min {x \<in> K. h \<le> x}"
    have s: "successor K h = ?m" using True by (simp add: successor_def)
    have m: "?m \<in> {x \<in> K. h \<le> x}" using True assms(1) by (intro Min_in) auto
    then have "?m \<in> {x \<in> H. h \<le> x}" using assms(3) s by simp
    moreover have "?m \<le> x" if "x \<in> {x \<in> H. h \<le> x}" for x
      using that assms(1,2) by (intro Min_le) auto
    ultimately have "Min {x \<in> H. h \<le> x} = ?m" using fin by (intro Min_eqI) auto
    with s m assms(3) show ?thesis by (auto simp: successor_def)
  next
    case False
    have s: "successor K h = Min K" using False by (simp add: successor_def)
    have "Min K \<le> x" if "x \<in> H" for x using that assms(1,2) by (intro Min_le) auto
    then have "Min H = Min K" using fin assms(3) s by (intro Min_eqI) auto
    then show ?thesis using False assms(2) s by (auto simp: successor_def)
  qed
qed

lemma sorted_Min: "sorted xs \<Longrightarrow> xs \<noteq> [] \<Longrightarrow> Min (set xs) = xs ! 0"
  by (cases xs) (auto intro!: Min_eqI)

lemma search_successor:
  assumes "sorted (sortedSet c)" "sortedSet c \<noteq> []"
  shows "search h c < length (sortedSet c)" "sortedSet c ! search h c = successor (set (sortedSet c)) h"
proof -
  let ?xs = "sortedSet c" and ?f = "\<lambda>i. sortedSet c ! i \<ge> h"
  let ?r = "Search ?f 0 (length ?xs)"
  have "\<forall>a b. a \<le> b \<and> b < length ?xs \<and> ?f a \<longrightarrow> ?f b"
    using sorted_nth_mono [OF assms(1)] by (meson order.trans)
  note S = Search_spec [of "length ?xs" ?f 0 "length ?xs", OF this le0 order_refl]
  have r: "?r \<le> length ?xs" "\<And>k. k < ?r \<Longrightarrow> \<not> ?f k" "\<And>k. ?r \<le> k \<Longrightarrow> k < length ?xs \<Longrightarrow> ?f k"
    using S by blast+
  show "search h c < length ?xs" using assms(2) by (simp add: search_def Let_def)
  show "?xs ! search h c = successor (set ?xs) h"
  proof (cases "?r < length ?xs")
    case True
    have "?xs ! ?r = Min {x \<in> set ?xs. h \<le> x}"
    proof (rule sym, rule Min_eqI)
      show "?xs ! ?r \<in> {x \<in> set ?xs. h \<le> x}" using True r(3) by simp
      fix y assume "y \<in> {x \<in> set ?xs. h \<le> x}"
      then obtain k where k: "k < length ?xs" "?xs ! k = y" "h \<le> y" by (auto simp: in_set_conv_nth)
      then have "?r \<le> k" using r(2) by (metis leI)
      then show "?xs ! ?r \<le> y" using sorted_nth_mono [OF assms(1)] k by auto
    qed simp
    moreover have "\<exists>x \<in> set ?xs. h \<le> x" using r(3) [OF order_refl True] nth_mem [OF True] by blast
    ultimately show ?thesis using True by (simp add: search_def Let_def successor_def)
  next
    case False
    then have "\<not> (\<exists>x \<in> set ?xs. h \<le> x)" using r(1,2) by (auto simp: in_set_conv_nth)
    then show ?thesis using False sorted_Min [OF assms] by (simp add: search_def Let_def successor_def)
  qed
qed

section \<open>Changing the ring\<close>

lemma delSlice_loop_distinct:
  assumes "distinct xs" "i \<le> length xs"
  shows "delSlice_loop val i xs = take i xs @ filter (\<lambda>x. x \<noteq> val) (drop i xs)"
  using assms
proof (induction val i xs rule: delSlice_loop.induct)
  case (1 val i xs)
  show ?case
  proof (cases "i < length xs")
    case True
    have d: "drop i xs = xs ! i # drop (i + 1) xs" using True by (simp add: Cons_nth_drop_Suc)
    show ?thesis
    proof (cases "xs ! i = val")
      case v: True
      let ?ys = "take i xs @ drop (i + 1) xs"
      have "distinct (take i xs @ val # drop (i + 1) xs)"
        using "1.prems"(1) id_take_nth_drop [OF True] v by simp
      then have nv: "val \<notin> set (drop (i + 1) xs)" and dy: "distinct ?ys" by auto
      then have f: "filter (\<lambda>x. x \<noteq> val) (drop (i + 1) xs) = drop (i + 1) xs" by (auto simp: filter_id_conv)
      have "delSlice_loop val i xs = delSlice_loop val (i + 1) ?ys"
        using True v by (subst delSlice_loop.simps) simp
      also have "\<dots> = ?ys"
      proof (cases "i + 1 \<le> length ?ys")
        case le: True
        have "delSlice_loop val (i + 1) ?ys = take (i + 1) ?ys @ filter (\<lambda>x. x \<noteq> val) (drop (i + 1) ?ys)"
          by (rule "1.IH"(1) [OF True v dy le])
        moreover have "set (drop (i + 1) ?ys) \<subseteq> set (drop (i + 1) xs)"
          using True set_drop_subset_set_drop [of "i + 1" "i + 2" xs] by simp
        then have "filter (\<lambda>x. x \<noteq> val) (drop (i + 1) ?ys) = drop (i + 1) ?ys"
          using nv by (auto simp: filter_id_conv)
        ultimately show ?thesis by (simp only: append_take_drop_id)
      next
        case False
        then show ?thesis by (subst delSlice_loop.simps) simp
      qed
      finally show ?thesis using d v f by simp
    next
      case v: False
      have "delSlice_loop val i xs = delSlice_loop val (i + 1) xs" using True v by (subst delSlice_loop.simps) simp
      also have "\<dots> = take (i + 1) xs @ filter (\<lambda>x. x \<noteq> val) (drop (i + 1) xs)"
        using "1.IH"(2) [OF True v "1.prems"(1)] True by simp
      finally show ?thesis using d v True by (simp add: take_Suc_conv_app_nth)
    qed
  next
    case False
    then have "delSlice_loop val i xs = xs" by (subst delSlice_loop.simps) simp
    with False "1.prems"(2) show ?thesis by simp
  qed
qed

lemma add_replicas:
  "fold (add_replica hash host) is c =
    c\<lparr>keys := fold (\<lambda>i ks. AList.update (replica hash host i) host ks) is (keys c),
      sortedSet := sortedSet c @ map (replica hash host) is\<rparr>"
  by (induction "is" arbitrary: c) (simp_all add: add_replica_def)

lemma updated_keys:
  "map_of (fold (\<lambda>i ks. AList.update (replica hash host i) host ks) is ks) x =
     (if x \<in> replica hash host ` set is then Some host else map_of ks x)"
  "distinct (map fst ks) \<Longrightarrow> distinct (map fst (fold (\<lambda>i ks. AList.update (replica hash host i) host ks) is ks))"
  by (induction "is" arbitrary: ks) (simp_all add: update_conv' distinct_update)

lemma del_replicas:
  assumes "distinct (sortedSet c)"
  shows "fold (del_replica hash host) is c =
    c\<lparr>keys := fold (\<lambda>i ks. AList.delete (replica hash host i) ks) is (keys c),
      sortedSet := filter (\<lambda>x. x \<notin> replica hash host ` set is) (sortedSet c)\<rparr>"
  using assms
proof (induction "is" arbitrary: c)
  case (Cons i "is")
  have "del_replica hash host i c = c\<lparr>keys := AList.delete (replica hash host i) (keys c),
      sortedSet := filter (\<lambda>x. x \<noteq> replica hash host i) (sortedSet c)\<rparr>"
    using delSlice_loop_distinct [OF Cons.prems, of 0] by (simp add: del_replica_def delSlice_def)
  with Cons.IH [of "del_replica hash host i c"] Cons.prems show ?case by (simp add: conj_commute)
qed simp

lemma deleted_keys:
  "map_of (fold (\<lambda>i ks. AList.delete (replica hash host i) ks) is ks) x =
     (if x \<in> replica hash host ` set is then None else map_of ks x)"
  "distinct (map fst ks) \<Longrightarrow> distinct (map fst (fold (\<lambda>i ks. AList.delete (replica hash host i) ks) is ks))"
  by (induction "is" arbitrary: ks) (simp_all add: delete_conv' distinct_delete)

lemma replicas_upt: "replica hash host ` set [0..<replicationFactor] = replicas hash host"
  by (simp add: replicas_def atLeast0LessThan)

lemma replicas_disjoint:
  assumes "no_collisions hash hosts" "a \<in> hosts" "b \<in> hosts" "x \<in> replicas hash a" "x \<in> replicas hash b"
  shows "a = b"
  using assms by (auto simp: no_collisions_def replicas_def inj_on_def)

lemma replicas_distinct:
  "no_collisions hash hosts \<Longrightarrow> a \<in> hosts \<Longrightarrow> distinct (map (replica hash a) [0..<replicationFactor])"
  by (auto simp: no_collisions_def distinct_map inj_on_def)

lemma map_of_dom: "fst ` set ks = {x. map_of ks x \<noteq> None}"
  by (auto simp: map_of_eq_None_iff dest: map_of_SomeD intro: rev_image_eqI)

lemma AddNode_inv:
  assumes "ring_inv hash c" "no_collisions hash (insert host (hosts_of c))"
  shows "ring_inv hash (AddNode hash host c)" "hosts_of (AddNode hash host c) = insert host (hosts_of c)"
proof -
  show h: "hosts_of (AddNode hash host c) = insert host (hosts_of c)"
    by (auto simp: AddNode_def hosts_of_def add_replicas dom_update Let_def map_of_eq_None_iff)
  show "ring_inv hash (AddNode hash host c)"
  proof (cases "map_of (loadMap c) host = None")
    case False
    then show ?thesis using assms(1) by (simp add: AddNode_def)
  next
    case True
    let ?c = "AddNode hash host c" and ?R = "replicas hash host"
    let ?ks = "fold (\<lambda>i ks. AList.update (replica hash host i) host ks) [0..<replicationFactor] (keys c)"
    have f: "keys ?c = ?ks" "sortedSet ?c = sort (sortedSet c @ map (replica hash host) [0..<replicationFactor])"
      using True by (simp_all add: AddNode_def add_replicas Let_def)
    have new: "host \<notin> hosts_of c" using True by (simp add: hosts_of_def map_of_eq_None_iff)
    have k: "map_of ?ks x = (if x \<in> ?R then Some host else map_of (keys c) x)" for x
      unfolding updated_keys(1) replicas_upt ..
    have old: "map_of (keys c) x = Some a \<longleftrightarrow> a \<in> hosts_of c \<and> x \<in> replicas hash a" for x a
      using assms(1) by (simp add: ring_inv_def)
    have disj: "a \<in> hosts_of c \<Longrightarrow> x \<in> replicas hash a \<Longrightarrow> x \<notin> ?R" for a x
      using replicas_disjoint [OF assms(2), of a host x] new by auto
    have doms: "set (sortedSet c) = {x. map_of (keys c) x \<noteq> None}"
      using assms(1) by (simp add: ring_inv_def map_of_dom)
    have ap: "set (sortedSet c) \<inter> ?R = {}" unfolding doms using old disj by auto
    show ?thesis unfolding ring_inv_def f h
    proof (intro conjI allI)
      show "sorted (sort (sortedSet c @ map (replica hash host) [0..<replicationFactor]))" by simp
      have "distinct (sortedSet c)" using assms(1) by (simp add: ring_inv_def)
      then show "distinct (sort (sortedSet c @ map (replica hash host) [0..<replicationFactor]))"
        using replicas_distinct [OF assms(2), of host] ap replicas_upt [of hash host] by simp
      show "distinct (map fst ?ks)" using assms(1) by (intro updated_keys(2)) (simp add: ring_inv_def)
      show "set (sort (sortedSet c @ map (replica hash host) [0..<replicationFactor])) = fst ` set ?ks"
        unfolding map_of_dom k using doms replicas_upt [of hash host] by auto
      show "map_of ?ks x = Some a \<longleftrightarrow> a \<in> insert host (hosts_of c) \<and> x \<in> replicas hash a" for x a
        unfolding k using old disj by auto
    qed
  qed
qed

lemma DelNode_inv:
  assumes "ring_inv hash c" "no_collisions hash (insert host (hosts_of c))"
  shows "ring_inv hash (DelNode hash host c)" "hosts_of (DelNode hash host c) = hosts_of c - {host}"
    "sortedSet (DelNode hash host c) = filter (\<lambda>x. x \<notin> replicas hash host) (sortedSet c)"
    "map_of (keys (DelNode hash host c)) x = (if x \<in> replicas hash host then None else map_of (keys c) x)"
proof -
  let ?c = "DelNode hash host c" and ?R = "replicas hash host"
  have d: "distinct (sortedSet c)" using assms(1) by (simp add: ring_inv_def)
  have f: "keys ?c = fold (\<lambda>i ks. AList.delete (replica hash host i) ks) [0..<replicationFactor] (keys c)"
    "sortedSet ?c = filter (\<lambda>x. x \<notin> ?R) (sortedSet c)" "loadMap ?c = AList.delete host (loadMap c)"
    by (simp_all add: DelNode_def Let_def del_replicas [OF d] replicas_upt [symmetric])
  have k: "map_of (keys ?c) x = (if x \<in> ?R then None else map_of (keys c) x)" for x
    unfolding f(1) deleted_keys(1) replicas_upt ..
  show "sortedSet ?c = filter (\<lambda>x. x \<notin> ?R) (sortedSet c)" by (rule f(2))
  show "map_of (keys ?c) x = (if x \<in> ?R then None else map_of (keys c) x)" by (rule k)
  show h: "hosts_of ?c = hosts_of c - {host}" unfolding hosts_of_def f(3) map_of_dom by (auto simp: delete_conv')
  have old: "map_of (keys c) x = Some a \<longleftrightarrow> a \<in> hosts_of c \<and> x \<in> replicas hash a" for x a
    using assms(1) by (simp add: ring_inv_def)
  have disj: "a \<in> hosts_of c \<Longrightarrow> x \<in> replicas hash a \<Longrightarrow> x \<in> ?R \<Longrightarrow> a = host" for a x
    using replicas_disjoint [OF assms(2), of a host x] by auto
  show "ring_inv hash ?c"
    unfolding ring_inv_def h
  proof (intro conjI allI)
    show "sorted (sortedSet ?c)" "distinct (sortedSet ?c)"
      using assms(1) by (simp_all add: f(2) ring_inv_def sorted_wrt_filter)
    show "distinct (map fst (keys ?c))" unfolding f(1) using assms(1) by (intro deleted_keys(2)) (simp add: ring_inv_def)
    have "set (sortedSet c) = {x. map_of (keys c) x \<noteq> None}" using assms(1) by (simp add: ring_inv_def map_of_dom)
    then show "set (sortedSet ?c) = fst ` set (keys ?c)" unfolding map_of_dom k f(2) by auto
    show "map_of (keys ?c) x = Some a \<longleftrightarrow> a \<in> hosts_of c - {host} \<and> x \<in> replicas hash a" for x a
      unfolding k using old disj by auto
  qed
qed

lemma AddNode_keys:
  "map_of (loadMap c) host = None \<Longrightarrow>
    map_of (keys (AddNode hash host c)) x = (if x \<in> replicas hash host then Some host else map_of (keys c) x)"
  unfolding replicas_upt [symmetric] updated_keys(1) [symmetric] by (simp add: AddNode_def add_replicas Let_def)

lemma new_ring: "ring_inv hash NewConsistent" "hosts_of NewConsistent = {}"
  by (simp_all add: ring_inv_def NewConsistent_def hosts_of_def)

lemma no_collisions_subset: "no_collisions hash B \<Longrightarrow> A \<subseteq> B \<Longrightarrow> no_collisions hash A"
  unfolding no_collisions_def by (rule inj_on_subset) auto

lemma GetNode_owner:
  assumes "ring_inv hash c" "keys c \<noteq> []"
  shows "\<exists>host. GetNode hash key c = Inr host \<and>
    map_of (keys c) (successor (set (sortedSet c)) (hash key)) = Some host"
proof -
  have ne: "sortedSet c \<noteq> []" using assms by (auto simp: ring_inv_def)
  note s = search_successor [of c "hash key", OF _ ne]
  have srt: "sorted (sortedSet c)" and dom: "set (sortedSet c) = fst ` set (keys c)" using assms(1) by (auto simp: ring_inv_def)
  have "successor (set (sortedSet c)) (hash key) \<in> fst ` set (keys c)"
    using successor_mem [of "set (sortedSet c)" "hash key"] ne dom assms(2) by simp
  then obtain host where "map_of (keys c) (successor (set (sortedSet c)) (hash key)) = Some host"
    unfolding map_of_dom by auto
  then show ?thesis using assms(2) s [OF srt] by (simp add: GetNode_def host_at_def)
qed

text \<open>The owner of a key when one ring is contained in another, at a position of both.\<close>

lemma GetNode_subring:
  assumes "ring_inv hash c" "ring_inv hash c'" "set (sortedSet c) \<subseteq> set (sortedSet c')"
    and "successor (set (sortedSet c')) (hash key) \<in> set (sortedSet c)"
    and "map_of (keys c) (successor (set (sortedSet c')) (hash key)) = map_of (keys c') (successor (set (sortedSet c')) (hash key))"
  shows "GetNode hash key c = GetNode hash key c'"
proof -
  have ne: "keys c \<noteq> []" "keys c' \<noteq> []" using assms(1-4) by (auto simp: ring_inv_def)
  have "successor (set (sortedSet c)) (hash key) = successor (set (sortedSet c')) (hash key)"
    by (rule successor_subset [OF _ assms(3,4)]) simp
  with GetNode_owner [OF assms(1) ne(1), of key] GetNode_owner [OF assms(2) ne(2), of key] assms(5) show ?thesis by auto
qed

section \<open>Bounded loads\<close>

lemma loadOK_eq:
  assumes "0 \<le> totalLoad c" "load_of c host = Some val"
  shows "loadOK host c = Inr (val + 1 \<le> load_bound c, c)"
proof -
  let ?n = "int (length (loadMap (ring c)))"
  have n: "0 < ?n" using assms(2) by (auto simp: load_of_def)
  have "(totalLoad c + 1) sdiv ?n = (totalLoad c + 1) div ?n"
    using assms(1) n by (simp add: signed_divide_int_def sgn_if)
  moreover have "0 \<le> (totalLoad c + 1) div ?n" using assms(1) n by (simp add: pos_imp_zdiv_nonneg_iff)
  ultimately show ?thesis using assms n by (auto simp: loadOK_def Let_def load_bound_def max_def)
qed

lemma ring_inv_dom: "ring_inv hash c \<Longrightarrow> set (sortedSet c) = fst ` set (keys c)"
  unfolding ring_inv_def by (elim conjE)

lemma ring_inv_owner:
  "ring_inv hash c \<Longrightarrow> map_of (keys c) x = Some host \<longleftrightarrow> host \<in> hosts_of c \<and> x \<in> replicas hash host"
  unfolding ring_inv_def by (elim conjE) (erule allE, erule allE, assumption)

lemma ring_positions:
  assumes "ring_inv hash c" "i < length (sortedSet c)"
  shows "\<exists>host. host_at c i = Inr host \<and> host \<in> hosts_of c"
proof -
  have "sortedSet c ! i \<in> fst ` set (keys c)" using nth_mem [OF assms(2)] ring_inv_dom [OF assms(1)] by simp
  then obtain host where h: "map_of (keys c) (sortedSet c ! i) = Some host" unfolding map_of_dom by auto
  then have "host \<in> hosts_of c" using ring_inv_owner [OF assms(1)] by simp
  with h assms(2) show ?thesis by (simp add: host_at_def)
qed

lemma ring_length: "ring_inv hash c \<Longrightarrow> length (sortedSet c) = length (keys c)"
  using distinct_card [of "sortedSet c"] distinct_card [of "map fst (keys c)"] by (simp add: ring_inv_def)

lemma host_position:
  assumes "ring_inv hash c" "host \<in> hosts_of c"
  shows "\<exists>k < length (sortedSet c). host_at c k = Inr host"
proof -
  have r: "replica hash host 0 \<in> replicas hash host" by (simp add: replicas_def replicationFactor_def)
  have m: "map_of (keys c) (replica hash host 0) = Some host"
    unfolding ring_inv_owner [OF assms(1)] using assms(2) r by (rule conjI)
  then have "replica hash host 0 \<in> set (sortedSet c)" unfolding ring_inv_dom [OF assms(1)] map_of_dom by simp
  then obtain k where k: "k < length (sortedSet c)" "sortedSet c ! k = replica hash host 0" unfolding in_set_conv_nth by blast
  then have "host_at c k = Inr host" unfolding host_at_def k(2) m by simp
  with k(1) show ?thesis by blast
qed

lemma host_load: "host \<in> hosts_of (ring c) \<Longrightarrow> \<exists>val. load_of c host = Some val"
  by (auto simp: hosts_of_def load_of_def map_of_dom)

text \<open>The loop comes to a host within its bound if there is one ahead.\<close>

lemma bounded_loop_step:
  assumes "0 \<le> totalLoad c" "host_at (ring c) i = Inr host" "load_of c host = Some val"
  shows "bounded_loop i c = (if val + 1 \<le> load_bound c then Some (Inr (host, c))
    else bounded_loop (if i + 1 \<ge> length (keys (ring c)) then 0 else i + 1) c)"
  by (subst bounded_loop.simps) (simp add: assms loadOK_eq)

lemma next_position:
  assumes "i < n"
  shows "(if i + 1 \<ge> n then 0 else i + 1) < n" "((if i + 1 \<ge> n then 0 else i + 1) + m) mod n = (i + Suc m) mod n"
proof -
  show "(if i + 1 \<ge> n then 0 else i + 1) < n" using assms by simp
  show "((if i + 1 \<ge> n then 0 else i + 1) + m) mod n = (i + Suc m) mod n"
  proof (cases "i + 1 \<ge> n")
    case True
    with assms have "i + Suc m = n + m" by simp
    with True show ?thesis by (simp only: mod_add_self1) simp
  qed simp
qed

lemma bounded_loop_returns:
  assumes "ring_inv hash (ring c)" "0 \<le> totalLoad c" "i < length (sortedSet (ring c))"
    and "host_at (ring c) ((i + m) mod length (sortedSet (ring c))) = Inr good" "load_of c good = Some val" "val + 1 \<le> load_bound c"
  shows "\<exists>host v. bounded_loop i c = Some (Inr (host, c)) \<and> host \<in> hosts_of (ring c) \<and> load_of c host = Some v \<and> v + 1 \<le> load_bound c"
  using assms(3,4)
proof (induction m arbitrary: i)
  case 0
  then have h: "host_at (ring c) i = Inr good" by simp
  moreover have "good \<in> hosts_of (ring c)" using ring_positions [OF assms(1) 0(1)] h by auto
  moreover have "bounded_loop i c = Some (Inr (good, c))" using bounded_loop_step [OF assms(2) h assms(5)] assms(6) by simp
  ultimately show ?case using assms(5,6) by blast
next
  case (Suc m)
  let ?j = "if i + 1 \<ge> length (keys (ring c)) then 0 else i + 1"
  obtain host where h: "host_at (ring c) i = Inr host" "host \<in> hosts_of (ring c)"
    using ring_positions [OF assms(1) Suc.prems(1)] by blast
  obtain v where v: "load_of c host = Some v" using host_load [OF h(2)] by blast
  note step = bounded_loop_step [OF assms(2) h(1) v]
  note nxt = next_position [OF Suc.prems(1), unfolded ring_length [OF assms(1)]]
  show ?case
  proof (cases "v + 1 \<le> load_bound c")
    case True
    then have "bounded_loop i c = Some (Inr (host, c))" using step by simp
    then show ?thesis using h v True by blast
  next
    case False
    then have "bounded_loop i c = bounded_loop ?j c" using step by simp
    moreover have "host_at (ring c) ((?j + m) mod length (sortedSet (ring c))) = Inr good"
      using Suc.prems(2) unfolding ring_length [OF assms(1)] nxt(2) .
    ultimately show ?thesis using Suc.IH [of ?j] nxt(1) unfolding ring_length [OF assms(1)] by metis
  qed
qed

text \<open>Some host is not above the average.\<close>

lemma some_below_average:
  fixes f :: "'a \<Rightarrow> int"
  assumes "A \<noteq> {}" "finite A" "sum f A \<le> t"
  shows "\<exists>x \<in> A. f x \<le> t div int (card A)"
proof (rule ccontr)
  let ?q = "t div int (card A)"
  assume "\<not> ?thesis"
  then have "int (card A) * (?q + 1) \<le> sum f A" by (intro sum_bounded_below) auto
  moreover have "0 < int (card A)" using assms(1,2) by (simp add: card_gt_0_iff)
  then have "t < int (card A) * (?q + 1)"
    using mult_div_mod_eq [of "int (card A)" t] pos_mod_bound [of "int (card A)" t]
    unfolding distrib_left by linarith
  ultimately show False using assms(3) by simp
qed

lemma average_within_bound:
  assumes "0 \<le> t" "0 < n"
  shows "t div n + 1 \<le> ceil_125 (max 1 ((t + 1) div n))"
proof -
  have "t div n \<le> (t + 1) div n" using assms by (intro zdiv_mono1) auto
  then show ?thesis unfolding ceil_125_def by (auto simp: max_def)
qed

lemma finite_hosts: "finite (hosts_of c)"
  by (simp add: hosts_of_def)

lemma card_hosts: "distinct (map fst (loadMap c)) \<Longrightarrow> card (hosts_of c) = length (loadMap c)"
  unfolding hosts_of_def using distinct_card [of "map fst (loadMap c)"] by simp

lemma loads_total: "loads_inv c \<Longrightarrow> 0 \<le> totalLoad c"
  unfolding loads_inv_def by (meson order_trans sum_nonneg)

lemma some_host_within_bound:
  assumes "loads_inv c" "hosts_of (ring c) \<noteq> {}"
  shows "\<exists>host val. host \<in> hosts_of (ring c) \<and> load_of c host = Some val \<and> val + 1 \<le> load_bound c"
proof -
  have inv: "distinct (map fst (loadMap (ring c)))" "(\<Sum>host \<in> hosts_of (ring c). the_load c host) \<le> totalLoad c"
    using assms(1) unfolding loads_inv_def by blast+
  note card = card_hosts [OF inv(1)]
  obtain host where host: "host \<in> hosts_of (ring c)" "the_load c host \<le> totalLoad c div int (length (loadMap (ring c)))"
    using some_below_average [OF assms(2) finite_hosts inv(2)] unfolding card by blast
  have n: "0 < int (length (loadMap (ring c)))" using assms(2) by (auto simp: hosts_of_def)
  obtain val where val: "load_of c host = Some val" using host_load [OF host(1)] by blast
  then have "val + 1 \<le> load_bound c"
    using host(2) average_within_bound [OF loads_total [OF assms(1)] n] by (simp add: the_load_def load_bound_def)
  with host(1) val show ?thesis by blast
qed

lemma bounded_GetNode_within_bound:
  assumes "ring_inv hash (ring c)" "loads_inv c" "hosts_of (ring c) \<noteq> {}"
  shows "\<exists>host val. bounded_GetNode hash key c = Some (Inr (host, c)) \<and> host \<in> hosts_of (ring c) \<and>
    load_of c host = Some val \<and> val + 1 \<le> load_bound c"
proof -
  let ?n = "length (sortedSet (ring c))" and ?i = "search (hash key) (ring c)"
  obtain good val where good: "good \<in> hosts_of (ring c)" "load_of c good = Some val" "val + 1 \<le> load_bound c"
    using some_host_within_bound [OF assms(2,3)] by blast
  obtain k where k: "k < ?n" "host_at (ring c) k = Inr good" using host_position [OF assms(1) good(1)] by blast
  have i: "?i < ?n" using k(1) by (auto simp: search_def Let_def)
  have "(?i + (?n - ?i + k)) mod ?n = k" using i k(1) by simp
  then have "host_at (ring c) ((?i + (?n - ?i + k)) mod ?n) = Inr good" using k(2) by simp
  from bounded_loop_returns [OF assms(1) loads_total [OF assms(2)] i this good(2,3)] k(1) ring_length [OF assms(1)]
  show ?thesis by (auto simp: bounded_GetNode_def)
qed

text \<open>The operations keep the loads consistent.\<close>

lemma AddNode_loadMap:
  "loadMap (AddNode hash host c) = (if map_of (loadMap c) host = None then AList.update host 0 (loadMap c) else loadMap c)"
  by (auto simp: AddNode_def add_replicas Let_def)

lemma del_replicas_loadMap: "loadMap (fold (del_replica hash host) is c) = loadMap c"
  by (induction "is" arbitrary: c) (simp_all add: del_replica_def delSlice_def)

lemma DelNode_loadMap: "loadMap (DelNode hash host c) = AList.delete host (loadMap c)"
  by (simp add: DelNode_def Let_def del_replicas_loadMap)

lemma load_parts:
  "hosts_of (ring c) = {host. map_of (loadMap (ring c)) host \<noteq> None}"
  "the_load c host = (case map_of (loadMap (ring c)) host of Some p \<Rightarrow> cells c p | None \<Rightarrow> 0)"
  by (simp_all add: hosts_of_def map_of_dom the_load_def load_of_def split: option.split)

lemma add_node_loads:
  assumes "loads_inv c"
  shows "loads_inv (add_node hash host c)"
proof (cases "map_of (loadMap (ring c)) host")
  case None
  let ?c = "add_node hash host c"
  have lm: "loadMap (ring ?c) = AList.update host 0 (loadMap (ring c))" "totalLoad ?c = totalLoad c" "cells ?c = cells c"
    "next_cell ?c = next_cell c" using None by (simp_all add: add_node_def AddNode_loadMap)
  have inv: "cells c 0 = 0" "distinct (map fst (loadMap (ring c)))" "0 < next_cell c" "\<forall>host. 0 \<le> the_load c host"
    "(\<Sum>host \<in> hosts_of (ring c). the_load c host) \<le> totalLoad c"
    "\<forall>host p. map_of (loadMap (ring c)) host = Some p \<longrightarrow> p < next_cell c"
    using assms unfolding loads_inv_def by blast+
  have ld: "the_load ?c h = the_load c h" for h
    using None inv(1) unfolding load_parts lm by (simp add: update_conv')
  have hs: "hosts_of (ring ?c) = insert host (hosts_of (ring c))"
    unfolding load_parts lm by (auto simp: update_conv')
  have "host \<notin> hosts_of (ring c)" "the_load c host = 0" using None by (simp_all add: load_parts)
  then have "(\<Sum>h \<in> hosts_of (ring ?c). the_load ?c h) \<le> totalLoad ?c"
    using inv(5) by (simp add: ld hs lm finite_hosts)
  then show ?thesis unfolding loads_inv_def using inv by (simp add: ld lm update_conv' distinct_update)
next
  case (Some p)
  then have "add_node hash host c = c" by (simp add: add_node_def AddNode_def)
  with assms show ?thesis by simp
qed

lemma Remove_loads:
  assumes "loads_inv c"
  shows "loads_inv (Remove hash host c)"
proof -
  let ?c = "Remove hash host c"
  have lm: "loadMap (ring ?c) = AList.delete host (loadMap (ring c))" "totalLoad ?c = totalLoad c" "cells ?c = cells c"
    "next_cell ?c = next_cell c" by (simp_all add: Remove_def DelNode_loadMap)
  have inv: "cells c 0 = 0" "distinct (map fst (loadMap (ring c)))" "0 < next_cell c" "\<forall>host. 0 \<le> the_load c host"
    "(\<Sum>host \<in> hosts_of (ring c). the_load c host) \<le> totalLoad c"
    "\<forall>host p. map_of (loadMap (ring c)) host = Some p \<longrightarrow> p < next_cell c"
    using assms unfolding loads_inv_def by blast+
  have ld: "the_load ?c h = (if h = host then 0 else the_load c h)" for h
    unfolding load_parts lm by (simp add: delete_conv')
  have hs: "hosts_of (ring ?c) = hosts_of (ring c) - {host}"
    unfolding load_parts lm by (auto simp: delete_conv')
  have "(\<Sum>h \<in> hosts_of (ring ?c). the_load ?c h) = (\<Sum>h \<in> hosts_of (ring c) - {host}. the_load c h)"
    unfolding hs by (rule sum.cong) (simp_all add: ld)
  also have "\<dots> \<le> (\<Sum>h \<in> hosts_of (ring c). the_load c h)"
    by (rule sum_mono2) (use finite_hosts inv(4) in auto)
  finally have "(\<Sum>h \<in> hosts_of (ring ?c). the_load ?c h) \<le> totalLoad ?c" using inv(5) by (simp add: lm)
  then show ?thesis unfolding loads_inv_def using inv by (simp add: ld lm delete_conv' distinct_delete)
qed

lemma UpdateLoad_loads:
  assumes "loads_inv c" "0 \<le> load"
  shows "loads_inv (UpdateLoad host load c)"
proof (cases "map_of (loadMap (ring c)) host")
  case None
  then have "UpdateLoad host load c = c" by (simp add: UpdateLoad_def load_of_def)
  with assms show ?thesis by simp
next
  case (Some p)
  let ?c = "UpdateLoad host load c"
  have lm: "loadMap (ring ?c) = AList.update host (next_cell c) (loadMap (ring c))"
    "totalLoad ?c = totalLoad c - cells c p + load" "cells ?c = (cells c)(next_cell c := load)"
    "next_cell ?c = next_cell c + 1" using Some by (simp_all add: UpdateLoad_def load_of_def)
  have inv: "cells c 0 = 0" "distinct (map fst (loadMap (ring c)))" "0 < next_cell c" "\<forall>host. 0 \<le> the_load c host"
    "(\<Sum>host \<in> hosts_of (ring c). the_load c host) \<le> totalLoad c"
    "\<forall>host p. map_of (loadMap (ring c)) host = Some p \<longrightarrow> p < next_cell c"
    using assms unfolding loads_inv_def by blast+
  have ld: "the_load ?c h = (if h = host then load else the_load c h)" for h
    using inv(6) [rule_format, of h] unfolding load_parts lm by (cases "map_of (loadMap (ring c)) h") (auto simp: update_conv')
  have hs: "hosts_of (ring ?c) = hosts_of (ring c)" unfolding load_parts lm using Some by (auto simp: update_conv')
  have mem: "host \<in> hosts_of (ring c)" "the_load c host = cells c p" using Some by (simp_all add: load_parts)
  have "(\<Sum>h \<in> hosts_of (ring ?c). the_load ?c h) = load + (\<Sum>h \<in> hosts_of (ring c) - {host}. the_load c h)"
    unfolding hs sum.remove [OF finite_hosts mem(1)] by (simp add: ld)
  then have "(\<Sum>h \<in> hosts_of (ring ?c). the_load ?c h) \<le> totalLoad ?c"
    using inv(5) sum.remove [OF finite_hosts mem(1), of "the_load c"] mem(2) by (simp add: lm)
  moreover have "map_of (loadMap (ring ?c)) h = Some q \<Longrightarrow> q < next_cell ?c" for h q
    using inv(6) [rule_format, of h q] unfolding lm by (auto simp: update_conv' split: if_splits)
  ultimately show ?thesis unfolding loads_inv_def using inv(1-4) assms(2) by (simp add: ld lm(1,3,4) distinct_update)
qed

lemma new_loads: "loads_inv NewConsistentWithBoundedLoad"
  by (simp add: loads_inv_def NewConsistentWithBoundedLoad_def NewConsistent_def the_load_def load_of_def hosts_of_def)

lemma load_run:
  "loads_inv c \<Longrightarrow> loads_inv (fold (load_step hash) ops c)"
proof (induction ops arbitrary: c)
  case (Cons op ops)
  have "loads_inv (load_step hash op c)"
    using Cons.prems by (cases op) (simp_all add: add_node_loads Remove_loads UpdateLoad_loads)
  with Cons.IH show ?case by simp
qed simp

text \<open>Setting a load leaves the ring as it is.\<close>

lemma ring_UpdateLoad:
  "ring_inv hash (ring (UpdateLoad host load c)) = ring_inv hash (ring c)"
  "hosts_of (ring (UpdateLoad host load c)) = hosts_of (ring c)"
proof -
  show hs: "hosts_of (ring (UpdateLoad host load c)) = hosts_of (ring c)"
    by (auto simp: load_parts UpdateLoad_def load_of_def update_conv' split: option.splits)
  have k: "keys (ring (UpdateLoad host load c)) = keys (ring c)" "sortedSet (ring (UpdateLoad host load c)) = sortedSet (ring c)"
    by (simp_all add: UpdateLoad_def split: option.split)
  show "ring_inv hash (ring (UpdateLoad host load c)) = ring_inv hash (ring c)" unfolding ring_inv_def hs k ..
qed

lemma load_run_ring:
  assumes "ring_inv hash (ring c)" "no_collisions hash (hosts_of (ring c) \<union> op_host ` set ops)"
  shows "ring_inv hash (ring (fold (load_step hash) ops c))"
  using assms
proof (induction ops arbitrary: c)
  case (Cons op ops)
  let ?c = "load_step hash op c"
  have nc: "no_collisions hash (insert (op_host op) (hosts_of (ring c)))"
    using Cons.prems(2) by (rule no_collisions_subset) auto
  have inv: "ring_inv hash (ring ?c) \<and> hosts_of (ring ?c) \<subseteq> insert (op_host op) (hosts_of (ring c))"
  proof (cases op)
    case (AddHost host)
    with AddNode_inv [OF Cons.prems(1)] nc show ?thesis by (simp add: add_node_def)
  next
    case (SetLoad host load)
    with Cons.prems(1) show ?thesis by (auto simp: ring_UpdateLoad)
  next
    case (RemoveHost host)
    with DelNode_inv(1,2) [OF Cons.prems(1)] nc show ?thesis by (auto simp: Remove_def)
  qed
  have "no_collisions hash (hosts_of (ring ?c) \<union> op_host ` set ops)"
    using Cons.prems(2) by (rule no_collisions_subset) (use inv in auto)
  with Cons.IH inv show ?case by simp
qed simp

section \<open>The selector interface\<close>

text \<open>
  What a client of a selector relies on: hosts come and go, a selector without hosts answers with an error and
  one with hosts answers with one of them. A set of hosts is admissible when a predicate that is
  closed under subsets says so.
\<close>

locale node_selector =
  fixes new :: 's and opr :: "bool \<times> string \<Rightarrow> 's \<Rightarrow> 's" and answer :: "string \<Rightarrow> 's \<Rightarrow> string result option"
    and inv :: "'s \<Rightarrow> bool" and hosts :: "'s \<Rightarrow> string set" and admissible :: "string set \<Rightarrow> bool"
  assumes new_inv: "inv new" and new_hosts: "hosts new = {}"
    and admissible_subset: "admissible B \<Longrightarrow> A \<subseteq> B \<Longrightarrow> admissible A"
    and opr_inv: "inv s \<Longrightarrow> admissible (insert (snd op) (hosts s)) \<Longrightarrow> inv (opr op s)"
    and opr_hosts: "inv s \<Longrightarrow> admissible (insert (snd op) (hosts s)) \<Longrightarrow>
      hosts (opr op s) = (if fst op then insert (snd op) (hosts s) else hosts s - {snd op})"
    and answer_empty: "inv s \<Longrightarrow> hosts s = {} \<Longrightarrow> answer key s = Some (Inl ErrNoKeys)"
    and answer_host: "inv s \<Longrightarrow> hosts s \<noteq> {} \<Longrightarrow> \<exists>host \<in> hosts s. answer key s = Some (Inr host)"
begin

lemma run_from:
  "inv s \<Longrightarrow> admissible (hosts s \<union> snd ` set ops) \<Longrightarrow>
    inv (fold opr ops s) \<and> hosts (fold opr ops s) = fold (\<lambda>op A. if fst op then insert (snd op) A else A - {snd op}) ops (hosts s)"
proof (induction ops arbitrary: s)
  case (Cons op ops)
  have a: "admissible (insert (snd op) (hosts s))" using Cons.prems(2) by (rule admissible_subset) auto
  note hs = opr_hosts [OF Cons.prems(1) a]
  have "admissible (hosts (opr op s) \<union> snd ` set ops)"
    using Cons.prems(2) by (rule admissible_subset) (auto simp: hs split: if_splits)
  from Cons.IH [OF opr_inv [OF Cons.prems(1) a] this] show ?case by (simp add: hs)
qed simp

lemma run_new:
  "admissible (snd ` set ops) \<Longrightarrow> inv (fold opr ops new) \<and> hosts (fold opr ops new) = live_hosts ops"
  using run_from [OF new_inv] by (simp add: new_hosts live_hosts_def)

lemma membership:
  assumes "admissible (snd ` set ops)"
  shows "if live_hosts ops = {} then answer key (fold opr ops new) = Some (Inl ErrNoKeys)
    else \<exists>host \<in> live_hosts ops. answer key (fold opr ops new) = Some (Inr host)"
  using run_new [OF assms] answer_empty answer_host by (metis (no_types))

end

text \<open>Both selectors implement the interface.\<close>

lemma empty_keys: "ring_inv hash c \<Longrightarrow> keys c = [] \<longleftrightarrow> hosts_of c = {}"
  using host_position [of hash c] ring_length [of hash c] ring_positions [of hash c 0] by fastforce

lemma GetNode_member:
  assumes "ring_inv hash c" "hosts_of c \<noteq> {}"
  shows "\<exists>host \<in> hosts_of c. GetNode hash key c = Inr host"
  using GetNode_owner [OF assms(1), of key] empty_keys [OF assms(1)] assms(2) ring_inv_owner [OF assms(1)] by blast

lemma GetNode_empty: "ring_inv hash c \<Longrightarrow> hosts_of c = {} \<Longrightarrow> GetNode hash key c = Inl ErrNoKeys"
  by (simp add: GetNode_def empty_keys)

interpretation plain: node_selector NewConsistent "ring_op hash" "\<lambda>key c. Some (GetNode hash key c)" "ring_inv hash" hosts_of
    "no_collisions hash" for hash
proof
  fix c :: Consistent and op :: "bool \<times> string"
  assume a: "ring_inv hash c" "no_collisions hash (insert (snd op) (hosts_of c))"
  show "ring_inv hash (ring_op hash op c)" using AddNode_inv(1) [OF a] DelNode_inv(1) [OF a] by (simp add: ring_op_def)
  show "hosts_of (ring_op hash op c) = (if fst op then insert (snd op) (hosts_of c) else hosts_of c - {snd op})"
    using AddNode_inv(2) [OF a] DelNode_inv(2) [OF a] by (simp add: ring_op_def)
qed (auto simp: new_ring GetNode_member GetNode_empty intro: no_collisions_subset)

lemma new_bounded_ring: "ring NewConsistentWithBoundedLoad = NewConsistent"
  by (simp add: NewConsistentWithBoundedLoad_def)

lemma bounded_op_ring: "ring (bounded_op hash op c) = ring_op hash op (ring c)"
  by (simp add: bounded_op_def ring_op_def add_node_def Remove_def)

lemma bounded_answer_member:
  assumes "ring_inv hash (ring c)" "loads_inv c"
  shows "hosts_of (ring c) = {} \<Longrightarrow> bounded_answer hash key c = Some (Inl ErrNoKeys)"
    "hosts_of (ring c) \<noteq> {} \<Longrightarrow> \<exists>host \<in> hosts_of (ring c). bounded_answer hash key c = Some (Inr host)"
proof -
  show "bounded_answer hash key c = Some (Inl ErrNoKeys)" if "hosts_of (ring c) = {}"
    using that empty_keys [OF assms(1)] by (simp add: bounded_answer_def bounded_GetNode_def)
  show "\<exists>host \<in> hosts_of (ring c). bounded_answer hash key c = Some (Inr host)" if "hosts_of (ring c) \<noteq> {}"
    using bounded_GetNode_within_bound [OF assms that, of key] by (auto simp: bounded_answer_def)
qed

interpretation bounded: node_selector NewConsistentWithBoundedLoad "bounded_op hash" "bounded_answer hash"
    "\<lambda>c. ring_inv hash (ring c) \<and> loads_inv c" "\<lambda>c. hosts_of (ring c)" "no_collisions hash" for hash
proof
  fix c :: BoundedLoad and op :: "bool \<times> string"
  assume a: "ring_inv hash (ring c) \<and> loads_inv c" "no_collisions hash (insert (snd op) (hosts_of (ring c)))"
  have "loads_inv (bounded_op hash op c)" using a(1) by (simp add: bounded_op_def add_node_loads Remove_loads)
  then show "ring_inv hash (ring (bounded_op hash op c)) \<and> loads_inv (bounded_op hash op c)"
    using plain.opr_inv a by (simp add: bounded_op_ring)
  show "hosts_of (ring (bounded_op hash op c)) = (if fst op then insert (snd op) (hosts_of (ring c)) else hosts_of (ring c) - {snd op})"
    using plain.opr_hosts [of hash "ring c" op] a by (simp add: bounded_op_ring)
qed (auto simp: new_loads bounded_answer_member new_bounded_ring new_ring intro: no_collisions_subset)

lemma live_hosts_subset: "live_hosts ops \<subseteq> snd ` set ops"
proof -
  have "fold (\<lambda>op A. if fst op then insert (snd op) A else A - {snd op}) ops A \<subseteq> A \<union> snd ` set ops" for A
  proof (induction ops arbitrary: A)
    case (Cons op ops)
    show ?case using Cons.IH [of "if fst op then insert (snd op) A else A - {snd op}"] by (auto split: if_splits)
  qed simp
  from this [of "{}"] show ?thesis by (simp add: live_hosts_def)
qed

section \<open>Properties\<close>

lemma add_moves_to_new:
  assumes "ring_inv hash c" "no_collisions hash (insert host (hosts_of c))"
  shows "GetNode hash key (AddNode hash host c) \<in> {GetNode hash key c, Inr host}"
proof (cases "map_of (loadMap c) host")
  case None
  let ?c = "AddNode hash host c"
  let ?s = "successor (set (sortedSet ?c)) (hash key)"
  have inv: "ring_inv hash ?c" using AddNode_inv [OF assms] by blast
  note k = AddNode_keys [OF None, of hash]
  have "replica hash host 0 \<in> replicas hash host" by (simp add: replicas_def replicationFactor_def)
  then have "keys ?c \<noteq> []" using k [of "replica hash host 0"] by auto
  then obtain h where h: "GetNode hash key ?c = Inr h" "map_of (keys ?c) ?s = Some h" using GetNode_owner [OF inv] by blast
  show ?thesis
  proof (cases "?s \<in> replicas hash host")
    case True
    with h k [of ?s] show ?thesis by simp
  next
    case False
    have sub: "set (sortedSet c) \<subseteq> set (sortedSet ?c)"
      unfolding ring_inv_dom [OF assms(1)] ring_inv_dom [OF inv] map_of_dom k by auto
    have "?s \<in> set (sortedSet c)" unfolding ring_inv_dom [OF assms(1)] map_of_dom using False h(2) k [of ?s] by simp
    then have "GetNode hash key c = GetNode hash key ?c"
      by (rule GetNode_subring [OF assms(1) inv sub]) (simp add: k False)
    then show ?thesis by simp
  qed
next
  case (Some p)
  then show ?thesis by (simp add: AddNode_def)
qed

lemma delete_moves_only_own:
  assumes "ring_inv hash c" "no_collisions hash (insert host (hosts_of c))" "GetNode hash key c \<noteq> Inr host"
  shows "GetNode hash key (DelNode hash host c) = GetNode hash key c"
proof -
  let ?c = "DelNode hash host c"
  let ?s = "successor (set (sortedSet c)) (hash key)"
  note k = DelNode_inv(4) [OF assms(1,2)] and inv = DelNode_inv(1) [OF assms(1,2)]
  show ?thesis
  proof (cases "keys c = []")
    case True
    then have "fst ` set (keys ?c) = {}" unfolding map_of_dom k by simp
    with True show ?thesis by (simp add: GetNode_def)
  next
    case False
    then obtain h where h: "GetNode hash key c = Inr h" "map_of (keys c) ?s = Some h" using GetNode_owner [OF assms(1)] by blast
    have r: "h \<in> hosts_of c" "?s \<in> replicas hash h" using h(2) ring_inv_owner [OF assms(1)] by simp_all
    have "h \<noteq> host" using assms(3) h(1) by auto
    then have no: "?s \<notin> replicas hash host" using replicas_disjoint [OF assms(2), of h host ?s] r by auto
    have sub: "set (sortedSet ?c) \<subseteq> set (sortedSet c)"
      unfolding ring_inv_dom [OF assms(1)] ring_inv_dom [OF inv] map_of_dom k by auto
    have "?s \<in> set (sortedSet ?c)" unfolding ring_inv_dom [OF inv] map_of_dom using no h(2) k [of ?s] by simp
    then show ?thesis by (rule GetNode_subring [OF inv assms(1) sub]) (simp add: k no)
  qed
qed

text \<open>
  C34. Consistent hashing on any ring built by adding and deleting hosts whose replicas do not
  collide: adding a host moves a key to that host or leaves it where it is, and deleting a host
  moves only the keys that host had.
\<close>

theorem ring_stability:
  assumes "no_collisions hash (insert host (snd ` set ops))"
  shows "let c = fold (ring_op hash) ops NewConsistent in
    GetNode hash key (AddNode hash host c) \<in> {GetNode hash key c, Inr host} \<and>
    (GetNode hash key c \<noteq> Inr host \<longrightarrow> GetNode hash key (DelNode hash host c) = GetNode hash key c)"
proof -
  let ?c = "fold (ring_op hash) ops NewConsistent"
  have inv: "ring_inv hash ?c" "hosts_of ?c \<subseteq> snd ` set ops"
    using plain.run_new [of hash ops] no_collisions_subset [OF assms] live_hosts_subset [of ops] by auto
  have nc: "no_collisions hash (insert host (hosts_of ?c))" using assms by (rule no_collisions_subset) (use inv(2) in auto)
  show ?thesis unfolding Let_def using add_moves_to_new [OF inv(1) nc] delete_moves_only_own [OF inv(1) nc] by blast
qed

text \<open>
  C35. After any sequence of additions and deletions of hosts without colliding replicas both
  selectors answer every key with a host that was added and not deleted since, and with the error
  for an empty ring exactly when no host is left.
\<close>

theorem selectors_answer_live_hosts:
  assumes "no_collisions hash (snd ` set ops)"
  shows "if live_hosts ops = {}
    then GetNode hash key (fold (ring_op hash) ops NewConsistent) = Inl ErrNoKeys \<and>
      bounded_answer hash key (fold (bounded_op hash) ops NewConsistentWithBoundedLoad) = Some (Inl ErrNoKeys)
    else (\<exists>host \<in> live_hosts ops. GetNode hash key (fold (ring_op hash) ops NewConsistent) = Inr host) \<and>
      (\<exists>host \<in> live_hosts ops. bounded_answer hash key (fold (bounded_op hash) ops NewConsistentWithBoundedLoad) = Some (Inr host))"
  using plain.membership [OF assms, of key] bounded.membership [OF assms, of key] by (simp split: if_splits)


lemma bounded_loop_Some:
  assumes "bounded_loop i c = Some y"
  shows "\<not> (over_bound hash c \<and> i < length (sortedSet (ring c)))"
  using assms
proof (rule bounded_loop.raw_induct [rotated])
  fix loop i c y
  assume IH: "\<And>i c y. loop i c = Some y \<Longrightarrow> \<not> (over_bound hash c \<and> i < length (sortedSet (ring c)))"
    and body: "(case host_at (ring c) i of Inl e \<Rightarrow> Some (Inl e)
      | Inr host \<Rightarrow> (case loadOK host c of Inl e \<Rightarrow> Some (Inl e)
          | Inr (ok, c1) \<Rightarrow> if ok then Some (Inr (host, c1))
              else loop (if i + 1 \<ge> length (keys (ring c)) then 0 else i + 1) c1)) = Some y"
  show "\<not> (over_bound hash c \<and> i < length (sortedSet (ring c)))"
  proof
    assume a: "over_bound hash c \<and> i < length (sortedSet (ring c))"
    then have inv: "ring_inv hash (ring c)" "0 \<le> totalLoad c" by (simp_all add: over_bound_def)
    obtain host where h: "host_at (ring c) i = Inr host" "host \<in> hosts_of (ring c)"
      using ring_positions [OF inv(1)] a by blast
    then obtain v where v: "load_of c host = Some v" "load_bound c < v + 1" using a unfolding over_bound_def by blast
    have "loop (if i + 1 \<ge> length (keys (ring c)) then 0 else i + 1) c = Some y"
      using body h(1) v loadOK_eq [OF inv(2) v(1)] by simp
    from IH [OF this] next_position(1) [of i "length (keys (ring c))"] a ring_length [OF inv(1)] show False by simp
  qed
qed

lemma bounded_loop_diverges:
  "over_bound hash c \<Longrightarrow> i < length (sortedSet (ring c)) \<Longrightarrow> bounded_loop i c = None"
  using bounded_loop_Some by (cases "bounded_loop i c") auto

lemma over_bound_GetNode:
  assumes "over_bound hash c" "hosts_of (ring c) \<noteq> {}"
  shows "bounded_GetNode hash key c = None"
proof -
  have inv: "ring_inv hash (ring c)" using assms(1) by (simp add: over_bound_def)
  obtain k where k: "k < length (sortedSet (ring c))" using host_position [OF inv] assms(2) by blast
  then have "search (hash key) (ring c) < length (sortedSet (ring c))" by (auto simp: search_def Let_def)
  with bounded_loop_diverges [OF assms(1)] k ring_length [OF inv] show ?thesis by (auto simp: bounded_GetNode_def)
qed

text \<open>Hosts that were only added all point to the same cell.\<close>

lemma added_hosts:
  "map_of (loadMap (ring (fold (add_node hash) hosts c))) host =
     (case map_of (loadMap (ring c)) host of Some p \<Rightarrow> Some p | None \<Rightarrow> if host \<in> set hosts then Some 0 else None)"
  "cells (fold (add_node hash) hosts c) = cells c" "totalLoad (fold (add_node hash) hosts c) = totalLoad c"
  by (induction hosts arbitrary: c) (auto simp: add_node_def AddNode_loadMap update_conv' split: option.split)

lemma add_load_shared:
  assumes "map_of (loadMap (ring c)) host = Some 0"
  shows "Inc host c = Inr (c\<lparr>cells := (cells c)(0 := cells c 0 + 1), totalLoad := totalLoad c + 1\<rparr>)"
  using assms by (simp add: Inc_def add_load_def)

text \<open>
  C36. The loads of hosts that were only added are one shared variable: with three or more hosts,
  two increments put every host above its bound and the search for a host never returns.
\<close>

theorem shared_default_load_hangs:
  assumes "no_collisions hash (set hosts)" "3 \<le> card (set hosts)" "a \<in> set hosts" "b \<in> set hosts"
  shows "\<exists>c. bindR (Inc a (fold (add_node hash) hosts NewConsistentWithBoundedLoad)) (Inc b) = Inr c \<and>
    (\<forall>key. bounded_GetNode hash key c = None)"
proof -
  let ?d = "fold (add_node hash) hosts NewConsistentWithBoundedLoad"
  let ?c = "?d\<lparr>cells := (cells ?d)(0 := 2), totalLoad := 2\<rparr>"
  have lm: "map_of (loadMap (ring ?d)) host = (if host \<in> set hosts then Some 0 else None)" for host
    by (simp add: added_hosts NewConsistentWithBoundedLoad_def NewConsistent_def)
  have z: "cells ?d 0 = 0" "totalLoad ?d = 0" by (simp_all add: added_hosts NewConsistentWithBoundedLoad_def)
  have inc: "bindR (Inc a ?d) (Inc b) = Inr ?c" using assms(3,4) by (simp add: add_load_shared lm z)
  have "load_step hash \<circ> AddHost = add_node hash" by (rule ext)+ simp
  then have step: "fold (load_step hash) (map AddHost hosts) NewConsistentWithBoundedLoad = ?d" by (simp add: fold_map)
  have "loads_inv ?d" using load_run [OF new_loads, of hash "map AddHost hosts"] unfolding step .
  then have n: "card (hosts_of (ring ?d)) = length (loadMap (ring ?d))" by (intro card_hosts) (simp add: loads_inv_def)
  have hs: "hosts_of (ring ?d) = set hosts" unfolding load_parts lm by auto
  have inv: "ring_inv hash (ring ?d)"
    using load_run_ring [of hash NewConsistentWithBoundedLoad "map AddHost hosts"] assms(1)
    unfolding step by (simp add: image_image new_bounded_ring new_ring)
  have "3 div int (length (loadMap (ring ?d))) \<le> 1"
    using assms(2) n hs zdiv_mono2 [of 3 3 "int (length (loadMap (ring ?d)))"] by simp
  then have bound: "load_bound ?c \<le> 2" by (auto simp: load_bound_def ceil_125_def max_def)
  have "over_bound hash ?c" unfolding over_bound_def using inv bound by (auto simp: load_of_def lm hs)
  moreover have "hosts_of (ring ?c) \<noteq> {}" using hs assms(3) by auto
  ultimately show ?thesis using inc over_bound_GetNode by blast
qed

end
