(* ===== verification/Sample_Selector.thy ===== *)
theory Sample_Selector
  imports Selector
begin

text \<open>A hash without collisions on three hosts, and the selector properties at it.\<close>

definition sample_hash :: hash_fun where
  "sample_hash s = word_of_int (fold (\<lambda>ch n. 256 * n + of_char ch) s 0)"

definition sample_hosts :: "string list" where
  "sample_hosts = [''a'', ''b'', ''c'']"

lemma no_collisions_code:
  "distinct (map (\<lambda>(host, i). replica hash host i) (List.product hosts [0..<replicationFactor])) \<Longrightarrow> no_collisions hash (set hosts)"
  unfolding no_collisions_def distinct_map by (simp add: lessThan_atLeast0)

lemma sample_no_collisions: "no_collisions sample_hash (set sample_hosts)"
  by (rule no_collisions_code) code_simp

lemma sample_owner: "GetNode sample_hash ''k'' (fold (ring_op sample_hash) [(True, ''a''), (True, ''b'')] NewConsistent) = Inr ''a''"
  by code_simp

theorem ring_stability_witness:
  "let c = fold (ring_op sample_hash) [(True, ''a''), (True, ''b'')] NewConsistent in
    GetNode sample_hash ''k'' (AddNode sample_hash ''c'' c) \<in> {Inr ''a'', Inr ''c''} \<and>
    GetNode sample_hash ''k'' (DelNode sample_hash ''c'' c) = Inr ''a''"
proof -
  let ?ops = "[(True, ''a''), (True, ''b'')]"
  have "no_collisions sample_hash (insert ''c'' (snd ` set ?ops))"
    by (rule no_collisions_subset [OF sample_no_collisions]) (simp add: sample_hosts_def)
  from ring_stability [OF this, of "''k''"] show ?thesis unfolding Let_def sample_owner by simp
qed

theorem selectors_answer_live_hosts_witness:
  "(\<exists>host \<in> {''b''}. GetNode sample_hash ''k''
      (fold (ring_op sample_hash) [(True, ''a''), (True, ''b''), (False, ''a'')] NewConsistent) = Inr host) \<and>
   (\<exists>host \<in> {''b''}. bounded_answer sample_hash ''k''
      (fold (bounded_op sample_hash) [(True, ''a''), (True, ''b''), (False, ''a'')] NewConsistentWithBoundedLoad) = Some (Inr host))"
proof -
  let ?ops = "[(True, ''a''), (True, ''b''), (False, ''a'')]"
  have "no_collisions sample_hash (snd ` set ?ops)"
    by (rule no_collisions_subset [OF sample_no_collisions]) (simp add: sample_hosts_def)
  moreover have "live_hosts ?ops = {''b''}" by (auto simp: live_hosts_def)
  ultimately show ?thesis using selectors_answer_live_hosts [of sample_hash ?ops "''k''"] by simp
qed


theorem shared_default_load_hangs_witness:
  "\<exists>c. bindR (Inc ''a'' (fold (add_node sample_hash) sample_hosts NewConsistentWithBoundedLoad)) (Inc ''b'') = Inr c \<and>
    (\<forall>key. bounded_GetNode sample_hash key c = None)"
  by (rule shared_default_load_hangs [OF sample_no_collisions]) (simp_all add: sample_hosts_def)

end
