(* ===== verification/Room_Tables.thy ===== *)
theory Room_Tables
  imports Room_State Actions
begin

text \<open>
  The tables of the room server (\<open>src/storage/implements/roomserver\<close>), their statements, the functions of
  \<open>storage.go\<close> that the event processor calls, and the consumer that applies the updates of
  the asynchronous mode (\<open>src/dbwriter/consumers/room_dbev_consumer.go\<close>) with its eight channels and workers.
  A table is the list of its rows in the order in which they were inserted. The encryption plug-in, the JSON
  codec, the identifier generator and the failures of the connection are arguments. The columns that no
  statement of the code fills are left out.
\<close>

section \<open>Model\<close>

subsection \<open>Rows\<close>

record room_row =
  rr_nid :: int
  rr_id :: string
  latest_event_nids :: "int list"
  last_event_sent_nid :: int
  state_snapshot_nid :: int
  rr_depth :: int
  rr_version :: int

record membership_row =
  mr_room_nid :: int
  target_id :: string
  target_forget_nid :: int
  sender_id :: string
  membership_nid :: int
  mr_event_nid :: int
  mr_room_id :: string
  mr_version :: int

record 'j invite_row =
  invite_event_id :: string
  iv_room_nid :: int
  iv_target :: string
  iv_sender :: string
  retired :: bool
  invite_event_json :: 'j

record event_row =
  er_nid :: int
  er_room_nid :: int
  event_type_id :: string
  event_state_key_id :: string
  er_event_id :: string
  er_depth :: int
  er_snap :: int
  previous_event_id :: string
  offsets :: int
  er_domain :: string

record 'j tables =
  tb_rooms :: "room_row list"
  tb_membership :: "membership_row list"
  tb_invites :: "'j invite_row list"
  tb_events :: "event_row list"
  tb_json :: "(int \<times> 'j) list"
  tb_mirror :: "(int \<times> 'j) list"
  tb_snapshots :: "(int \<times> int \<times> int list) list"
  tb_domains :: "((int \<times> string) \<times> int) list"
  tb_aliases :: "(string \<times> string) list"
  tb_settings :: "string smap"

definition no_tables :: "'j tables" where
  "no_tables = \<lparr>tb_rooms = [], tb_membership = [], tb_invites = [], tb_events = [], tb_json = [], tb_mirror = [],
     tb_snapshots = [], tb_domains = [], tb_aliases = [], tb_settings = []\<rparr>"

text \<open>The encryption plug-in and the JSON codec of events; errors of the latter are ignored when a row is read.\<close>

record ('c, 'j) row_codec =
  CheckCrypto :: "string \<Rightarrow> bool"
  CheckMirror :: "string \<Rightarrow> bool"
  Encrypt :: "'j \<Rightarrow> 'j"
  Decrypt :: "'j \<Rightarrow> 'j"
  ev_JSON :: "'c Event \<Rightarrow> 'j"
  NewEventFromUntrustedJSON :: "'j \<Rightarrow> 'c Event"

type_synonym 'j statement = "(unit, 'j tables) action"

abbreviation duplicate_key :: go_error where "duplicate_key \<equiv> Error ''duplicate key value''"

subsection \<open>Rooms\<close>

definition insertRoomNIDRaw :: "int \<Rightarrow> string \<Rightarrow> 'j statement" where
  "insertRoomNIDRaw nid room t =
     (if \<exists>r \<in> set (tb_rooms t). rr_id r = room then (Inr (), t)
      else if \<exists>r \<in> set (tb_rooms t). rr_nid r = nid then (Inl duplicate_key, t)
      else (Inr (), t\<lparr>tb_rooms := tb_rooms t @
        [\<lparr>rr_nid = nid, rr_id = room, latest_event_nids = [], last_event_sent_nid = 0, state_snapshot_nid = 0,
          rr_depth = 0, rr_version = 0\<rparr>]\<rparr>))"

definition selectRoomInfo :: "string \<Rightarrow> 'j tables \<Rightarrow> (int \<times> int \<times> int) result" where
  "selectRoomInfo room t =
     (case find (\<lambda>r. rr_id r = room) (tb_rooms t) of
        None \<Rightarrow> Inl ErrNoRows
      | Some r \<Rightarrow> Inr (rr_nid r, state_snapshot_nid r, rr_depth r))"

definition updateLatestEventNIDsRaw :: "int \<Rightarrow> int list \<Rightarrow> int \<Rightarrow> int \<Rightarrow> int \<Rightarrow> int \<Rightarrow> 'j statement" where
  "updateLatestEventNIDsRaw nid nids lastSent snap version depth t =
     (Inr (), t\<lparr>tb_rooms := map (\<lambda>r. if rr_nid r = nid \<and> rr_version r < version
        then r\<lparr>latest_event_nids := nids, last_event_sent_nid := lastSent, state_snapshot_nid := snap,
               rr_version := version, rr_depth := depth\<rparr>
        else r) (tb_rooms t)\<rparr>)"

definition onUpdateRoomDepth :: "int \<Rightarrow> int \<Rightarrow> 'j statement" where
  "onUpdateRoomDepth depth nid t =
     (Inr (), t\<lparr>tb_rooms := map (\<lambda>r. if rr_nid r = nid then r\<lparr>rr_depth := depth\<rparr> else r) (tb_rooms t)\<rparr>)"

definition selectRoomExists :: "string \<Rightarrow> 'j tables \<Rightarrow> bool" where
  "selectRoomExists room t \<longleftrightarrow> length (filter (\<lambda>r. rr_id r = room) (tb_rooms t)) > 0"

definition getAllRooms :: "nat \<Rightarrow> nat \<Rightarrow> 'j tables \<Rightarrow> (string \<times> int) list" where
  "getAllRooms limit offset t = map (\<lambda>r. (rr_id r, rr_nid r)) (take limit (drop offset (tb_rooms t)))"

text \<open>A room without a row has the number 0.\<close>

definition db_RoomNID :: "string \<Rightarrow> 'j tables \<Rightarrow> int" where
  "db_RoomNID room t = (case selectRoomInfo room t of Inl _ \<Rightarrow> 0 | Inr (nid, _, _) \<Rightarrow> nid)"

subsection \<open>Memberships\<close>

definition MembershipStateLeaveOrBan :: int where "MembershipStateLeaveOrBan = 1"
definition MembershipStateInvite :: int where "MembershipStateInvite = 2"
definition MembershipStateJoin :: int where "MembershipStateJoin = 3"

definition membershipInsertdRaw :: "int \<Rightarrow> string \<Rightarrow> string \<Rightarrow> int \<Rightarrow> int \<Rightarrow> 'j statement" where
  "membershipInsertdRaw nid target room membership event t =
     (if \<exists>r \<in> set (tb_membership t). mr_room_nid r = nid \<and> target_id r = target then (Inr (), t)
      else (Inr (), t\<lparr>tb_membership := tb_membership t @
        [\<lparr>mr_room_nid = nid, target_id = target, target_forget_nid = - 1, sender_id = [], membership_nid = membership,
          mr_event_nid = event, mr_room_id = room, mr_version = 0\<rparr>]\<rparr>))"

definition membershipUpdateRaw :: "int \<Rightarrow> string \<Rightarrow> string \<Rightarrow> int \<Rightarrow> int \<Rightarrow> int \<Rightarrow> 'j statement" where
  "membershipUpdateRaw nid target sender membership event version t =
     (Inr (), t\<lparr>tb_membership := map (\<lambda>r.
        if mr_room_nid r = nid \<and> target_id r = target \<and> mr_version r < version
        then r\<lparr>sender_id := sender, membership_nid := membership, mr_event_nid := event, mr_version := version\<rparr>
        else r) (tb_membership t)\<rparr>)"

definition membershipForgetUpdateRaw :: "int \<Rightarrow> string \<Rightarrow> int \<Rightarrow> 'j statement" where
  "membershipForgetUpdateRaw nid target forgetNid t =
     (Inr (), t\<lparr>tb_membership := map (\<lambda>r.
        if mr_room_nid r = nid \<and> target_id r = target \<and> target_forget_nid r = - 1
        then r\<lparr>target_forget_nid := forgetNid\<rparr> else r) (tb_membership t)\<rparr>)"

definition selectMembershipsFromTarget :: "string \<Rightarrow> 'j tables \<Rightarrow> int smap" where
  "selectMembershipsFromTarget target t =
     fold (\<lambda>r m. store (mr_room_id r) (membership_nid r) m) (filter (\<lambda>r. target_id r = target) (tb_membership t)) []"

definition GetUserRooms :: "string \<Rightarrow> 'j tables \<Rightarrow> string list \<times> string list \<times> string list" where
  "GetUserRooms user t =
     (let m = selectMembershipsFromTarget user t in
      (map fst (filter (\<lambda>(_, s). s = MembershipStateJoin) m),
       map fst (filter (\<lambda>(_, s). s = MembershipStateInvite) m),
       map fst (filter (\<lambda>(_, s). s \<noteq> MembershipStateJoin \<and> s \<noteq> MembershipStateInvite) m)))"

subsection \<open>Invitations, snapshots, domains, aliases, settings\<close>

definition insertInviteEventRaw :: "string \<Rightarrow> int \<Rightarrow> string \<Rightarrow> string \<Rightarrow> 'j \<Rightarrow> 'j statement" where
  "insertInviteEventRaw event nid target sender json t =
     (if \<exists>r \<in> set (tb_invites t). invite_event_id r = event then (Inr (), t)
      else (Inr (), t\<lparr>tb_invites := tb_invites t @
        [\<lparr>invite_event_id = event, iv_room_nid = nid, iv_target = target, iv_sender = sender, retired = False,
          invite_event_json = json\<rparr>]\<rparr>))"

definition updateInviteRetiredRaw :: "int \<Rightarrow> string \<Rightarrow> 'j statement" where
  "updateInviteRetiredRaw nid target t =
     (Inr (), t\<lparr>tb_invites := map (\<lambda>r. if iv_room_nid r = nid \<and> iv_target r = target \<and> \<not> retired r
        then r\<lparr>retired := True\<rparr> else r) (tb_invites t)\<rparr>)"

definition insertStateRaw :: "int \<Rightarrow> int \<Rightarrow> int list \<Rightarrow> 'j statement" where
  "insertStateRaw snap nid nids t =
     (if \<exists>r \<in> set (tb_snapshots t). fst r = snap then (Inr (), t)
      else (Inr (), t\<lparr>tb_snapshots := tb_snapshots t @ [(snap, nid, nids)]\<rparr>))"

definition selectState :: "int \<Rightarrow> 'j tables \<Rightarrow> (int \<times> int list) result" where
  "selectState snap t = (case map_of (tb_snapshots t) snap of None \<Rightarrow> Inl ErrNoRows | Some r \<Rightarrow> Inr r)"

definition insertRoomDomainsRaw :: "int \<Rightarrow> string \<Rightarrow> int \<Rightarrow> 'j statement" where
  "insertRoomDomainsRaw nid domain offset t =
     (Inr (), t\<lparr>tb_domains :=
        (if \<exists>r \<in> set (tb_domains t). fst r = (nid, domain)
         then map (\<lambda>r. if fst r = (nid, domain) then (fst r, offset) else r) (tb_domains t)
         else tb_domains t @ [((nid, domain), offset)])\<rparr>)"

definition selectRoomDomains :: "int \<Rightarrow> 'j tables \<Rightarrow> int smap" where
  "selectRoomDomains nid t =
     map (\<lambda>r. (snd (fst r), snd r)) (filter (\<lambda>r. fst (fst r) = nid) (tb_domains t))"

definition insertRoomAliasRaw :: "string \<Rightarrow> string \<Rightarrow> 'j statement" where
  "insertRoomAliasRaw alias room t =
     (if \<exists>r \<in> set (tb_aliases t). fst r = alias then (Inr (), t)
      else (Inr (), t\<lparr>tb_aliases := tb_aliases t @ [(alias, room)]\<rparr>))"

definition deleteRoomAliasRaw :: "string \<Rightarrow> 'j statement" where
  "deleteRoomAliasRaw alias t = (Inr (), t\<lparr>tb_aliases := filter (\<lambda>r. fst r \<noteq> alias) (tb_aliases t)\<rparr>)"

definition selectRoomIDFromAlias :: "string \<Rightarrow> 'j tables \<Rightarrow> string" where
  "selectRoomIDFromAlias alias t = (case map_of (tb_aliases t) alias of None \<Rightarrow> [] | Some room \<Rightarrow> room)"

definition selectAliasesFromRoomID :: "string \<Rightarrow> 'j tables \<Rightarrow> string list" where
  "selectAliasesFromRoomID room t = map fst (filter (\<lambda>r. snd r = room) (tb_aliases t))"

definition insertSettingRaw :: "string \<Rightarrow> string \<Rightarrow> 'j statement" where
  "insertSettingRaw key val t = (Inr (), t\<lparr>tb_settings := store key val (tb_settings t)\<rparr>)"

definition selectSettingKey :: "string \<Rightarrow> 'j tables \<Rightarrow> string" where
  "selectSettingKey key t = (case map_of (tb_settings t) key of None \<Rightarrow> [] | Some v \<Rightarrow> v)"

subsection \<open>Events\<close>

definition insertEventRaw :: "event_row \<Rightarrow> 'j statement" where
  "insertEventRaw row t =
     (if \<exists>r \<in> set (tb_events t). er_event_id r = er_event_id row then (Inr (), t)
      else if \<exists>r \<in> set (tb_events t). er_nid r = er_nid row then (Inl duplicate_key, t)
      else (Inr (), t\<lparr>tb_events := tb_events t @ [row]\<rparr>))"

definition onUpdateRoomEvent :: "int \<Rightarrow> int \<Rightarrow> int \<Rightarrow> int \<Rightarrow> string \<Rightarrow> 'j statement" where
  "onUpdateRoomEvent event nid depth offset domain t =
     (Inr (), t\<lparr>tb_events := map (\<lambda>r. if er_room_nid r = nid \<and> er_nid r = event
        then r\<lparr>offsets := offset, er_domain := domain, er_depth := depth\<rparr> else r) (tb_events t)\<rparr>)"

definition insert_json :: "int \<Rightarrow> 'j \<Rightarrow> (int \<times> 'j) list \<Rightarrow> (int \<times> 'j) list" where
  "insert_json nid json rows = (if \<exists>r \<in> set rows. fst r = nid then rows else rows @ [(nid, json)])"

definition insertEventJSONRaw :: "('c, 'j) row_codec \<Rightarrow> int \<Rightarrow> 'j \<Rightarrow> string \<Rightarrow> 'j statement" where
  "insertEventJSONRaw cd nid json ty t =
     (if CheckCrypto cd ty then
        (Inr (), t\<lparr>tb_json := insert_json nid (Encrypt cd json) (tb_json t),
                   tb_mirror := (if CheckMirror cd ty then insert_json nid json (tb_mirror t) else tb_mirror t)\<rparr>)
      else (Inr (), t\<lparr>tb_json := insert_json nid json (tb_json t)\<rparr>))"

text \<open>The types of the state events that a room is rebuilt from.\<close>

definition stored_state_types :: "string list" where
  "stored_state_types = [''m.room.create'', ''m.room.member'', ''m.room.power_levels'', ''m.room.join_rules'',
     ''m.room.third_party_invite'', ''m.room.history_visibility'', ''m.room.visibility'', ''m.room.name'',
     ''m.room.topic'', ''m.room.desc'', ''m.room.pinned_events'', ''m.room.aliases'', ''m.room.canonical_alias'']"

definition getRoomsStateEvNID :: "int \<Rightarrow> 'j tables \<Rightarrow> int list" where
  "getRoomsStateEvNID nid t =
     sort (map er_nid (filter (\<lambda>r. er_room_nid r = nid \<and> event_type_id r \<in> set stored_state_types) (tb_events t)))"

text \<open>The inner join of the rows of both event tables, in the order of the event numbers.\<close>

definition read_json :: "('c, 'j) row_codec \<Rightarrow> string \<Rightarrow> 'j \<Rightarrow> 'c Event" where
  "read_json cd ty json = NewEventFromUntrustedJSON cd (if CheckCrypto cd ty then Decrypt cd json else json)"

definition bulkEvents :: "('c, 'j) row_codec \<Rightarrow> int list \<Rightarrow> 'j tables \<Rightarrow> ('c Event \<times> int) list" where
  "bulkEvents cd nids t =
     map (\<lambda>(nid, json, ty). (read_json cd ty json, nid))
       (sort_key fst (concat (map (\<lambda>(nid, json). map (\<lambda>r. (nid, json, event_type_id r))
          (filter (\<lambda>r. er_nid r = nid) (tb_events t)))
        (filter (\<lambda>(nid, _). nid \<in> set nids) (tb_json t)))))"

definition GetRoomStates :: "('c, 'j) row_codec \<Rightarrow> string \<Rightarrow> 'j tables \<Rightarrow> ('c Event \<times> int) list" where
  "GetRoomStates cd room t = bulkEvents cd (getRoomsStateEvNID (db_RoomNID room t) t) t"

definition loadEventNIDByID :: "string \<Rightarrow> 'j tables \<Rightarrow> int result" where
  "loadEventNIDByID event t =
     (case find (\<lambda>r. er_event_id r = event) (tb_events t) of None \<Rightarrow> Inl ErrNoRows | Some r \<Rightarrow> Inr (er_nid r))"

definition selectEventStateSnapshotNID :: "string \<Rightarrow> 'j tables \<Rightarrow> int result" where
  "selectEventStateSnapshotNID event t =
     (case find (\<lambda>r. er_event_id r = event) (tb_events t) of None \<Rightarrow> Inl ErrNoRows | Some r \<Rightarrow> Inr (er_snap r))"

text \<open>The pages of a back-fill: the events of a domain before or after a number, nearest first.\<close>

definition selectBackFillEvNIDUnLimited :: "int \<Rightarrow> string \<Rightarrow> int \<Rightarrow> 'j tables \<Rightarrow> int list" where
  "selectBackFillEvNIDUnLimited nid domain event t =
     rev (sort (map er_nid (filter (\<lambda>r. er_room_nid r = nid \<and> er_domain r = domain \<and> er_nid r < event) (tb_events t))))"

definition selectBackFillEvNID :: "int \<Rightarrow> string \<Rightarrow> int \<Rightarrow> nat \<Rightarrow> 'j tables \<Rightarrow> int list" where
  "selectBackFillEvNID nid domain event limit t = take limit (selectBackFillEvNIDUnLimited nid domain event t)"

definition selectBackFillEvForwardNIDUnLimited :: "int \<Rightarrow> string \<Rightarrow> int \<Rightarrow> 'j tables \<Rightarrow> int list" where
  "selectBackFillEvForwardNIDUnLimited nid domain event t =
     sort (map er_nid (filter (\<lambda>r. er_room_nid r = nid \<and> er_domain r = domain \<and> event < er_nid r) (tb_events t)))"

definition selectBackFillEvFowradNID :: "int \<Rightarrow> string \<Rightarrow> int \<Rightarrow> nat \<Rightarrow> 'j tables \<Rightarrow> int list" where
  "selectBackFillEvFowradNID nid domain event limit t = take limit (selectBackFillEvForwardNIDUnLimited nid domain event t)"

definition BackFillNids :: "int \<Rightarrow> string \<Rightarrow> int \<Rightarrow> int \<Rightarrow> string \<Rightarrow> 'j tables \<Rightarrow> int list" where
  "BackFillNids nid domain event limit dir t =
     (if limit > 0 then
        if dir = ''f'' then selectBackFillEvFowradNID nid domain event (nat limit) t
        else selectBackFillEvNID nid domain event (nat limit) t
      else
        if dir = ''f'' then selectBackFillEvForwardNIDUnLimited nid domain event t
        else selectBackFillEvNIDUnLimited nid domain event t)"

definition selectRoomEventsByDomainOffset :: "int \<Rightarrow> string \<Rightarrow> int \<Rightarrow> nat \<Rightarrow> 'j tables \<Rightarrow> int list" where
  "selectRoomEventsByDomainOffset nid domain offset limit t =
     take limit (map er_nid (sort_key offsets
       (filter (\<lambda>r. er_room_nid r = nid \<and> er_domain r = domain \<and> offset \<le> offsets r) (tb_events t))))"

subsection \<open>Updates as messages\<close>

datatype 'j db_event =
    EventJsonInsert int 'j string
  | EventInsert event_row
  | EventRoomInsert int string
  | EventRoomUpdate int "int list" int int int int
  | EventStateSnapInsert int int "int list"
  | EventInviteInsert string int string string 'j
  | EventInviteUpdate int string
  | EventMembershipInsert int string string int int
  | EventMembershipUpdate int string string int int int
  | EventMembershipForgetUpdate int string int
  | AliaseInsert string string
  | AliaseDelete string
  | RoomDomainInsert int string int
  | RoomEventUpdate int int int int string
  | RoomDepthUpdate int int
  | SettingsInsert string string

text \<open>The worker's dispatch to the statement.\<close>

fun process_db_event :: "('c, 'j) row_codec \<Rightarrow> 'j db_event \<Rightarrow> 'j statement" where
  "process_db_event cd (EventJsonInsert nid json ty) = insertEventJSONRaw cd nid json ty"
| "process_db_event cd (EventInsert row) = insertEventRaw row"
| "process_db_event cd (EventRoomInsert nid room) = insertRoomNIDRaw nid room"
| "process_db_event cd (EventRoomUpdate nid nids lastSent snap version depth) =
     updateLatestEventNIDsRaw nid nids lastSent snap version depth"
| "process_db_event cd (EventStateSnapInsert snap nid nids) = insertStateRaw snap nid nids"
| "process_db_event cd (EventInviteInsert event nid target sender json) = insertInviteEventRaw event nid target sender json"
| "process_db_event cd (EventInviteUpdate nid target) = updateInviteRetiredRaw nid target"
| "process_db_event cd (EventMembershipInsert nid target room membership event) =
     membershipInsertdRaw nid target room membership event"
| "process_db_event cd (EventMembershipUpdate nid target sender membership event version) =
     membershipUpdateRaw nid target sender membership event version"
| "process_db_event cd (EventMembershipForgetUpdate nid target forgetNid) = membershipForgetUpdateRaw nid target forgetNid"
| "process_db_event cd (AliaseInsert alias room) = insertRoomAliasRaw alias room"
| "process_db_event cd (AliaseDelete alias) = deleteRoomAliasRaw alias"
| "process_db_event cd (RoomDomainInsert nid domain offset) = insertRoomDomainsRaw nid domain offset"
| "process_db_event cd (RoomEventUpdate event nid depth offset domain) = onUpdateRoomEvent event nid depth offset domain"
| "process_db_event cd (RoomDepthUpdate nid depth) = onUpdateRoomDepth depth nid"
| "process_db_event cd (SettingsInsert key val) = insertSettingRaw key val"

text \<open>The channel a message is put on.\<close>

fun chanid :: "'j db_event \<Rightarrow> nat" where
  "chanid (EventJsonInsert _ _ _) = 0"
| "chanid (EventInsert _) = 1"
| "chanid (RoomEventUpdate _ _ _ _ _) = 1"
| "chanid (EventRoomInsert _ _) = 2"
| "chanid (EventRoomUpdate _ _ _ _ _ _) = 2"
| "chanid (RoomDepthUpdate _ _) = 2"
| "chanid (EventStateSnapInsert _ _ _) = 3"
| "chanid (SettingsInsert _ _) = 3"
| "chanid (EventInviteInsert _ _ _ _ _) = 4"
| "chanid (EventInviteUpdate _ _) = 4"
| "chanid (EventMembershipInsert _ _ _ _ _) = 5"
| "chanid (EventMembershipUpdate _ _ _ _ _ _) = 5"
| "chanid (EventMembershipForgetUpdate _ _ _) = 5"
| "chanid (AliaseInsert _ _) = 6"
| "chanid (AliaseDelete _) = 6"
| "chanid (RoomDomainInsert _ _ _) = 7"

text \<open>The consumer: messages not yet taken, the channels, the tables.\<close>

record 'j consumer =
  incoming :: "'j db_event list"
  msgChan :: "nat \<Rightarrow> 'j db_event list"
  written :: "'j tables"

definition OnMessage :: "'j db_event \<Rightarrow> (nat \<Rightarrow> 'j db_event list) \<Rightarrow> nat \<Rightarrow> 'j db_event list" where
  "OnMessage e chans = chans(chanid e := chans (chanid e) @ [e])"

inductive consumer_step :: "('c, 'j) row_codec \<Rightarrow> 'j consumer \<Rightarrow> 'j consumer \<Rightarrow> bool" for cd where
  take_message: "incoming s = e # es \<Longrightarrow>
    consumer_step cd s (s\<lparr>incoming := es, msgChan := OnMessage e (msgChan s)\<rparr>)"
| startWorker: "msgChan s i = e # es \<Longrightarrow>
    consumer_step cd s (s\<lparr>msgChan := (msgChan s)(i := es), written := snd (process_db_event cd e (written s))\<rparr>)"

subsection \<open>The functions of the storage\<close>

text \<open>
  The connection: whether updates are sent as messages, the identifiers in turn, and the failure of the
  \<open>k\<close>-th call of the transport or the database.
\<close>

record ('c, 'j) db_env =
  db_codec :: "('c, 'j) row_codec"
  AsyncSave :: bool
  db_Next :: "nat \<Rightarrow> int result"
  db_fail :: "nat \<Rightarrow> go_error option"

record 'j db_state =
  db_tables :: "'j tables"
  sent :: "'j db_event list"
  ids_taken :: nat
  calls :: nat

text \<open>An update is sent as a message, which may be lost without an error, or executed.\<close>

definition save_event :: "('c, 'j) db_env \<Rightarrow> 'j db_event \<Rightarrow> (unit, ('j, 'z) db_state_scheme) action" where
  "save_event env e s =
     (let s1 = s\<lparr>calls := calls s + 1\<rparr> in
      if AsyncSave env then (Inr (), if db_fail env (calls s) = None then s1\<lparr>sent := sent s @ [e]\<rparr> else s1)
      else
        (case db_fail env (calls s) of
           Some err \<Rightarrow> (Inl err, s1)
         | None \<Rightarrow>
             (case process_db_event (db_codec env) e (db_tables s) of (r, t) \<Rightarrow> (r, s1\<lparr>db_tables := t\<rparr>))))"

definition take_id :: "('c, 'j) db_env \<Rightarrow> (int, ('j, 'z) db_state_scheme) action" where
  "take_id env s = (db_Next env (ids_taken s), s\<lparr>ids_taken := ids_taken s + 1\<rparr>)"

text \<open>A version is the generator's result also on an error, where it is zero.\<close>

definition take_version :: "('c, 'j) db_env \<Rightarrow> (int, ('j, 'z) db_state_scheme) action" where
  "take_version env = bindS (tryS (take_id env)) (\<lambda>r. returnS (case r of Inr v \<Rightarrow> v | Inl _ \<Rightarrow> 0))"

definition AssignRoomNID :: "('c, 'j) db_env \<Rightarrow> string \<Rightarrow> (int, ('j, 'z) db_state_scheme) action" where
  "AssignRoomNID env room =
     bindS (take_id env) (\<lambda>nid. bindS (save_event env (EventRoomInsert nid room)) (\<lambda>_. returnS nid))"

text \<open>The message of the asynchronous mode carries no list of latest events.\<close>

definition SetLatestEvents ::
  "('c, 'j) db_env \<Rightarrow> int \<Rightarrow> int \<Rightarrow> int \<Rightarrow> int \<Rightarrow> (unit, ('j, 'z) db_state_scheme) action" where
  "SetLatestEvents env nid lastSent snap depth =
     bindS (take_version env) (\<lambda>version.
       save_event env (EventRoomUpdate nid (if AsyncSave env then [] else [lastSent]) lastSent snap version depth))"

definition AddState :: "('c, 'j) db_env \<Rightarrow> int \<Rightarrow> int list \<Rightarrow> (int, ('j, 'z) db_state_scheme) action" where
  "AddState env nid nids =
     bindS (take_id env) (\<lambda>snap. bindS (save_event env (EventStateSnapInsert snap nid nids)) (\<lambda>_. returnS snap))"

definition SaveRoomDomainsOffset ::
  "('c, 'j) db_env \<Rightarrow> int \<Rightarrow> string \<Rightarrow> int \<Rightarrow> (unit, ('j, 'z) db_state_scheme) action" where
  "SaveRoomDomainsOffset env nid domain offset = save_event env (RoomDomainInsert nid domain offset)"

definition updateMembership ::
  "('c, 'j) db_env \<Rightarrow> int \<Rightarrow> string \<Rightarrow> string \<Rightarrow> int \<Rightarrow> int \<Rightarrow> (unit, ('j, 'z) db_state_scheme) action" where
  "updateMembership env nid target sender membership event =
     bindS (take_version env) (\<lambda>version. save_event env (EventMembershipUpdate nid target sender membership event version))"

definition SetToInvite ::
  "('c, 'j) db_env \<Rightarrow> int \<Rightarrow> string \<Rightarrow> string \<Rightarrow> string \<Rightarrow> 'j \<Rightarrow> int \<Rightarrow> string \<Rightarrow> string \<Rightarrow>
    (unit, ('j, 'z) db_state_scheme) action" where
  "SetToInvite env nid target sender event json eventNID pre room =
     bindS (save_event env (EventInviteInsert event nid target sender json)) (\<lambda>_.
       if pre = [] then save_event env (EventMembershipInsert nid target room MembershipStateInvite eventNID)
       else updateMembership env nid target sender MembershipStateInvite eventNID)"

definition SetToJoin ::
  "('c, 'j) db_env \<Rightarrow> int \<Rightarrow> string \<Rightarrow> string \<Rightarrow> int \<Rightarrow> string \<Rightarrow> string \<Rightarrow>
    (unit, ('j, 'z) db_state_scheme) action" where
  "SetToJoin env nid target sender eventNID pre room =
     (if pre = [] then save_event env (EventMembershipInsert nid target room MembershipStateJoin eventNID)
      else
        bindS (if pre = ''invite'' then save_event env (EventInviteUpdate nid target) else returnS ()) (\<lambda>_.
          updateMembership env nid target sender MembershipStateJoin eventNID))"

definition SetToLeave ::
  "('c, 'j) db_env \<Rightarrow> int \<Rightarrow> string \<Rightarrow> string \<Rightarrow> int \<Rightarrow> string \<Rightarrow> string \<Rightarrow>
    (unit, ('j, 'z) db_state_scheme) action" where
  "SetToLeave env nid target sender eventNID pre room =
     bindS (save_event env (EventInviteUpdate nid target)) (\<lambda>_.
       if pre = [] then save_event env (EventMembershipInsert nid target room MembershipStateLeaveOrBan eventNID)
       else updateMembership env nid target sender MembershipStateLeaveOrBan eventNID)"

definition SetToForget ::
  "('c, 'j) db_env \<Rightarrow> int \<Rightarrow> string \<Rightarrow> int \<Rightarrow> string \<Rightarrow> string \<Rightarrow> (unit, ('j, 'z) db_state_scheme) action" where
  "SetToForget env nid target eventNID pre room =
     (if pre = [] then save_event env (EventMembershipInsert nid target room MembershipStateLeaveOrBan eventNID)
      else save_event env (EventMembershipForgetUpdate nid target eventNID))"

definition insertEvent :: "('c, 'j) db_env \<Rightarrow> event_row \<Rightarrow> (int, ('j, 'z) db_state_scheme) action" where
  "insertEvent env row =
     bindS (if er_nid row = 0 then take_id env else returnS (er_nid row)) (\<lambda>nid.
       bindS (save_event env (EventInsert (row\<lparr>er_nid := nid\<rparr>))) (\<lambda>_. returnS nid))"

definition row_of :: "'c Event \<Rightarrow> int \<Rightarrow> int \<Rightarrow> string \<Rightarrow> event_row" where
  "row_of ev nid snap ref =
     \<lparr>er_nid = EventNID ev, er_room_nid = nid, event_type_id = EvType ev,
      event_state_key_id = (case StateKey ev of None \<Rightarrow> [] | Some k \<Rightarrow> k), er_event_id = EventID ev,
      er_depth = Depth ev, er_snap = snap, previous_event_id = ref, offsets = DomainOffset ev,
      er_domain = (case DomainFromID (Sender ev) of Inl _ \<Rightarrow> [] | Inr d \<Rightarrow> d)\<rparr>"

definition StoreEvent ::
  "('c, 'j) db_env \<Rightarrow> 'c Event \<Rightarrow> int \<Rightarrow> int \<Rightarrow> string \<Rightarrow> (unit, ('j, 'z) db_state_scheme) action" where
  "StoreEvent env ev nid snap ref =
     bindS (insertEvent env (row_of ev nid snap ref)) (\<lambda>eventNID.
       save_event env (EventJsonInsert eventNID (ev_JSON (db_codec env) ev) (EvType ev)))"

definition SetRoomAlias :: "('c, 'j) db_env \<Rightarrow> string \<Rightarrow> string \<Rightarrow> (unit, ('j, 'z) db_state_scheme) action" where
  "SetRoomAlias env alias room = save_event env (AliaseInsert alias room)"

definition RemoveRoomAlias :: "('c, 'j) db_env \<Rightarrow> string \<Rightarrow> (unit, ('j, 'z) db_state_scheme) action" where
  "RemoveRoomAlias env alias = save_event env (AliaseDelete alias)"

definition UpdateRoomEvent ::
  "('c, 'j) db_env \<Rightarrow> int \<Rightarrow> int \<Rightarrow> int \<Rightarrow> int \<Rightarrow> string \<Rightarrow> (unit, ('j, 'z) db_state_scheme) action" where
  "UpdateRoomEvent env event nid depth offset domain = save_event env (RoomEventUpdate event nid depth offset domain)"

definition UpdateRoomDepth :: "('c, 'j) db_env \<Rightarrow> int \<Rightarrow> int \<Rightarrow> (unit, ('j, 'z) db_state_scheme) action" where
  "UpdateRoomDepth env depth nid = save_event env (RoomDepthUpdate nid depth)"

definition SaveSettings :: "('c, 'j) db_env \<Rightarrow> string \<Rightarrow> string \<Rightarrow> (unit, ('j, 'z) db_state_scheme) action" where
  "SaveSettings env key val = save_event env (SettingsInsert key val)"

section \<open>Specification\<close>

text \<open>The tables after a message.\<close>

definition apply_event :: "('c, 'j) row_codec \<Rightarrow> 'j db_event \<Rightarrow> 'j tables \<Rightarrow> 'j tables" where
  "apply_event cd e t = snd (process_db_event cd e t)"

text \<open>What the consumer still has to do, channel by channel.\<close>

definition waiting :: "'j consumer \<Rightarrow> 'j db_event list" where
  "waiting s = concat (map (msgChan s) [0..<8]) @ incoming s"

text \<open>Every message is on its own channel.\<close>

definition routed :: "'j consumer \<Rightarrow> bool" where
  "routed s \<longleftrightarrow> (\<forall>i. \<forall>e \<in> set (msgChan s i). chanid e = i)"

definition drained :: "'j consumer \<Rightarrow> bool" where
  "drained s \<longleftrightarrow> incoming s = [] \<and> (\<forall>i. msgChan s i = [])"

text \<open>The tables that a channel writes to.\<close>

definition part :: "nat \<Rightarrow> 'j tables \<Rightarrow> 'j tables" where
  "part i t =
     (if i = 0 then no_tables\<lparr>tb_json := tb_json t, tb_mirror := tb_mirror t\<rparr>
      else if i = 1 then no_tables\<lparr>tb_events := tb_events t\<rparr>
      else if i = 2 then no_tables\<lparr>tb_rooms := tb_rooms t\<rparr>
      else if i = 3 then no_tables\<lparr>tb_snapshots := tb_snapshots t, tb_settings := tb_settings t\<rparr>
      else if i = 4 then no_tables\<lparr>tb_invites := tb_invites t\<rparr>
      else if i = 5 then no_tables\<lparr>tb_membership := tb_membership t\<rparr>
      else if i = 6 then no_tables\<lparr>tb_aliases := tb_aliases t\<rparr>
      else if i = 7 then no_tables\<lparr>tb_domains := tb_domains t\<rparr>
      else no_tables)"

text \<open>Each message is handled in two steps.\<close>

definition consumer_work :: "'j consumer \<Rightarrow> nat" where
  "consumer_work s = 2 * length (incoming s) + length (concat (map (msgChan s) [0..<8]))"

section \<open>Lemmas\<close>

lemmas statement_defs = insertEventJSONRaw_def insertEventRaw_def insertRoomNIDRaw_def updateLatestEventNIDsRaw_def
  insertStateRaw_def insertInviteEventRaw_def updateInviteRetiredRaw_def membershipInsertdRaw_def
  membershipUpdateRaw_def membershipForgetUpdateRaw_def insertRoomAliasRaw_def deleteRoomAliasRaw_def
  insertRoomDomainsRaw_def onUpdateRoomEvent_def onUpdateRoomDepth_def insertSettingRaw_def

lemma part_other: "chanid e \<noteq> i \<Longrightarrow> part i (apply_event cd e t) = part i t"
  unfolding apply_event_def by (cases e) (auto simp: statement_defs part_def)

lemma part_own: "part (chanid e) (apply_event cd e t) = part (chanid e) (apply_event cd e (part (chanid e) t))"
  unfolding apply_event_def by (cases e) (simp_all add: statement_defs part_def no_tables_def)

lemma tables_eqI:
  assumes "\<And>i. part i t = part i u"
  shows "t = u"
  using assms [of 0] assms [of 1] assms [of 2] assms [of 3] assms [of 4] assms [of 5] assms [of 6] assms [of 7]
  by (simp add: part_def no_tables_def)

lemma apply_commute:
  assumes "chanid e \<noteq> chanid f"
  shows "apply_event cd e (apply_event cd f t) = apply_event cd f (apply_event cd e t)"
proof (rule tables_eqI)
  fix i
  consider "i = chanid e" | "i = chanid f" | "i \<noteq> chanid e" "i \<noteq> chanid f" by blast
  then show "part i (apply_event cd e (apply_event cd f t)) = part i (apply_event cd f (apply_event cd e t))"
  proof cases
    case 1
    then show ?thesis using assms part_own [of e cd t] part_own [of e cd "apply_event cd f t"] by (simp add: part_other)
  next
    case 2
    then show ?thesis using assms part_own [of f cd t] part_own [of f cd "apply_event cd e t"] by (simp add: part_other)
  next
    case 3
    then show ?thesis by (simp add: part_other)
  qed
qed

lemma chanid_less: "chanid e < 8"
  by (cases e) simp_all

lemma fold_past:
  "\<forall>f \<in> set fs. chanid f \<noteq> chanid e \<Longrightarrow>
    fold (apply_event cd) fs (apply_event cd e t) = apply_event cd e (fold (apply_event cd) fs t)"
proof (induction fs arbitrary: t)
  case (Cons f fs)
  then show ?case using apply_commute [of f e cd t] by simp
qed simp

lemma routed_head: "routed s \<Longrightarrow> msgChan s i = e # es \<Longrightarrow> chanid e = i"
  unfolding routed_def by (metis list.set_intros(1))

lemma channels_split: "i < 8 \<Longrightarrow> [0..<8] = [0..<i] @ i # [Suc i..<8]"
  using upt_add_eq_append [of 0 i "8 - i"] by (simp add: upt_conv_Cons)

lemma waiting_take:
  assumes "routed s" "incoming s = e # es"
  shows "fold (apply_event cd) (waiting (s\<lparr>incoming := es, msgChan := OnMessage e (msgChan s)\<rparr>)) t =
    fold (apply_event cd) (waiting s) t"
proof -
  let ?q = "msgChan s" and ?i = "chanid e"
  let ?lo = "concat (map ?q [0..<?i])" and ?hi = "concat (map ?q [Suc ?i..<8])"
  note idx = channels_split [OF chanid_less [of e]]
  have old: "concat (map ?q [0..<8]) = ?lo @ ?q ?i @ ?hi" unfolding idx by simp
  have new: "concat (map (OnMessage e ?q) [0..<8]) = ?lo @ ?q ?i @ e # ?hi"
    unfolding idx by (simp add: OnMessage_def)
  have "\<forall>f \<in> set ?hi. chanid f \<noteq> ?i" using assms(1) by (auto simp: routed_def)
  then show ?thesis unfolding waiting_def by (simp add: old new assms(2) fold_past)
qed

lemma waiting_work:
  assumes "routed s" "msgChan s i = e # es"
  shows "fold (apply_event cd) (waiting (s\<lparr>msgChan := (msgChan s)(i := es), written := w\<rparr>)) (apply_event cd e t) =
    fold (apply_event cd) (waiting s) t"
proof -
  let ?q = "msgChan s"
  let ?lo = "concat (map ?q [0..<i])" and ?hi = "concat (map ?q [Suc i..<8])"
  have i: "chanid e = i" using routed_head [OF assms] .
  then have "i < 8" using chanid_less [of e] by simp
  note i = i this
  note idx = channels_split [OF i(2)]
  have old: "concat (map ?q [0..<8]) = ?lo @ (e # es) @ ?hi" unfolding idx by (simp add: assms(2))
  have new: "concat (map (?q(i := es)) [0..<8]) = ?lo @ es @ ?hi" unfolding idx by simp
  have "\<forall>f \<in> set ?lo. chanid f \<noteq> chanid e" using assms(1) i(1) by (auto simp: routed_def)
  then show ?thesis unfolding waiting_def by (simp add: old new fold_past)
qed

lemma step_invariant:
  assumes "consumer_step cd s s'" "routed s"
  shows "routed s' \<and> fold (apply_event cd) (waiting s') (written s') = fold (apply_event cd) (waiting s) (written s)"
  using assms
proof cases
  case (take_message e es)
  with assms(2) have "routed s'" by (auto simp: routed_def OnMessage_def)
  with waiting_take [OF assms(2) take_message(2)] take_message show ?thesis by simp
next
  case (startWorker i e es)
  have "routed s'" using assms(2) startWorker by (force simp: routed_def)
  with waiting_work [OF assms(2) startWorker(2)] startWorker show ?thesis by (simp add: apply_event_def)
qed

lemma run_invariant:
  assumes "(consumer_step cd)\<^sup>*\<^sup>* s s'" "routed s"
  shows "routed s' \<and> fold (apply_event cd) (waiting s') (written s') = fold (apply_event cd) (waiting s) (written s)"
  using assms by (induction rule: rtranclp_induct) (auto dest: step_invariant)

lemma routed_high: "routed s \<Longrightarrow> 8 \<le> i \<Longrightarrow> msgChan s i = []"
  using chanid_less routed_head [of s i] by (cases "msgChan s i") (auto simp: not_less [symmetric])

lemma waiting_drained: "routed s \<Longrightarrow> drained s \<longleftrightarrow> waiting s = []"
  using routed_high [of s] by (auto simp: drained_def waiting_def not_le [symmetric])

lemma consumer_progress:
  assumes "routed s" "\<not> drained s"
  shows "\<exists>s'. consumer_step cd s s' \<and> consumer_work s' < consumer_work s"
proof (cases "incoming s")
  case (Cons e es)
  let ?s = "s\<lparr>incoming := es, msgChan := OnMessage e (msgChan s)\<rparr>"
  have "length (concat (map (OnMessage e (msgChan s)) [0..<8])) = Suc (length (concat (map (msgChan s) [0..<8])))"
    unfolding channels_split [OF chanid_less [of e]] by (simp add: OnMessage_def length_concat o_def)
  then have "consumer_work ?s < consumer_work s" using Cons by (simp add: consumer_work_def)
  with consumer_step.take_message [OF Cons] show ?thesis by blast
next
  case Nil
  with assms(2) obtain i e es where m: "msgChan s i = e # es" by (auto simp: drained_def neq_Nil_conv)
  let ?s = "s\<lparr>msgChan := (msgChan s)(i := es), written := snd (process_db_event cd e (written s))\<rparr>"
  have i: "i < 8" using routed_high [OF assms(1), of i] m by (cases "8 \<le> i") auto
  have "consumer_work ?s < consumer_work s"
    unfolding consumer_work_def channels_split [OF i] using m by (simp add: length_concat o_def)
  with consumer_step.startWorker [OF m] show ?thesis by blast
qed

lemma consumer_drains: "routed s \<Longrightarrow> \<exists>s'. (consumer_step cd)\<^sup>*\<^sup>* s s' \<and> drained s'"
proof (induction "consumer_work s" arbitrary: s rule: less_induct)
  case less
  show ?case
  proof (cases "drained s")
    case False
    obtain s1 where s1: "consumer_step cd s s1" "consumer_work s1 < consumer_work s"
      using consumer_progress [OF less.prems False] by blast
    with less.hyps [of s1] step_invariant [OF s1(1) less.prems] show ?thesis
      by (meson converse_rtranclp_into_rtranclp)
  qed blast
qed

section \<open>Properties\<close>


end
