(* ===== verification/Event_Processor.thy ===== *)
theory Event_Processor
  imports Room_Tables
begin

text \<open>
  The event processor of the room server (\<open>src/roomserver/processors/eventProcessor.go\<close>) with the alias
  processor (\<open>aliasProcessor.go\<close>, \<open>fedProcessor.go\<close>), the repository of user memberships
  (\<open>src/model/repos/roomserverUserMembershipRepo.go\<close>) and the cache entries they use
  (\<open>src/cache/roomstate.go\<close>, \<open>userroommembership.go\<close>, \<open>roomalias.go\<close>). An event is authorised against the
  state of its room, applied to it, numbered, stored and written to the output log. The call of the
  direct-room server, the federation, the JSON codec, the clock and the failures of the cache, the locks and the transport
  are arguments. Log output, metrics and tracing are left out. Events of one room are processed one
  after the other by the worker of the room's slot, so a call is atomic.
\<close>

section \<open>Model\<close>

subsection \<open>Types\<close>

definition IsStateEv :: "'c Event \<Rightarrow> bool" where
  "IsStateEv ev \<longleftrightarrow> EvType ev \<in> set [''m.room.create'', ''m.room.member'', ''m.room.power_levels'', ''m.room.join_rules'',
     ''m.room.history_visibility'', ''m.room.visibility'', ''m.room.name'', ''m.room.topic'',
     ''m.room.pinned_events'', ''m.room.desc'', ''m.room.aliases'', ''m.room.canonical_alias'', ''m.room.avatar'',
     ''m.room.encryption'', ''m.room.third_party_invite'', ''m.room.guest_access'']"

datatype out_type = OutputTypeNewRoomEvent | OutputBackfillRoomEvent

record 'c OutputEvent =
  out_Type :: out_type
  out_Event :: "'c Event"
  EventOffset :: int
  AddsStateEventIDs :: "string list"
  RemovesStateEventIDs :: "string list"
  SendAsServer :: string
  TransactionID :: "string option"
  Joined :: "string list"

datatype event_kind = KindNew | KindBackfill | KindOther

text \<open>The values of a hash of the cache.\<close>

datatype ext_val = VInt int | VStr string | VBool bool

record ('c, 'b, 'j) proc_env =
  pe_db :: "('c, 'j) db_env"
  pe_auth :: "'c auth_env"
  pe_room :: "'c room_env"
  pe_ServerName :: "string list"
  pe_marshal :: "'c cached_room \<Rightarrow> 'b result"
  pe_unmarshal :: "'b \<Rightarrow> 'c cached_room result"
  pe_isDirect :: "'c \<Rightarrow> bool option result"
  pe_membership :: "'c \<Rightarrow> string option result"
  pe_aliases :: "'c \<Rightarrow> string list result"
  pe_aliases_content :: "string list \<Rightarrow> 'c result"
  pe_null :: 'c
  pe_SetUnsigned :: "'c Event list \<Rightarrow> 'c Event \<Rightarrow> 'c Event result"
  pe_SendInvite :: "nat \<Rightarrow> string \<Rightarrow> 'c Event \<Rightarrow> int \<times> 'c Event \<times> go_error option"
  pe_rcs :: "nat \<Rightarrow> 'c Event \<Rightarrow> ('c Event list \<times> bool) result"
  pe_fail :: "nat \<Rightarrow> string \<Rightarrow> go_error option"
  pe_now :: "nat \<Rightarrow> int"

record ('c, 'b, 'j) rserver = "'j db_state" +
  room_cache :: "('b \<times> string) smap"
  ext_cache :: "ext_val smap smap"
  ums_cache :: "int smap smap"
  alias_cache :: "string smap"
  outputs :: "'c OutputEvent list"
  fed_outputs :: "'c Event list"
  skips :: skip_state

type_synonym ('a, 'c, 'b, 'j) proc = "('a, ('c, 'b, 'j) rserver) action"

text \<open>A call of the cache, a lock or the transport: it fails when the environment says so.\<close>

definition call :: "('c, 'b, 'j) proc_env \<Rightarrow> string \<Rightarrow> (unit, 'c, 'b, 'j) proc" where
  "call env what s =
     (case pe_fail env (calls s) what of
        Some err \<Rightarrow> (Inl err, s\<lparr>calls := calls s + 1\<rparr>)
      | None \<Rightarrow> (Inr (), s\<lparr>calls := calls s + 1\<rparr>))"

text \<open>A call that updates the state when it succeeds.\<close>

definition call_set ::
  "('c, 'b, 'j) proc_env \<Rightarrow> string \<Rightarrow> (('c, 'b, 'j) rserver \<Rightarrow> ('c, 'b, 'j) rserver) \<Rightarrow> (unit, 'c, 'b, 'j) proc" where
  "call_set env what f = bindS (call env what) (\<lambda>_. modifyS f)"

definition is_local :: "('c, 'b, 'j) proc_env \<Rightarrow> string \<Rightarrow> bool" where
  "is_local env domain = in_domains domain (pe_ServerName env)"

definition domain_of :: "string \<Rightarrow> string" where
  "domain_of ident = (case DomainFromID ident of Inl _ \<Rightarrow> [] | Inr d \<Rightarrow> d)"

subsection \<open>The cache\<close>

definition hmset :: "string \<Rightarrow> ext_val smap \<Rightarrow> ext_val smap smap \<Rightarrow> ext_val smap smap" where
  "hmset key kvs m =
     (if kvs = [] then m
      else store key (fold (\<lambda>(k, v) h. store k v h) kvs (case map_of m key of None \<Rightarrow> [] | Some h \<Rightarrow> h)) m)"

definition v_int :: "ext_val \<Rightarrow> int" where
  "v_int v = (case v of VInt i \<Rightarrow> i | _ \<Rightarrow> 0)"

definition v_str :: "ext_val \<Rightarrow> string" where
  "v_str v = (case v of VStr x \<Rightarrow> x | _ \<Rightarrow> [])"

definition v_bool :: "ext_val \<Rightarrow> bool" where
  "v_bool v = (case v of VBool b \<Rightarrow> b | _ \<Rightarrow> False)"

definition EXT_DOMAIN_PROFIX :: string where
  "EXT_DOMAIN_PROFIX = ''domain:''"

text \<open>One field of the hash read into the structure.\<close>

definition read_field :: "string \<times> ext_val \<Rightarrow> RoomStateExt \<Rightarrow> RoomStateExt" where
  "read_field kv ext =
     (let k = fst kv; v = snd kv in
      if k = ''pre_state_id'' then ext\<lparr>PreStateId := v_str v\<rparr>
      else if k = ''last_state_id'' then ext\<lparr>LastStateId := v_str v\<rparr>
      else if k = ''pre_msg_id'' then ext\<lparr>PreMsgId := v_str v\<rparr>
      else if k = ''last_msg_id'' then ext\<lparr>LastMsgId := v_str v\<rparr>
      else if k = ''depth'' then ext\<lparr>ext_Depth := v_int v\<rparr>
      else if k = ''has_update'' then ext\<lparr>HasUpdate := v_bool v\<rparr>
      else if k = ''out_event_offset'' then ext\<lparr>OutEventOffset := v_int v\<rparr>
      else if has_prefix EXT_DOMAIN_PROFIX k then
        ext\<lparr>Domains := store (drop (length EXT_DOMAIN_PROFIX) k) (v_int v) (Domains ext)\<rparr>
      else ext)"

definition parse_ext :: "ext_val smap \<Rightarrow> RoomStateExt" where
  "parse_ext h = fold read_field h empty_ext"

definition ext_fields :: "RoomStateExt \<Rightarrow> ext_val smap" where
  "ext_fields ext =
     [(''pre_state_id'', VStr (PreStateId ext)), (''last_state_id'', VStr (LastStateId ext)),
      (''pre_msg_id'', VStr (PreMsgId ext)), (''last_msg_id'', VStr (LastMsgId ext)),
      (''depth'', VInt (ext_Depth ext)), (''has_update'', VBool (HasUpdate ext)),
      (''out_event_offset'', VInt (OutEventOffset ext))] @
     map (\<lambda>(d, v). (EXT_DOMAIN_PROFIX @ d, VInt v)) (Domains ext)"

text \<open>What the cache and the database answer to the repository of room states.\<close>

definition io_of :: "('c, 'b, 'j) proc_env \<Rightarrow> ('c, 'b, 'j) rserver \<Rightarrow> ('c, 'b) room_io" where
  "io_of env s =
     \<lparr>cacheGetRoomState = (\<lambda>room. case pe_fail env (calls s) ''GetRoomState'' of
         Some err \<Rightarrow> Inl err | None \<Rightarrow> Inr (map_option fst (map_of (room_cache s) room))),
       cacheGetRoomStateExt = (\<lambda>room. case pe_fail env (calls s) ''GetRoomStateExt'' of
         Some err \<Rightarrow> Inl err | None \<Rightarrow> Inr (map_option parse_ext (map_of (ext_cache s) room))),
       dbGetRoomStates = (\<lambda>room. case pe_fail env (calls s) ''GetRoomStates'' of
         Some err \<Rightarrow> Inl err | None \<Rightarrow> Inr (GetRoomStates (db_codec (pe_db env)) room (db_tables s))),
       dbRoomInfo = (\<lambda>room. case pe_fail env (calls s) ''RoomInfo'' of
         Some err \<Rightarrow> Inl err | None \<Rightarrow> selectRoomInfo room (db_tables s)),
       dbGetRoomDomainsOffset = (\<lambda>nid. case pe_fail env (calls s) ''GetRoomDomainsOffset'' of
         Some err \<Rightarrow> Inl err | None \<Rightarrow> Inr (selectRoomDomains nid (db_tables s))),
       json_marshal = pe_marshal env, json_unmarshal = pe_unmarshal env\<rparr>"

text \<open>An error of a write to the cache is logged only.\<close>

definition write_cache :: "('c, 'b, 'j) proc_env \<Rightarrow> 'b cache_write \<Rightarrow> (unit, 'c, 'b, 'j) proc" where
  "write_cache env w =
     bindS (tryS (case w of
         SetRoomState room bytes token \<Rightarrow>
           call_set env ''SetRoomState'' (\<lambda>s. s\<lparr>room_cache := store room (bytes, token) (room_cache s)\<rparr>)
       | SetRoomStateExt room ext \<Rightarrow>
           call_set env ''SetRoomStateExt'' (\<lambda>s. s\<lparr>ext_cache := hmset room (ext_fields ext) (ext_cache s)\<rparr>)))
       (\<lambda>_. returnS ())"

definition with_writes ::
  "('c, 'b, 'j) proc_env \<Rightarrow> (('c, 'b) room_io \<Rightarrow> ('a \<times> 'b cache_write list) result) \<Rightarrow> ('a, 'c, 'b, 'j) proc" where
  "with_writes env f =
     bindS (getS (io_of env)) (\<lambda>io.
     bindS (modifyS (\<lambda>s. s\<lparr>calls := calls s + 1\<rparr>)) (\<lambda>_.
     bindS (liftS (f io)) (\<lambda>(x, ws).
     bindS (loopS (\<lambda>w _. write_cache env w) ws ()) (\<lambda>_. returnS x))))"

definition repo_GetRoomState :: "('c, 'b, 'j) proc_env \<Rightarrow> string \<Rightarrow> ('c RoomServerState option, 'c, 'b, 'j) proc" where
  "repo_GetRoomState env room = with_writes env (\<lambda>io. GetRoomState (pe_room env) io room)"

definition repo_GetRoomStateExt :: "('c, 'b, 'j) proc_env \<Rightarrow> string \<Rightarrow> (RoomStateExt, 'c, 'b, 'j) proc" where
  "repo_GetRoomStateExt env room = with_writes env (\<lambda>io. GetRoomStateExt io room)"

definition repo_OnEvent ::
  "('c, 'b, 'j) proc_env \<Rightarrow> 'c Event \<Rightarrow> int \<Rightarrow> 'c RoomServerState option \<Rightarrow>
    ('c RoomServerState option, 'c, 'b, 'j) proc" where
  "repo_OnEvent env ev nid rs = with_writes env (\<lambda>io. OnEvent (pe_room env) io ev nid rs)"

definition repo_UpdateRoomStateExt ::
  "('c, 'b, 'j) proc_env \<Rightarrow> string \<Rightarrow> ext_val smap \<Rightarrow> (unit, 'c, 'b, 'j) proc" where
  "repo_UpdateRoomStateExt env room kvs =
     call_set env ''UpdateRoomStateExt'' (\<lambda>s. s\<lparr>ext_cache := hmset room kvs (ext_cache s)\<rparr>)"

definition FlushRoomState ::
  "('c, 'b, 'j) proc_env \<Rightarrow> 'c RoomServerState \<Rightarrow> ('c RoomServerState, 'c, 'b, 'j) proc" where
  "FlushRoomState env rs = with_writes env (\<lambda>io. case flush io rs of (ws, rs1) \<Rightarrow> Inr (rs1, ws))"

subsection \<open>User memberships\<close>

definition fill_memberships :: "string list \<times> string list \<times> string list \<Rightarrow> int smap" where
  "fill_memberships rooms =
     (case rooms of (js, is, ls) \<Rightarrow>
        fold (\<lambda>r m. store r MembershipStateLeaveOrBan m) ls
          (fold (\<lambda>r m. store r MembershipStateInvite m) is
            (fold (\<lambda>r m. store r MembershipStateJoin m) js [])))"

definition getUserMemberShipFromDB :: "('c, 'b, 'j) proc_env \<Rightarrow> string \<Rightarrow> (int smap, 'c, 'b, 'j) proc" where
  "getUserMemberShipFromDB env user =
     bindS (call env ''GetUserRooms'') (\<lambda>_.
     bindS (getS (\<lambda>s. fill_memberships (GetUserRooms user (db_tables s)))) (\<lambda>ums.
       if ums \<noteq> [] then
         bindS (tryS (call_set env ''SetUserRoomMemberShipMulti'' (\<lambda>s. s\<lparr>ums_cache :=
            store user (fold (\<lambda>(r, v) m. store r v m) ums (case map_of (ums_cache s) user of None \<Rightarrow> [] | Some m \<Rightarrow> m))
              (ums_cache s)\<rparr>)))
           (\<lambda>_. returnS ums)
       else returnS ums))"

definition getUserMemberShip :: "('c, 'b, 'j) proc_env \<Rightarrow> string \<Rightarrow> (int smap, 'c, 'b, 'j) proc" where
  "getUserMemberShip env user =
     bindS (tryS (call env ''GetUserRoomMemberShip'')) (\<lambda>r.
     bindS (getS (\<lambda>s. map_of (ums_cache s) user)) (\<lambda>cached.
       case (r, cached) of (Inr _, Some ums) \<Rightarrow> returnS ums | _ \<Rightarrow> getUserMemberShipFromDB env user))"

definition GetJoinMemberShip :: "('c, 'b, 'j) proc_env \<Rightarrow> string \<Rightarrow> (string list, 'c, 'b, 'j) proc" where
  "GetJoinMemberShip env user =
     bindS (getUserMemberShip env user) (\<lambda>ums. returnS (map fst (filter (\<lambda>(_, v). v = MembershipStateJoin) ums)))"

definition GetInviteMemberShip :: "('c, 'b, 'j) proc_env \<Rightarrow> string \<Rightarrow> (int smap, 'c, 'b, 'j) proc" where
  "GetInviteMemberShip env user =
     bindS (getUserMemberShip env user) (\<lambda>ums. returnS (filter (\<lambda>(_, v). v = MembershipStateInvite) ums))"

definition GetLeaveMemberShip :: "('c, 'b, 'j) proc_env \<Rightarrow> string \<Rightarrow> (int smap, 'c, 'b, 'j) proc" where
  "GetLeaveMemberShip env user =
     bindS (getUserMemberShip env user) (\<lambda>ums. returnS (filter (\<lambda>(_, v). v = MembershipStateLeaveOrBan) ums))"

definition initCacheIsNotExists :: "('c, 'b, 'j) proc_env \<Rightarrow> string \<Rightarrow> (unit, 'c, 'b, 'j) proc" where
  "initCacheIsNotExists env user =
     bindS (call env ''CheckUserRoomMemberShipExists'') (\<lambda>_.
     bindS (getS (\<lambda>s. map_of (ums_cache s) user)) (\<lambda>cached.
       if cached = None then bindS (getUserMemberShipFromDB env user) (\<lambda>_. returnS ()) else returnS ()))"

text \<open>The membership of an event; an error counts as the empty string.\<close>

definition membership_of :: "('c, 'b, 'j) proc_env \<Rightarrow> 'c Event \<Rightarrow> string" where
  "membership_of env ev = (case EventMembership (env_codec (pe_auth env)) ev of Inl _ \<Rightarrow> [] | Inr m \<Rightarrow> m)"

definition old_membership :: "('c, 'b, 'j) proc_env \<Rightarrow> 'c Event option \<Rightarrow> string" where
  "old_membership env pre = (case pre of None \<Rightarrow> [] | Some p \<Rightarrow> membership_of env p)"

definition set_user_membership :: "string \<Rightarrow> string \<Rightarrow> int \<Rightarrow> int smap smap \<Rightarrow> int smap smap" where
  "set_user_membership room user v m =
     store user (store room v (case map_of m user of None \<Rightarrow> [] | Some h \<Rightarrow> h)) m"

definition ums_OnEvent :: "('c, 'b, 'j) proc_env \<Rightarrow> 'c Event \<Rightarrow> 'c Event option \<Rightarrow> (unit, 'c, 'b, 'j) proc" where
  "ums_OnEvent env ev pre =
     (if EvType ev = ''m.room.member'' \<and> old_membership env pre \<noteq> membership_of env ev then
        (case StateKey ev of
           None \<Rightarrow> liftS (Inl (Panic ''nil pointer dereference''))
         | Some user \<Rightarrow>
             bindS (tryS (initCacheIsNotExists env user)) (\<lambda>r.
               case r of
                 Inl _ \<Rightarrow> returnS ()
               | Inr _ \<Rightarrow>
                   (let new = membership_of env ev;
                        v = (if new = ''invite'' then MembershipStateInvite
                             else if new = ''join'' then MembershipStateJoin else MembershipStateLeaveOrBan)
                    in bindS (tryS (call_set env ''SetUserRoomMemberShip''
                         (\<lambda>s. s\<lparr>ums_cache := set_user_membership (RoomID ev) user v (ums_cache s)\<rparr>))) (\<lambda>_. returnS ()))))
      else returnS ())"

subsection \<open>Aliases\<close>

text \<open>Answers whether the alias exists already.\<close>

definition AllocRoomAlias :: "('c, 'b, 'j) proc_env \<Rightarrow> string \<Rightarrow> string \<Rightarrow> (bool, 'c, 'b, 'j) proc" where
  "AllocRoomAlias env alias room =
     bindS (call env ''AliasExists'') (\<lambda>_.
     bindS (getS (\<lambda>s. map_of (alias_cache s) alias)) (\<lambda>cached.
       if cached \<noteq> None then returnS True
       else
         bindS (call env ''GetRoomIDFromAlias'') (\<lambda>_.
         bindS (getS (\<lambda>s. selectRoomIDFromAlias alias (db_tables s))) (\<lambda>owner.
         bindS (if owner = [] then SetRoomAlias (pe_db env) alias room else returnS ()) (\<lambda>_.
         bindS (tryS (call_set env ''SetAlias'' (\<lambda>s. s\<lparr>alias_cache := store alias room (alias_cache s)\<rparr>))) (\<lambda>_.
           returnS (owner \<noteq> [])))))))"

definition GetAliasRoomID :: "('c, 'b, 'j) proc_env \<Rightarrow> string \<Rightarrow> (string, 'c, 'b, 'j) proc" where
  "GetAliasRoomID env alias =
     bindS (call env ''GetAlias'') (\<lambda>_.
     bindS (getS (\<lambda>s. map_of (alias_cache s) alias)) (\<lambda>cached.
       case cached of
         Some (c # cs) \<Rightarrow> returnS (c # cs)
       | _ \<Rightarrow>
           bindS (call env ''GetRoomIDFromAlias'') (\<lambda>_.
           bindS (getS (\<lambda>s. selectRoomIDFromAlias alias (db_tables s))) (\<lambda>room.
             if room \<noteq> [] then
               bindS (tryS (call_set env ''SetAlias'' (\<lambda>s. s\<lparr>alias_cache := store alias room (alias_cache s)\<rparr>)))
                 (\<lambda>_. returnS room)
             else returnS room))))"

text \<open>Federated aliases events; the caller ignores the error.\<close>

definition OnRoomEvent :: "('c, 'b, 'j) proc_env \<Rightarrow> 'c Event \<Rightarrow> (unit, 'c, 'b, 'j) proc" where
  "OnRoomEvent env ev =
     (if EvType ev = ''m.room.aliases'' then
        bindS (liftS (pe_aliases env (Content ev))) (\<lambda>aliases.
          loopS (\<lambda>alias _. bindS (AllocRoomAlias env alias (RoomID ev)) (\<lambda>_. returnS ())) aliases ())
      else returnS ())"

subsection \<open>Invitations over federation, direct rooms\<close>

definition processFedInvite ::
  "('c, 'b, 'j) proc_env \<Rightarrow> 'c Event \<Rightarrow> 'c RoomServerState option \<Rightarrow> ('c Event, 'c, 'b, 'j) proc" where
  "processFedInvite env ev rs =
     (if EvType ev \<noteq> ''m.room.member'' \<or> StateKey ev = None then returnS ev
      else if \<not> is_local env (domain_of (Sender ev)) then returnS ev
      else
        bindS (liftS (pe_membership env (Content ev))) (\<lambda>membership.
          if membership \<noteq> Some ''invite'' then returnS ev
          else
            (case rs of
               None \<Rightarrow> liftS (Inl (Error ''Room not found''))
             | Some r \<Rightarrow>
                 (case DomainFromID (the (StateKey ev)) of
                    Inl _ \<Rightarrow> liftS (Inl (Error ''invitee Id must be in the form '' ))
                  | Inr inviteeDomain \<Rightarrow>
                      if is_local env inviteeDomain then returnS ev
                      else
                        bindS (liftS (GetAllState r)) (\<lambda>states.
                        bindS (liftS (pe_SetUnsigned env states ev)) (\<lambda>inviteEv.
                        bindS (getS calls) (\<lambda>k.
                        bindS (modifyS (\<lambda>s. s\<lparr>calls := calls s + 1\<rparr>)) (\<lambda>_.
                          case pe_SendInvite env k inviteeDomain inviteEv of (code, signedEvent, err) \<Rightarrow>
                            if code \<noteq> 200 then liftS (Inl (Error ''SendInvite error: ''))
                            else (case err of Some e \<Rightarrow> liftS (Inl e) | None \<Rightarrow> returnS signedEvent)))))))))"

definition processDirectRoomCreateOrMemberEvent ::
  "('c, 'b, 'j) proc_env \<Rightarrow> 'c Event \<Rightarrow> ('c Event list \<times> bool, 'c, 'b, 'j) proc" where
  "processDirectRoomCreateOrMemberEvent env ev =
     bindS (getS calls) (\<lambda>k.
     bindS (modifyS (\<lambda>s. s\<lparr>calls := calls s + 1\<rparr>)) (\<lambda>_.
     bindS (liftS (pe_rcs env k ev)) (\<lambda>(evs, succeed). returnS (if succeed then (evs, True) else ([], False)))))"

definition IsCreatingDirectRoomEv :: "('c, 'b, 'j) proc_env \<Rightarrow> 'c Event \<Rightarrow> bool result" where
  "IsCreatingDirectRoomEv env ev =
     (if EvType ev \<noteq> MRoomCreate then Inr False
      else bindR (pe_isDirect env (Content ev)) (\<lambda>d. Inr (d = Some True)))"

subsection \<open>Numbering\<close>

text \<open>The first identifier above the given one, and how many were taken; \<open>None\<close> when there is none.\<close>

partial_function (option) getOutEventOffset :: "(nat \<Rightarrow> int result) \<Rightarrow> nat \<Rightarrow> int \<Rightarrow> (int \<times> nat) option" where
  "getOutEventOffset ids n lastOffset =
     (let out = (case ids n of Inr v \<Rightarrow> v | Inl _ \<Rightarrow> 0) in
      if lastOffset < out then Some (out, n + 1) else getOutEventOffset ids (n + 1) lastOffset)"

definition take_offset :: "('c, 'b, 'j) proc_env \<Rightarrow> int \<Rightarrow> (int, 'c, 'b, 'j) proc" where
  "take_offset env lastOffset s =
     (case getOutEventOffset (db_Next (pe_db env)) (ids_taken s) lastOffset of
        None \<Rightarrow> (Inl (Panic ''does not return''), s)
      | Some (out, n) \<Rightarrow> (Inr out, s\<lparr>ids_taken := n\<rparr>))"

text \<open>Depth and domain offset of an event: given by the sender or the next ones of the room.\<close>

definition number_event :: "string \<Rightarrow> 'c Event \<Rightarrow> RoomStateExt \<Rightarrow> 'c Event \<times> ext_val smap \<times> RoomStateExt" where
  "number_event domain ev ext =
     (let depth = ext_Depth ext;
          (ev1, u1, ext1) =
            (if Depth ev = 0 then
               (SetDepth (depth + 1) ev, [(''depth'', VInt (depth + 1))], ext\<lparr>ext_Depth := depth + 1\<rparr>)
             else if depth < Depth ev then (ev, [(''depth'', VInt (Depth ev))], ext\<lparr>ext_Depth := Depth ev\<rparr>)
             else (ev, [], ext));
          offset = (case map_of (Domains ext1) domain of Some v \<Rightarrow> v | None \<Rightarrow> 0);
          put = (\<lambda>v. ([(EXT_DOMAIN_PROFIX @ domain, VInt v)], ext1\<lparr>Domains := store domain v (Domains ext1)\<rparr>))
      in if DomainOffset ev1 = 0 then
           (case put (offset + 1) of (u2, ext2) \<Rightarrow> (SetDomainOffset (offset + 1) ev1, u1 @ u2, ext2))
         else if offset < DomainOffset ev1 then
           (case put (DomainOffset ev1) of (u2, ext2) \<Rightarrow> (ev1, u1 @ u2, ext2))
         else (ev1, u1, ext1))"

definition link_event :: "'c Event \<Rightarrow> RoomStateExt \<Rightarrow> ext_val smap \<times> RoomStateExt" where
  "link_event ev ext =
     (if IsStateEv ev then
        ([(''pre_state_id'', VStr (LastStateId ext)), (''last_state_id'', VStr (EventID ev)), (''last_msg_id'', VStr (EventID ev))],
         ext\<lparr>PreStateId := LastStateId ext, LastStateId := EventID ev, LastMsgId := EventID ev\<rparr>)
      else
        ([(''pre_msg_id'', VStr (LastMsgId ext)), (''last_msg_id'', VStr (EventID ev))],
         ext\<lparr>PreMsgId := LastMsgId ext, LastMsgId := EventID ev\<rparr>))"

text \<open>
  The room state keeps the pointer to the event, so it sees the numbers set afterwards: the stored event is
  replaced wherever the update put it.
\<close>

definition replace_event :: "'c Event \<Rightarrow> 'c Event \<Rightarrow> 'c RoomServerState \<Rightarrow> 'c RoomServerState" where
  "replace_event ev ev1 rs =
     (let o1 = map_option (\<lambda>e. if e = ev then ev1 else e);
          m1 = map (\<lambda>(k, e). (k, if e = ev then ev1 else e))
      in if HasUpdate (rs_ext rs) then
           rs\<lparr>rs_Creator := o1 (rs_Creator rs), rs_JoinRule := o1 (rs_JoinRule rs),
              rs_HistoryVisibility := o1 (rs_HistoryVisibility rs), rs_Visibility := o1 (rs_Visibility rs),
              rs_Name := o1 (rs_Name rs), rs_Topic := o1 (rs_Topic rs), rs_Desc := o1 (rs_Desc rs),
              rs_CanonicalAlias := o1 (rs_CanonicalAlias rs), rs_Alias := o1 (rs_Alias rs),
              rs_Power := o1 (rs_Power rs), rs_GuestAccess := o1 (rs_GuestAccess rs),
              rs_Avatar := o1 (rs_Avatar rs), rs_Pin := o1 (rs_Pin rs), rs_join := m1 (rs_join rs),
              rs_leave := m1 (rs_leave rs), rs_invite := m1 (rs_invite rs), thirdInvite := m1 (thirdInvite rs)\<rparr>
         else rs)"

definition updateRoomStateExt ::
  "('c, 'b, 'j) proc_env \<Rightarrow> 'c Event \<Rightarrow> 'c RoomServerState \<Rightarrow> bool \<Rightarrow>
    ('c Event \<times> 'c RoomServerState, 'c, 'b, 'j) proc" where
  "updateRoomStateExt env ev rs all_fields =
     (case DomainFromID (Sender ev) of
        Inl _ \<Rightarrow> liftS (Inl (Error ''event send invalid doamin''))
      | Inr domain \<Rightarrow>
          bindS (call env ''LockRoomStateExt'') (\<lambda>_.
          bindS (tryS (repo_GetRoomStateExt env (RoomID ev))) (\<lambda>r.
          bindS (liftS (case r of
              Inr ext \<Rightarrow> Inr ext
            | Inl e \<Rightarrow> if e = ErrNoRows \<and> EvType ev = ''m.room.create'' then Inr empty_ext else Inl e)) (\<lambda>ext.
            case number_event domain ev ext of (ev1, u1, ext1) \<Rightarrow>
              (let rs1 = replace_event ev ev1 rs;
                   (u2, ext2) = (if all_fields then link_event ev1 ext1 else ([], ext1));
                   rs2 = (if all_fields
                          then UpdateMsgExt (PreStateId ext2) (LastStateId ext2) (PreMsgId ext2) (LastMsgId ext2) rs1
                          else rs1)
               in bindS (take_offset env (OutEventOffset ext2)) (\<lambda>out.
                    let rs3 = UpdateDomainExt (Domains ext2) (UpdateDepth (ext_Depth ext2) (UpdateOutEventOffset out rs2))
                    in bindS (repo_UpdateRoomStateExt env (RoomID ev)
                           (u1 @ u2 @ [(''has_update'', VBool (HasUpdate (rs_ext rs2))), (''out_event_offset'', VInt out)]))
                         (\<lambda>_. returnS (ev1, rs3))))))))"

subsection \<open>Membership table and output log\<close>

text \<open>The handler of the new membership; a member event without a state key panics.\<close>

definition updateMemberShip ::
  "('c, 'b, 'j) proc_env \<Rightarrow> int \<Rightarrow> int \<Rightarrow> 'c Event \<Rightarrow> 'c Event option \<Rightarrow> (unit, 'c, 'b, 'j) proc" where
  "updateMemberShip env roomNID eventNID ev pre =
     (let old = old_membership env pre; new = membership_of env ev; db = pe_db env in
      if EvType ev = ''m.room.member'' \<and> (old \<noteq> new \<or> new = ''join'') \<and>
         new \<in> {''invite'', ''join'', ''leave'', ''ban'', ''kick'', ''forget''}
      then
        (case StateKey ev of
           None \<Rightarrow> liftS (Inl (Panic ''nil pointer dereference''))
         | Some user \<Rightarrow>
             if new = ''invite'' then
               SetToInvite db roomNID user (Sender ev) (EventID ev) (ev_JSON (db_codec db) ev) eventNID old (RoomID ev)
             else if new = ''join'' then SetToJoin db roomNID user (Sender ev) eventNID old (RoomID ev)
             else if new = ''forget'' then
               bindS (SetToLeave db roomNID user (Sender ev) eventNID old (RoomID ev)) (\<lambda>_.
                 SetToForget db roomNID user eventNID old (RoomID ev))
             else SetToLeave db roomNID user (Sender ev) eventNID old (RoomID ev))
      else returnS ())"

definition event_offset :: "('c, 'b, 'j) proc_env \<Rightarrow> 'c RoomServerState \<Rightarrow> (int, 'c, 'b, 'j) proc" where
  "event_offset env rs =
     (if OutEventOffset (rs_ext rs) \<le> 0 then take_version (pe_db env) else returnS (OutEventOffset (rs_ext rs)))"

definition buildOutputRoomEvent ::
  "('c, 'b, 'j) proc_env \<Rightarrow> string option \<Rightarrow> string \<Rightarrow> 'c RoomServerState \<Rightarrow> 'c Event \<Rightarrow> 'c Event option \<Rightarrow>
    ('c OutputEvent, 'c, 'b, 'j) proc" where
  "buildOutputRoomEvent env txn svr rs ev pre =
     bindS (event_offset env rs) (\<lambda>offset.
       returnS \<lparr>out_Type = OutputTypeNewRoomEvent, out_Event = ev, EventOffset = offset,
         AddsStateEventIDs = (if IsStateEv ev then [EventID ev] else []),
         RemovesStateEventIDs = (case pre of None \<Rightarrow> [] | Some p \<Rightarrow> [EventID p]),
         SendAsServer = svr, TransactionID = txn, Joined = map fst (rs_join rs)\<rparr>)"

definition WriteOutputEvents :: "('c, 'b, 'j) proc_env \<Rightarrow> 'c OutputEvent list \<Rightarrow> (unit, 'c, 'b, 'j) proc" where
  "WriteOutputEvents env updates =
     loopS (\<lambda>u _. call_set env ''OutputRoomEvent'' (\<lambda>s. s\<lparr>outputs := outputs s @ [u]\<rparr>)) updates ()"

definition WriteFedEvents :: "('c, 'b, 'j) proc_env \<Rightarrow> 'c Event \<Rightarrow> (unit, 'c, 'b, 'j) proc" where
  "WriteFedEvents env ev = call_set env ''OutputRoomFedEvent'' (\<lambda>s. s\<lparr>fed_outputs := fed_outputs s @ [ev]\<rparr>)"

definition stamp_event :: "('c, 'b, 'j) proc_env \<Rightarrow> 'c Event \<Rightarrow> ('c Event, 'c, 'b, 'j) proc" where
  "stamp_event env ev =
     (if is_local env (domain_of (Sender ev)) \<and> OriginServerTS ev = 0
      then getS (\<lambda>s. ev\<lparr>OriginServerTS := pe_now env (calls s)\<rparr>) else returnS ev)"

text \<open>Local events go to the other servers, federated ones to the alias directory; errors of both are ignored.\<close>

definition distribute ::
  "('c, 'b, 'j) proc_env \<Rightarrow> string \<Rightarrow> 'c RoomServerState \<Rightarrow> 'c Event \<Rightarrow> (unit, 'c, 'b, 'j) proc" where
  "distribute env svr rs ev =
     bindS (tryS (if is_local env (domain_of (Sender ev)) then
         if \<exists>d \<in> set (map fst (domainTl rs)). d \<noteq> svr then WriteFedEvents env ev else returnS ()
       else OnRoomEvent env ev)) (\<lambda>_. returnS ())"

definition postProcessNew ::
  "('c, 'b, 'j) proc_env \<Rightarrow> 'c Event \<Rightarrow> 'c Event option \<Rightarrow> int \<Rightarrow> int \<Rightarrow> 'c RoomServerState \<Rightarrow> string \<Rightarrow>
    string option \<Rightarrow> int \<Rightarrow> ('c RoomServerState, 'c, 'b, 'j) proc" where
  "postProcessNew env ev pre eventNID roomNID rs svr txn curSnap =
     bindS (updateMemberShip env roomNID eventNID ev pre) (\<lambda>_.
     bindS (if IsStateEv ev then FlushRoomState env rs else returnS rs) (\<lambda>rs1.
     bindS (stamp_event env ev) (\<lambda>ev1.
     (let rs2 = replace_event ev ev1 rs1; db = pe_db env; sendDomain = domain_of (Sender ev1) in
     bindS (buildOutputRoomEvent env txn svr rs2 ev1 pre) (\<lambda>ore.
     bindS (SetLatestEvents db roomNID eventNID curSnap (ext_Depth (rs_ext rs2))) (\<lambda>_.
     bindS (StoreEvent db ev1 roomNID curSnap (GetRefs ev1 rs2)) (\<lambda>_.
     bindS (WriteOutputEvents env [ore]) (\<lambda>_.
     bindS (SaveRoomDomainsOffset db roomNID sendDomain (GetLastDomainOffset ev1 sendDomain rs2)) (\<lambda>_.
     bindS (distribute env svr rs2 ev1) (\<lambda>_.
       returnS rs2))))))))))"

subsection \<open>New events\<close>

text \<open>The methods of a nil room state: only the create event can be asked for.\<close>

definition nil_provider :: "'c AuthEventProvider" where
  "nil_provider =
     \<lparr>get_Create = Inr None, get_JoinRules = Inl (Panic ''nil pointer dereference''),
      get_PowerLevels = Inl (Panic ''nil pointer dereference''),
      get_Member = (\<lambda>_. Inl (Panic ''nil pointer dereference'')),
      get_ThirdPartyInvite = (\<lambda>_. Inl (Panic ''nil pointer dereference''))\<rparr>"

definition provider_of :: "'c RoomServerState option \<Rightarrow> 'c AuthEventProvider" where
  "provider_of rs = (case rs of None \<Rightarrow> nil_provider | Some r \<Rightarrow> room_provider r)"

definition authorise :: "('c, 'b, 'j) proc_env \<Rightarrow> 'c Event \<Rightarrow> 'c RoomServerState option \<Rightarrow> (unit, 'c, 'b, 'j) proc" where
  "authorise env ev rs s =
     (case Allowed (pe_auth env) ev (provider_of rs) (skips s) of (r, st) \<Rightarrow> (r, s\<lparr>skips := st\<rparr>))"

text \<open>The number of the room and the predecessor of the event.\<close>

definition locate ::
  "('c, 'b, 'j) proc_env \<Rightarrow> 'c Event \<Rightarrow> 'c RoomServerState option \<Rightarrow> (int \<times> 'c Event option, 'c, 'b, 'j) proc" where
  "locate env ev rs =
     (if EvType ev = ''m.room.create'' then
        bindS (AssignRoomNID (pe_db env) (RoomID ev)) (\<lambda>nid. returnS (nid, None))
      else
        (case rs of
           None \<Rightarrow> liftS (Inl (Error ''can't find room''))
         | Some r \<Rightarrow> bindS (liftS (GetPreEvent ev r)) (\<lambda>(pre, _). returnS (RoomNid r, pre))))"

text \<open>Returns the room state the caller's pointer shows afterwards.\<close>

definition apply_new ::
  "('c, 'b, 'j) proc_env \<Rightarrow> 'c Event \<Rightarrow> string option \<Rightarrow> string \<Rightarrow> 'c RoomServerState option \<Rightarrow> int \<Rightarrow> 'c Event option \<Rightarrow>
    ('c RoomServerState, 'c, 'b, 'j) proc" where
  "apply_new env ev txn svr rs roomNID pre =
     bindS (repo_OnEvent env ev (EventNID ev) rs) (\<lambda>st.
     bindS (ums_OnEvent env ev pre) (\<lambda>_.
       case st of
         None \<Rightarrow> liftS (Inl (Panic ''nil pointer dereference''))
       | Some r \<Rightarrow>
           bindS (updateRoomStateExt env ev r True) (\<lambda>(ev1, r1).
             (let r2 = r1\<lparr>RoomNid := roomNID\<rparr> in
              bindS (if IsStateEv ev1 then AddState (pe_db env) roomNID (GetLastState r2) else returnS (SnapId r2)) (\<lambda>curSnap.
                postProcessNew env ev1 pre (EventNID ev) roomNID (r2\<lparr>SnapId := curSnap\<rparr>) svr txn curSnap)))))"

definition processNew ::
  "('c, 'b, 'j) proc_env \<Rightarrow> 'c Event \<Rightarrow> string option \<Rightarrow> string \<Rightarrow> bool \<Rightarrow> 'c RoomServerState option \<Rightarrow>
    ('c RoomServerState option, 'c, 'b, 'j) proc" where
  "processNew env ev txn svr trusted rs =
     (if EvType ev = ''m.room.create'' \<and> rs \<noteq> None then returnS rs
      else
        bindS (locate env ev rs) (\<lambda>(roomNID, pre).
        bindS (if trusted then returnS () else authorise env ev rs) (\<lambda>_.
        bindS (apply_new env ev txn svr rs roomNID pre) (\<lambda>r.
          returnS (if rs = None then None else Some r)))))"

definition direct_event :: "'c Event \<Rightarrow> bool" where
  "direct_event ev \<longleftrightarrow> EvType ev = MRoomCreate \<or> EvType ev = MRoomMember"

text \<open>The room of the event and whether it is a direct one; a create event has no room yet.\<close>

definition find_room :: "('c, 'b, 'j) proc_env \<Rightarrow> 'c Event \<Rightarrow> ('c RoomServerState option \<times> bool, 'c, 'b, 'j) proc" where
  "find_room env ev =
     (if EvType ev = MRoomCreate then
        bindS (liftS (IsCreatingDirectRoomEv env ev)) (\<lambda>d. returnS (None, d))
      else
        bindS (repo_GetRoomState env (RoomID ev)) (\<lambda>st.
          case st of
            None \<Rightarrow> liftS (Inl (Error ''Room not found''))
          | Some r \<Rightarrow> returnS (Some r, isDirect r)))"

definition process_one ::
  "('c, 'b, 'j) proc_env \<Rightarrow> string option \<Rightarrow> string \<Rightarrow> bool \<Rightarrow> 'c Event \<Rightarrow> 'c RoomServerState option \<Rightarrow>
    ('c RoomServerState option, 'c, 'b, 'j) proc" where
  "process_one env txn svr trusted ev rs =
     bindS (processFedInvite env ev rs) (\<lambda>ev1. processNew env ev1 txn svr trusted rs)"

definition processRoomNewEvent ::
  "('c, 'b, 'j) proc_env \<Rightarrow> 'c Event \<Rightarrow> bool \<Rightarrow> string option \<Rightarrow> string \<Rightarrow> (unit, 'c, 'b, 'j) proc" where
  "processRoomNewEvent env ev trusted txn svr =
     bindS (if IsStateEv ev then bindS (tryS (call env ''LockRoomState'')) (\<lambda>_. returnS ()) else returnS ()) (\<lambda>_.
     bindS (find_room env ev) (\<lambda>(rs, direct).
       if direct \<and> direct_event ev then
         bindS (processDirectRoomCreateOrMemberEvent env ev) (\<lambda>(evs, succeed).
           if \<not> succeed then liftS (Inl (Error ''RCS Server error''))
           else bindS (loopS (process_one env txn svr trusted) evs rs) (\<lambda>_. returnS ()))
       else bindS (process_one env txn svr trusted ev rs) (\<lambda>_. returnS ())))"

subsection \<open>Back-filled events\<close>

definition postProcessBackfill ::
  "('c, 'b, 'j) proc_env \<Rightarrow> 'c Event \<Rightarrow> int \<Rightarrow> 'c RoomServerState \<Rightarrow> string \<Rightarrow> string option \<Rightarrow> int \<Rightarrow>
    (unit, 'c, 'b, 'j) proc" where
  "postProcessBackfill env ev roomNID rs svr txn curSnap =
     (let ref = GetRefs ev rs; db = pe_db env in
      bindS (updateRoomStateExt env ev rs False) (\<lambda>(ev1, rs1).
      bindS (event_offset env rs1) (\<lambda>offset.
      bindS (StoreEvent db ev1 roomNID curSnap ref) (\<lambda>_.
      bindS (WriteOutputEvents env
          [\<lparr>out_Type = OutputBackfillRoomEvent, out_Event = ev1, EventOffset = offset, AddsStateEventIDs = [],
            RemovesStateEventIDs = [], SendAsServer = svr, TransactionID = txn, Joined = []\<rparr>]) (\<lambda>_.
        SaveRoomDomainsOffset db roomNID (domain_of (Sender ev1))
          (GetLastDomainOffset ev1 (domain_of (Sender ev1)) rs1))))))"

definition processBackfill ::
  "('c, 'b, 'j) proc_env \<Rightarrow> 'c Event \<Rightarrow> string option \<Rightarrow> string \<Rightarrow> (unit, 'c, 'b, 'j) proc" where
  "processBackfill env ev txn svr =
     bindS (repo_GetRoomState env (RoomID ev)) (\<lambda>st.
       case st of
         None \<Rightarrow> liftS (Inl (Error ''can't find room''))
       | Some rs \<Rightarrow>
           bindS (liftS (GetPreEvent ev rs)) (\<lambda>(pre, isState).
             if isState \<and> (case pre of None \<Rightarrow> False | Some p \<Rightarrow> EventID p = EventID ev) then returnS ()
             else postProcessBackfill env ev (RoomNid rs) rs svr txn (SnapId rs)))"

subsection \<open>Input\<close>

definition processRoomEvent ::
  "('c, 'b, 'j) proc_env \<Rightarrow> 'c Event \<Rightarrow> event_kind \<Rightarrow> bool \<Rightarrow> string option \<Rightarrow> string \<Rightarrow> (unit, 'c, 'b, 'j) proc" where
  "processRoomEvent env ev kind trusted txn svr =
     (case kind of
        KindNew \<Rightarrow> processRoomNewEvent env ev trusted txn svr
      | KindBackfill \<Rightarrow> processBackfill env ev txn svr
      | KindOther \<Rightarrow> returnS ())"

record 'c RawEvent =
  raw_RoomID :: string
  raw_Kind :: event_kind
  raw_Trust :: bool
  raw_TxnID :: "string option"
  raw_Events :: "'c Event list"
  raw_SvrName :: string

text \<open>The number of events processed; an error ends the loop and is returned beside it.\<close>

definition processInput :: "('c, 'b, 'j) proc_env \<Rightarrow> 'c RawEvent \<Rightarrow> (nat, 'c, 'b, 'j) proc" where
  "processInput env input =
     loopS (\<lambda>ev n. bindS (processRoomEvent env ev (raw_Kind input) (raw_Trust input) (raw_TxnID input) (raw_SvrName input))
       (\<lambda>_. returnS (n + 1))) (raw_Events input) 0"

text \<open>The worker an input goes to: the FNV-1a hash of the room over 128 slots.\<close>

definition CalcStringHashCode :: "string \<Rightarrow> 32 word" where
  "CalcStringHashCode str = fold (\<lambda>c h. xor h (of_char c) * 16777619) str 2166136261"

definition dispthInput :: "'c RawEvent \<Rightarrow> nat" where
  "dispthInput input = unat (CalcStringHashCode (raw_RoomID input) mod 128)"

subsection \<open>Changing aliases\<close>

definition sendUpdatedAliasesEvent :: "('c, 'b, 'j) proc_env \<Rightarrow> string \<Rightarrow> string \<Rightarrow> (unit, 'c, 'b, 'j) proc" where
  "sendUpdatedAliasesEvent env user room =
     (let domain = domain_of user in
      bindS (call env ''GetAliasesFromRoomID'') (\<lambda>_.
      bindS (getS (\<lambda>s. selectAliasesFromRoomID room (db_tables s))) (\<lambda>aliases.
      bindS (liftS (pe_aliases_content env aliases)) (\<lambda>c.
      bindS (repo_GetRoomState env room) (\<lambda>st.
        case st of
          None \<Rightarrow> liftS (Inl (Error ''can't find room state''))
        | Some rs \<Rightarrow>
            bindS (take_version (pe_db env)) (\<lambda>nid.
            bindS (liftS (Build \<lparr>eb_Sender = user, eb_RoomID = room, eb_Type = ''m.room.aliases'',
                 eb_StateKey = Some domain, eb_Redacts = [], eb_Depth = 0, eb_DomainOffset = 0, eb_Content = c,
                 eb_Unsigned = pe_null env, eb_RedactsSender = []\<rparr> nid domain)) (\<lambda>ev.
            bindS (authorise env ev (Some rs)) (\<lambda>_.
            bindS (processInput env \<lparr>raw_RoomID = room, raw_Kind = KindNew, raw_Trust = True, raw_TxnID = None,
                 raw_Events = [ev], raw_SvrName = domain\<rparr>) (\<lambda>_. returnS ())))))))))"

text \<open>The interface function of the same name; answers whether the alias existed.\<close>

definition alias_SetRoomAlias :: "('c, 'b, 'j) proc_env \<Rightarrow> string \<Rightarrow> string \<Rightarrow> string \<Rightarrow> (bool, 'c, 'b, 'j) proc" where
  "alias_SetRoomAlias env user alias room =
     bindS (AllocRoomAlias env alias room) (\<lambda>existed.
     bindS (sendUpdatedAliasesEvent env user room) (\<lambda>_. returnS existed))"

definition alias_RemoveRoomAlias :: "('c, 'b, 'j) proc_env \<Rightarrow> string \<Rightarrow> string \<Rightarrow> (unit, 'c, 'b, 'j) proc" where
  "alias_RemoveRoomAlias env user alias =
     bindS (call env ''GetAlias'') (\<lambda>_.
     bindS (getS (\<lambda>s. case map_of (alias_cache s) alias of None \<Rightarrow> [] | Some r \<Rightarrow> r)) (\<lambda>cached.
     bindS (if cached = [] then
              bindS (call env ''GetRoomIDFromAlias'') (\<lambda>_. getS (\<lambda>s. selectRoomIDFromAlias alias (db_tables s)))
            else returnS cached) (\<lambda>room.
       if room = [] then liftS (Inl (Error ''not room alias is ''))
       else
         bindS (repo_GetRoomState env room) (\<lambda>st.
           case st of
             None \<Rightarrow> liftS (Inl (Error ''can't find room state''))
           | Some rs \<Rightarrow>
               (case rs_Alias rs of
                  None \<Rightarrow> liftS (Inl (Panic ''nil pointer dereference''))
                | Some aliasEv \<Rightarrow>
                    if Sender aliasEv = [] \<or> Sender aliasEv \<noteq> user then liftS (Inl (Error ''user is not room creator''))
                    else
                      bindS (call_set env ''DelAlias'' (\<lambda>s. s\<lparr>alias_cache := remove alias (alias_cache s)\<rparr>)) (\<lambda>_.
                      bindS (RemoveRoomAlias (pe_db env) alias) (\<lambda>_. sendUpdatedAliasesEvent env user room)))))))"

section \<open>Specification\<close>

text \<open>What an action leaves alone: the output log and what the cache has of the rooms.\<close>

definition log_same :: "('c, 'b, 'j) rserver \<Rightarrow> ('c, 'b, 'j) rserver \<Rightarrow> bool" where
  "log_same s s1 \<longleftrightarrow> outputs s1 = outputs s \<and> ext_cache s1 = ext_cache s \<and> room_cache s1 = room_cache s"

definition out_same :: "('c, 'b, 'j) rserver \<Rightarrow> ('c, 'b, 'j) rserver \<Rightarrow> bool" where
  "out_same s s1 \<longleftrightarrow> outputs s1 = outputs s"

text \<open>The log is as it was, or has one more entry, which is the event with its numbers and time.\<close>

definition renumbered :: "'c Event \<Rightarrow> 'c Event \<Rightarrow> bool" where
  "renumbered ev ev1 \<longleftrightarrow>
     ev1 = ev\<lparr>Depth := Depth ev1, DomainOffset := DomainOffset ev1, OriginServerTS := OriginServerTS ev1\<rparr>"

definition logged :: "'c Event \<Rightarrow> 'c OutputEvent list \<Rightarrow> 'c OutputEvent list \<Rightarrow> bool" where
  "logged ev before after \<longleftrightarrow> (\<exists>u. after = before @ [u] \<and> renumbered ev (out_Event u))"

text \<open>The log has grown by at most the event.\<close>

definition grown :: "'c Event \<Rightarrow> 'c OutputEvent list \<Rightarrow> ('c, 'b, 'j) rserver \<Rightarrow> bool" where
  "grown ev base s \<longleftrightarrow> outputs s = base \<or> logged ev base (outputs s)"

text \<open>An untrusted event reaches the log only when the rules allow it in the state of the room.\<close>

definition passes :: "('c, 'b, 'j) proc_env \<Rightarrow> 'c Event \<Rightarrow> 'c RoomServerState option \<Rightarrow> bool" where
  "passes env ev rs \<longleftrightarrow> (\<exists>st. fst (Allowed (pe_auth env) ev (provider_of rs) st) = Inr ())"

definition admitted :: "('c, 'b, 'j) proc_env \<Rightarrow> 'c Event \<Rightarrow> 'c RoomServerState option \<Rightarrow> 'c OutputEvent list \<Rightarrow> ('c, 'b, 'j) rserver \<Rightarrow> bool" where
  "admitted env ev rs base s \<longleftrightarrow> outputs s = base \<or> passes env ev rs \<and> logged ev base (outputs s)"

text \<open>What stands before the loading of the room.\<close>

definition locked :: "('c, 'b, 'j) proc_env \<Rightarrow> 'c Event \<Rightarrow> ('c, 'b, 'j) rserver \<Rightarrow> ('c, 'b, 'j) rserver" where
  "locked env ev s = (if IsStateEv ev then snd (call env ''LockRoomState'' s) else s)"

section \<open>Lemmas\<close>

declare getOutEventOffset.simps [code]

lemma log_same_rel: "reflp log_same" "transp log_same"
  by (auto simp: log_same_def reflp_def transp_def)

lemmas same_bindS = moves_bindS [OF log_same_rel(2)]

lemmas same_simple = moves_simple [OF log_same_rel(1)]

lemmas same_loopS = moves_loop_set [OF log_same_rel]

lemma same_modifyS:
  "(\<And>s. outputs (f s) = outputs s) \<Longrightarrow> (\<And>s. ext_cache (f s) = ext_cache s) \<Longrightarrow>
    (\<And>s. room_cache (f s) = room_cache s) \<Longrightarrow> moves log_same (modifyS f)"
  by (simp add: moves_def log_same_def)

named_theorems same_log \<open>actions that leave the output log and the numbering alone\<close>

lemma same_save_event [same_log]: "moves log_same (save_event env e)"
  by (auto simp: moves_def log_same_def save_event_def Let_def split: option.split prod.split)

lemma same_take_id [same_log]: "moves log_same (take_id env)"
  by (simp add: moves_def log_same_def take_id_def)

lemma same_call [same_log]: "moves log_same (call env what)"
  by (simp add: moves_def log_same_def call_def split: option.split)

lemma same_take_version [same_log]: "moves log_same (take_version env)"
  unfolding take_version_def by (intro same_bindS moves_tryS same_simple same_log)

lemma same_call_set:
  "(\<And>s. outputs (f s) = outputs s) \<Longrightarrow> (\<And>s. ext_cache (f s) = ext_cache s) \<Longrightarrow>
    (\<And>s. room_cache (f s) = room_cache s) \<Longrightarrow> moves log_same (call_set env what f)"
  unfolding call_set_def by (intro same_bindS same_call same_modifyS)

lemmas same_rules = same_bindS moves_tryS same_simple same_loopS same_call_set same_modifyS

lemma same_storage [same_log]:
  "moves log_same (AssignRoomNID env room)" "moves log_same (SetLatestEvents env nid l snap d)"
  "moves log_same (AddState env nid nids)" "moves log_same (SaveRoomDomainsOffset env nid dmn off)"
  "moves log_same (updateMembership env nid target sender m e)" "moves log_same (insertEvent env row)"
  "moves log_same (SetRoomAlias env alias room)"
  unfolding AssignRoomNID_def SetLatestEvents_def AddState_def SaveRoomDomainsOffset_def updateMembership_def
    insertEvent_def SetRoomAlias_def
  by (auto intro!: same_bindS same_simple same_log)

lemma same_memberships [same_log]:
  "moves log_same (SetToInvite env nid target sender ev json e pre room)" "moves log_same (SetToJoin env nid target sender e pre room)"
  "moves log_same (SetToLeave env nid target sender e pre room)" "moves log_same (SetToForget env nid target e pre room)"
  "moves log_same (StoreEvent env event nid snap ref)"
  unfolding SetToInvite_def SetToJoin_def SetToLeave_def SetToForget_def StoreEvent_def
  by (auto intro!: same_bindS same_simple same_log)

lemma same_updateMemberShip [same_log]: "moves log_same (updateMemberShip env nid e ev pre)"
  unfolding updateMemberShip_def Let_def
  by (auto intro!: same_bindS same_simple same_log split: option.split)

lemma same_ums [same_log]: "moves log_same (ums_OnEvent env ev pre)"
proof -
  have "moves log_same (getUserMemberShipFromDB env user)" for user
    unfolding getUserMemberShipFromDB_def by (auto intro!: same_rules same_log)
  then have "moves log_same (initCacheIsNotExists env user)" for user
    unfolding initCacheIsNotExists_def by (auto intro!: same_rules same_log)
  then show ?thesis unfolding ums_OnEvent_def Let_def by (auto intro!: same_rules split: option.split sum.split)
qed

lemma same_alias [same_log]: "moves log_same (AllocRoomAlias env al room)" "moves log_same (OnRoomEvent env ev)"
proof -
  show a: "moves log_same (AllocRoomAlias env al room)" for al room
    unfolding AllocRoomAlias_def by (auto intro!: same_rules same_log)
  show "moves log_same (OnRoomEvent env ev)" unfolding OnRoomEvent_def by (auto intro!: same_rules a)
qed

lemma same_processFedInvite [same_log]: "moves log_same (processFedInvite env ev rs)"
  unfolding processFedInvite_def by (auto intro!: same_rules split: option.split sum.split prod.split)

lemma same_direct [same_log]: "moves log_same (processDirectRoomCreateOrMemberEvent env ev)"
  unfolding processDirectRoomCreateOrMemberEvent_def by (auto intro!: same_rules split: prod.split)

lemma same_misc [same_log]:
  "moves log_same (authorise env ev rs)" "moves log_same (stamp_event env ev)" "moves log_same (event_offset env r)"
  "moves log_same (distribute env svr r ev)" "moves log_same (take_offset env n)"
proof -
  show "moves log_same (authorise env ev rs)" by (simp add: moves_def log_same_def authorise_def split: prod.split)
  show "moves log_same (stamp_event env ev)" unfolding stamp_event_def by (auto intro!: same_rules)
  show "moves log_same (event_offset env r)" unfolding event_offset_def by (auto intro!: same_rules same_log)
  show "moves log_same (distribute env svr r ev)"
    unfolding distribute_def WriteFedEvents_def by (auto intro!: same_rules same_log)
  show "moves log_same (take_offset env n)"
    by (simp add: moves_def log_same_def take_offset_def split: option.split prod.split)
qed

lemma same_locate [same_log]: "moves log_same (locate env ev rs)"
  unfolding locate_def by (auto intro!: same_rules same_log split: option.split)

lemma moves_with_writes:
  assumes "reflp R" "transp R" "\<And>s. R s (s\<lparr>calls := calls s + 1\<rparr>)"
    "\<And>io x ws w. f io = Inr (x, ws) \<Longrightarrow> w \<in> set ws \<Longrightarrow> moves R (write_cache env w)"
  shows "moves R (with_writes env f)"
  unfolding with_writes_def using assms(3)
  by (intro moves_bindS [OF assms(2)] moves_simple [OF assms(1)] moves_bind_liftS [OF assms(1)])
    (auto simp: moves_def [of _ "modifyS _"] intro!: moves_bindS [OF assms(2)] moves_loop_set [OF assms(1,2)] moves_simple [OF assms(1)] assms(4) split: prod.split)

section \<open>Authorisation\<close>

lemma out_same_rel: "reflp out_same" "transp out_same"
  by (auto simp: out_same_def reflp_def transp_def)

lemma same_out: "moves log_same m \<Longrightarrow> moves out_same m"
  by (erule moves_mono) (simp add: log_same_def out_same_def)

lemma out_call_set: "(\<And>s. outputs (f s) = outputs s) \<Longrightarrow> moves out_same (call_set env what f)"
  unfolding call_set_def
  by (intro moves_bindS [OF out_same_rel(2)] same_out [OF same_call]) (simp add: moves_def out_same_def)

lemma out_write_cache: "moves out_same (write_cache env w)"
  unfolding write_cache_def
  by (intro moves_bindS [OF out_same_rel(2)] moves_tryS moves_simple [OF out_same_rel(1)])
    (auto intro!: out_call_set split: cache_write.split)

lemma out_with_writes: "moves out_same (with_writes env f)"
  by (rule moves_with_writes [OF out_same_rel]) (auto simp: out_same_def intro: out_write_cache)

lemma hoare_same: "moves out_same m \<Longrightarrow> hoare (\<lambda>s. outputs s = base) m (\<lambda>_ s. outputs s = base) (\<lambda>s. outputs s = base)"
  by (erule hoare_moves) (auto simp: out_same_def)

lemma hoare_log_same: "moves log_same m \<Longrightarrow> hoare (\<lambda>s. outputs s = base) m (\<lambda>_ s. outputs s = base) (\<lambda>s. outputs s = base)"
  by (rule hoare_same) (rule same_out)

lemma renumbered_simps [simp]: "renumbered ev ev" "renumbered ev (ev\<lparr>Depth := d\<rparr>)" "renumbered ev (ev\<lparr>DomainOffset := off\<rparr>)"
  "renumbered ev (ev\<lparr>Depth := d, DomainOffset := off\<rparr>)" "renumbered ev (ev\<lparr>OriginServerTS := ts\<rparr>)"
  by (simp_all add: renumbered_def)

lemma renumbered_trans: "renumbered a b \<Longrightarrow> renumbered b c \<Longrightarrow> renumbered a c"
  unfolding renumbered_def by (cases a; cases b; cases c) simp

lemma renumbered_fields: "renumbered a b \<Longrightarrow> RoomID b = RoomID a \<and> Sender b = Sender a \<and> EvType b = EvType a \<and> EventID b = EventID a"
  unfolding renumbered_def by (cases a; cases b) simp

lemma number_event_renumbered: "number_event domain ev ext = (ev1, u, ext1) \<Longrightarrow> renumbered ev ev1"
proof -
  have "renumbered ev (fst (number_event domain ev ext))"
    unfolding number_event_def Let_def SetDepth_def SetDomainOffset_def by simp
  then show "number_event domain ev ext = (ev1, u, ext1) \<Longrightarrow> renumbered ev ev1" by simp
qed

lemma hoare_updateRoomStateExt:
  "hoare (\<lambda>s. outputs s = base) (updateRoomStateExt env ev rs all_fields)
    (\<lambda>(ev1, r1) s. outputs s = base \<and> renumbered ev ev1) (\<lambda>s. outputs s = base)"
proof (cases "DomainFromID (Sender ev)")
  case (Inl e)
  then show ?thesis unfolding updateRoomStateExt_def by (auto intro: hoare_liftS)
next
  case (Inr domain)
  have ext: "moves out_same (repo_GetRoomStateExt env (RoomID ev))"
    unfolding repo_GetRoomStateExt_def by (rule out_with_writes)
  have upd: "moves out_same (repo_UpdateRoomStateExt env (RoomID ev) u)" for u
    unfolding repo_UpdateRoomStateExt_def by (rule out_call_set) simp
  show ?thesis unfolding updateRoomStateExt_def Inr sum.case
    by (intro hoare_bindS [OF hoare_log_same [OF same_call]] hoare_bindS [OF hoare_same [OF moves_tryS [OF ext]]]
        hoare_bindS [OF hoare_same [OF moves_simple(2) [OF out_same_rel(1)]]])
      (auto simp: Let_def split: prod.split intro!: hoare_bindS [OF hoare_log_same [OF same_misc(5)]]
        hoare_bindS [OF hoare_same [OF upd]] hoare_returnS dest: number_event_renumbered)
qed

lemma hoare_write: "hoare (\<lambda>s. outputs s = base) (WriteOutputEvents env [u]) (\<lambda>_ s. outputs s = base @ [u]) (\<lambda>s. outputs s = base)"
  unfolding WriteOutputEvents_def call_set_def
  by (auto simp: hoare_def bindS_def call_def split: option.split)

lemma grown_before:
  assumes "moves out_same m"
  shows "hoare (\<lambda>s. outputs s = base) m (\<lambda>_ s. outputs s = base) (grown ev base)"
  using hoare_same [OF assms, of base] by (rule hoare_weaken) (auto simp: grown_def)

lemma grown_after:
  assumes "moves out_same m"
  shows "hoare (\<lambda>s. logged ev base (outputs s)) m (\<lambda>_ s. logged ev base (outputs s)) (grown ev base)"
  by (rule hoare_moves [OF assms]) (auto simp: out_same_def grown_def)

lemmas grown_rules = hoare_bindS [OF grown_before] hoare_bindS [OF grown_after]

lemma hoare_postProcessNew:
  "hoare (\<lambda>s. outputs s = base) (postProcessNew env ev pre nid rnid rs svr txn snap)
    (\<lambda>_ s. logged ev base (outputs s)) (grown ev base)"
proof -
  have stamp: "hoare (\<lambda>s. outputs s = base) (stamp_event env ev) (\<lambda>ev1 s. outputs s = base \<and> renumbered ev ev1) (grown ev base)"
    unfolding stamp_event_def by (simp add: hoare_def)
  have build: "hoare (\<lambda>s. outputs s = base \<and> renumbered ev ev1) (buildOutputRoomEvent env txn svr r ev1 pre)
      (\<lambda>u s. outputs s = base \<and> renumbered ev (out_Event u)) (grown ev base)" for r ev1
    unfolding buildOutputRoomEvent_def
    by (rule hoare_bindS [OF hoare_moves [OF same_misc(3)]]) (auto simp: log_same_def grown_def hoare_def)
  have wr: "hoare (\<lambda>s. outputs s = base \<and> renumbered ev (out_Event u)) (WriteOutputEvents env [u])
      (\<lambda>_ s. logged ev base (outputs s)) (grown ev base)" for u
    unfolding WriteOutputEvents_def call_set_def
    by (auto simp: hoare_def bindS_def call_def grown_def logged_def split: option.split)
  have mid: "hoare (\<lambda>s. outputs s = base \<and> renumbered ev (out_Event u)) m (\<lambda>_ s. outputs s = base \<and> renumbered ev (out_Event u)) (grown ev base)"
    if "moves log_same m" for u and m :: "(unit, _) action"
    using that by (rule hoare_moves) (auto simp: log_same_def grown_def)
  have flush: "moves out_same (if IsStateEv ev then FlushRoomState env rs else returnS rs)"
    unfolding FlushRoomState_def by (auto intro: out_with_writes moves_simple(1) [OF out_same_rel(1)])
  show ?thesis unfolding postProcessNew_def Let_def
    by (intro hoare_bindS [OF grown_before [OF same_out [OF same_updateMemberShip]]] hoare_bindS [OF grown_before [OF flush]]
        hoare_bindS [OF stamp] hoare_bindS [OF build] hoare_bindS [OF mid] hoare_bindS [OF wr] same_log
        hoare_bindS [OF grown_after [OF same_out]] hoare_returnS)
qed

lemma grown_renumbered: "renumbered ev ev1 \<Longrightarrow> logged ev1 base xs \<Longrightarrow> logged ev base xs"
  by (auto simp: logged_def dest: renumbered_trans)

lemma hoare_apply_new:
  "hoare (\<lambda>s. outputs s = base) (apply_new env ev txn svr rs rnid pre) (\<lambda>_ s. logged ev base (outputs s)) (grown ev base)"
proof -
  have on: "moves out_same (repo_OnEvent env ev (EventNID ev) rs)"
    unfolding repo_OnEvent_def by (rule out_with_writes)
  have upd: "hoare (\<lambda>s. outputs s = base) (updateRoomStateExt env ev r True)
      (\<lambda>(ev1, r1) s. outputs s = base \<and> renumbered ev ev1) (grown ev base)" for r
    using hoare_updateRoomStateExt [of base env ev r True] by (rule hoare_weaken) (auto simp: grown_def)
  have add: "hoare (\<lambda>s. outputs s = base \<and> renumbered ev ev1)
      (if IsStateEv ev1 then AddState (pe_db env) rnid (GetLastState r2) else returnS (SnapId r2))
      (\<lambda>_ s. outputs s = base \<and> renumbered ev ev1) (grown ev base)" for ev1 r2
    using same_storage(3) [of "pe_db env" rnid "GetLastState r2"]
    by (auto intro!: hoare_moves [where R = log_same] moves_simple(1) [OF log_same_rel(1)] simp: log_same_def grown_def)
  have post: "hoare (\<lambda>s. outputs s = base \<and> renumbered ev ev1) (postProcessNew env ev1 pre n rnid r2 svr txn c)
      (\<lambda>_ s. logged ev base (outputs s)) (grown ev base)" for ev1 r2 n c
  proof (cases "renumbered ev ev1")
    case True
    show ?thesis by (rule hoare_weaken [OF hoare_postProcessNew]) (auto simp: grown_def dest: grown_renumbered [OF True])
  qed (simp add: hoare_def)
  show ?thesis unfolding apply_new_def
    by (intro hoare_bindS [OF grown_before [OF on]] hoare_bindS [OF grown_before [OF same_out [OF same_ums]]])
      (auto split: option.split prod.split simp: Let_def grown_def
        intro!: hoare_liftS hoare_bindS [OF upd] hoare_bindS [OF add] post)
qed

lemma hoare_processNew:
  "hoare (\<lambda>s. outputs s = base) (processNew env ev txn svr False rs) (\<lambda>_. admitted env ev rs base) (admitted env ev rs base)"
proof -
  have auth: "hoare (\<lambda>s. outputs s = base) (authorise env ev rs) (\<lambda>_ s. outputs s = base \<and> passes env ev rs) (admitted env ev rs base)"
    unfolding hoare_def authorise_def passes_def admitted_def
    by (auto split: prod.split sum.split) (metis fst_conv)
  have new: "hoare (\<lambda>s. outputs s = base \<and> passes env ev rs) (apply_new env ev txn svr rs n p)
      (\<lambda>_. admitted env ev rs base) (admitted env ev rs base)" for n p
  proof (cases "passes env ev rs")
    case True
    show ?thesis by (rule hoare_weaken [OF hoare_apply_new]) (auto simp: True admitted_def grown_def)
  qed (simp add: hoare_def)
  have loc: "hoare (\<lambda>s. outputs s = base) (locate env ev rs) (\<lambda>_ s. outputs s = base) (admitted env ev rs base)"
    by (rule hoare_weaken [OF hoare_log_same [OF same_locate]]) (auto simp: admitted_def)
  show ?thesis unfolding processNew_def
    by (auto split: prod.split simp: admitted_def [THEN iffD2]
        intro!: hoare_returnS hoare_bindS [OF loc] hoare_bindS [OF auth] hoare_bindS [OF new])
qed

lemma locked_outputs: "outputs (locked env ev s) = outputs s"
  using same_call [of env "''LockRoomState''"] by (simp add: locked_def moves_def log_same_def)

lemma ordinary_event:
  assumes "EvType ev \<noteq> MRoomCreate" "EvType ev \<noteq> MRoomMember"
    "processRoomNewEvent env ev trusted txn svr s = (r, s1)" "outputs s1 \<noteq> outputs s"
  obtains rs s2 x where "repo_GetRoomState env (RoomID ev) (locked env ev s) = (Inr (Some rs), s2)"
    "outputs s2 = outputs s" "processNew env ev txn svr trusted (Some rs) s2 = (x, s1)"
proof -
  have lock: "(if IsStateEv ev then bindS (tryS (call env ''LockRoomState'')) (\<lambda>_. returnS ()) else returnS ()) s = (Inr (), locked env ev s)"
    by (simp add: locked_def bindS_def)
  have step: "processRoomNewEvent env ev trusted txn svr s =
      bindS (find_room env ev) (\<lambda>(rs, direct). bindS (process_one env txn svr trusted ev rs) (\<lambda>_. returnS ())) (locked env ev s)"
    unfolding processRoomNewEvent_def using lock assms(1,2) by (simp add: bindS_def [of "if _ then _ else _"] direct_event_def)
  obtain q s2 where q: "repo_GetRoomState env (RoomID ev) (locked env ev s) = (q, s2)"
    by (cases "repo_GetRoomState env (RoomID ev) (locked env ev s)")
  have "moves out_same (repo_GetRoomState env (RoomID ev))"
    unfolding repo_GetRoomState_def by (rule out_with_writes)
  from moves_at [OF this q] have o: "outputs s2 = outputs s" by (simp add: out_same_def locked_outputs)
  have one: "process_one env txn svr trusted ev rs = processNew env ev txn svr trusted rs" for rs
    using assms(2) by (simp add: process_one_def processFedInvite_def fun_eq_iff bindS_def)
  show thesis
  proof (cases q)
    case (Inl e)
    then show ?thesis using assms(1,3,4) o q by (simp add: step find_room_def bindS_def)
  next
    case (Inr st)
    show ?thesis
    proof (cases st)
      case None
      then show ?thesis using assms(1,3,4) o q Inr by (simp add: step find_room_def bindS_def)
    next
      case (Some rs)
      obtain x s3 where x: "processNew env ev txn svr trusted (Some rs) s2 = (x, s3)"
        by (cases "processNew env ev txn svr trusted (Some rs) s2")
      have "s3 = s1" using assms(1,3) q Inr Some x by (simp add: step find_room_def bindS_def one split: sum.splits)
      then show ?thesis using that q o x Inr Some by simp
    qed
  qed
qed

lemma passes_joined:
  assumes "passes env ev (Some rs)" "EvType ev \<notin> {MRoomCreate, MRoomAliases, MRoomMember}"
  shows "\<exists>ce me c. rs_Creator rs = Some ce \<and> RoomID ce = RoomID ev \<and> Member (Sender ev) rs = Some me \<and>
    dec_member (env_codec (pe_auth env)) (Content me) = Some c \<and> Membership c = join"
proof -
  let ?p = "room_provider rs" and ?cd = "env_codec (pe_auth env)"
  obtain st where "fst (Allowed (pe_auth env) ev ?p st) = Inr ()"
    using assms(1) by (auto simp: passes_def provider_of_def)
  then obtain a where a: "newEventAllower ?cd ?p (Sender ev) = Inr a" "fst (commonChecks (pe_auth env) a ev st) = Inr ()"
    using Allowed_common [OF _ assms(2)] by blast
  obtain ce where ce: "get_Create ?p = Inr (Some ce)" "roomID (ea_create a) = RoomID ce"
    using a(1) unfolding newEventAllower_iff create_content_iff by blast
  obtain me where me: "get_Member ?p (Sender ev) = Inr (Some me)" "dec_member ?cd (Content me) = Some (ea_member a)"
    using a member_content_join unfolding newEventAllower_iff commonChecks_iff by blast
  show ?thesis using a(2) ce me unfolding commonChecks_iff
    by (intro exI [of _ ce] exI [of _ me] exI [of _ "ea_member a"]) (simp add: room_provider_def)
qed

text \<open>
  C19. Only members of a room put events into its output log. When the processing of an untrusted event that is
  not a creation, an alias or a membership event changes the log at all, failures in between included, then it appends
  exactly one entry, which is the event up to its depth, domain offset and time; and in the state of the
  room that the cache or the database gave, the room was created under this identifier and the sender has a member event
  that says \<open>join\<close>.
\<close>

theorem only_members_write:
  assumes "processRoomNewEvent env ev False txn svr s = (r, s1)" "outputs s1 \<noteq> outputs s"
    and "EvType ev \<notin> {MRoomCreate, MRoomAliases, MRoomMember}"
  shows "\<exists>rs u ce me c. fst (repo_GetRoomState env (RoomID ev) (locked env ev s)) = Inr (Some rs) \<and>
    outputs s1 = outputs s @ [u] \<and> renumbered ev (out_Event u) \<and>
    rs_Creator rs = Some ce \<and> RoomID ce = RoomID ev \<and> Member (Sender ev) rs = Some me \<and>
    dec_member (env_codec (pe_auth env)) (Content me) = Some c \<and> Membership c = join"
proof -
  obtain rs s2 x where r: "repo_GetRoomState env (RoomID ev) (locked env ev s) = (Inr (Some rs), s2)"
    "outputs s2 = outputs s" "processNew env ev txn svr False (Some rs) s2 = (x, s1)"
    using ordinary_event [OF _ _ assms(1,2)] assms(3) by auto
  have "admitted env ev (Some rs) (outputs s) s1"
    using hoareD [OF hoare_processNew [of "outputs s" env ev txn svr "Some rs"] r(2)] r(3) by (cases x) auto
  then have "passes env ev (Some rs)" "logged ev (outputs s) (outputs s1)" using assms(2) by (auto simp: admitted_def)
  with passes_joined [OF _ assms(3)] r(1) show ?thesis unfolding logged_def by fastforce
qed

end
