(* ===== verification/Output_Order.thy ===== *)
theory Output_Order
  imports Event_Processor
begin

text \<open>
  The order of the output log (\<open>updateRoomStateExt\<close>, \<open>getOutEventOffset\<close>, \<open>postProcessNew\<close> and
  \<open>postProcessBackfill\<close> of \<open>src/roomserver/processors/eventProcessor.go\<close>): the requests of the room server as a
  step relation, and the invariant that ties the offsets in the log to the number that the cache keeps for a room.
\<close>

section \<open>Specification\<close>

definition room_offsets :: "string \<Rightarrow> 'c OutputEvent list \<Rightarrow> int list" where
  "room_offsets room us = map EventOffset (filter (\<lambda>u. RoomID (out_Event u) = room) us)"

text \<open>The last offset of a room, as the cache has it.\<close>

definition cached_out :: "('c, 'b, 'j) rserver \<Rightarrow> string \<Rightarrow> int" where
  "cached_out s room = (case map_of (ext_cache s) room of None \<Rightarrow> 0 | Some h \<Rightarrow> OutEventOffset (parse_ext h))"

definition hashes_ok :: "('c, 'b, 'j) rserver \<Rightarrow> bool" where
  "hashes_ok s \<longleftrightarrow> (\<forall>room h. map_of (ext_cache s) room = Some h \<longrightarrow> smap_ok h)"

definition numbering :: "(string \<Rightarrow> int) \<Rightarrow> 'c OutputEvent list \<Rightarrow> ('c, 'b, 'j) rserver \<Rightarrow> bool" where
  "numbering c base s \<longleftrightarrow> hashes_ok s \<and> cached_out s = c \<and> outputs s = base"

definition ordered :: "(string \<Rightarrow> int) \<Rightarrow> 'c OutputEvent list \<Rightarrow> bool" where
  "ordered c us \<longleftrightarrow> (\<forall>room. 0 \<le> c room \<and> sorted_wrt (<) (room_offsets room us) \<and>
     (\<forall>x \<in> set (room_offsets room us). x \<le> c room))"

definition in_order :: "('c, 'b, 'j) rserver \<Rightarrow> bool" where
  "in_order s \<longleftrightarrow> hashes_ok s \<and> ordered (cached_out s) (outputs s)"

text \<open>The cache of the numbers can be read: it is asked, and it answers.\<close>

definition readable :: "('c, 'b, 'j) proc_env \<Rightarrow> bool" where
  "readable env \<longleftrightarrow> (\<forall>n. pe_fail env n ''GetRoomStateExt'' = None)"

text \<open>Only a room without numbers gets those of the database.\<close>

definition starts :: "(string \<Rightarrow> int) \<Rightarrow> 'b cache_write list \<Rightarrow> bool" where
  "starts c ws \<longleftrightarrow> (\<forall>w \<in> set ws. case w of SetRoomState _ _ _ \<Rightarrow> True | SetRoomStateExt room ext \<Rightarrow> c room = 0 \<and> OutEventOffset ext = 0)"

text \<open>The offset of the event about to be written is that of the cache and above those in the log.\<close>

definition next_offset :: "string \<Rightarrow> int \<Rightarrow> (string \<Rightarrow> int) \<Rightarrow> 'c OutputEvent list \<Rightarrow> bool" where
  "next_offset room n c base \<longleftrightarrow> ordered c base \<and> 0 < n \<and> c room = n \<and> (\<forall>x \<in> set (room_offsets room base). x < n)"

text \<open>The requests the room server answers, in any order; every one may fail half-way.\<close>

inductive serves :: "('c, 'b, 'j) proc_env \<Rightarrow> ('c, 'b, 'j) rserver \<Rightarrow> ('c, 'b, 'j) rserver \<Rightarrow> bool" for env where
  serve_input: "processInput env input s = (r, s1) \<Longrightarrow> serves env s s1"
| serve_alloc: "AllocRoomAlias env al room s = (a, s1) \<Longrightarrow> serves env s s1"
| serve_alias: "GetAliasRoomID env al s = (room, s1) \<Longrightarrow> serves env s s1"
| serve_set_alias: "alias_SetRoomAlias env user al room s = (a, s1) \<Longrightarrow> serves env s s1"
| serve_remove_alias: "alias_RemoveRoomAlias env user al s = (u, s1) \<Longrightarrow> serves env s s1"
| serve_rooms: "GetJoinMemberShip env user s = (js, s1) \<Longrightarrow> serves env s s1"

section \<open>Lemmas\<close>

section \<open>Order of the output log\<close>

lemma in_orderI: "numbering c base s \<Longrightarrow> ordered c base \<Longrightarrow> in_order s"
  by (simp add: numbering_def in_order_def)

lemma ordered_append:
  assumes "ordered c us" "RoomID (out_Event u) = room" "EventOffset u = c room" "\<And>x. x \<in> set (room_offsets room us) \<Longrightarrow> x < c room"
  shows "ordered c (us @ [u])"
  using assms unfolding ordered_def room_offsets_def by (auto simp: sorted_wrt_append)

lemma ordered_raise:
  assumes "ordered c us" "c room < n"
  shows "ordered (c(room := n)) us" "x \<in> set (room_offsets room us) \<Longrightarrow> x < n"
  using assms unfolding ordered_def by (auto simp: le_less_trans less_imp_le intro: order.trans order.strict_trans1 dest!: spec [of _ room])

subsection \<open>The hash of a room\<close>

lemma parse_offset:
  "smap_ok h \<Longrightarrow> OutEventOffset (parse_ext h) = (case map_of h ''out_event_offset'' of None \<Rightarrow> 0 | Some v \<Rightarrow> v_int v)"
proof -
  have other: "k \<noteq> ''out_event_offset'' \<Longrightarrow> OutEventOffset (read_field (k, v) e) = OutEventOffset e" for k v e
    by (simp add: read_field_def Let_def)
  have this_one: "OutEventOffset (read_field (''out_event_offset'', v) e) = v_int v" for v e
    by (simp add: read_field_def)
  have "smap_ok h \<Longrightarrow> OutEventOffset (fold read_field h e) =
      (case map_of h ''out_event_offset'' of None \<Rightarrow> OutEventOffset e | Some v \<Rightarrow> v_int v)" for e
  proof (induction h arbitrary: e)
    case (Cons kv h)
    obtain k v where kv: "kv = (k, v)" by (cases kv)
    have no: "map_of h k = None" using Cons.prems kv by (simp add: smap_ok_def map_of_eq_None_iff)
    show ?case
    proof (cases "k = ''out_event_offset''")
      case True
      then show ?thesis using Cons no kv this_one by (simp add: smap_ok_def)
    next
      case False
      then show ?thesis using Cons kv other [OF False] by (simp add: smap_ok_def split: option.split)
    qed
  qed simp
  then show "smap_ok h \<Longrightarrow> ?thesis" by (simp add: parse_ext_def empty_ext_def split: option.split)
qed

lemma fold_store:
  "smap_ok h \<Longrightarrow> smap_ok (fold (\<lambda>(k, v) h. store k v h) kvs h)"
  "k \<notin> fst ` set kvs \<Longrightarrow> map_of (fold (\<lambda>(k, v) h. store k v h) kvs h) k = map_of h k"
  by (induction kvs arbitrary: h) auto

lemma hmset_offset:
  assumes "kvs = us @ (''out_event_offset'', VInt n) # vs" "''out_event_offset'' \<notin> fst ` set vs" "hashes_ok s"
    "ext_cache s1 = hmset room kvs (ext_cache s)"
  shows "hashes_ok s1" "cached_out s1 = (cached_out s)(room := n)"
proof -
  let ?old = "case map_of (ext_cache s) room of None \<Rightarrow> [] | Some h \<Rightarrow> h"
  let ?new = "fold (\<lambda>(k, v) h. store k v h) kvs ?old"
  have e: "ext_cache s1 = store room ?new (ext_cache s)" using assms(1,4) by (simp add: hmset_def)
  have "smap_ok ?old" using assms(3) by (auto simp: hashes_ok_def split: option.split)
  then have ok: "smap_ok ?new" by (rule fold_store)
  have "map_of ?new ''out_event_offset'' = Some (VInt n)"
    unfolding assms(1) fold_append fold_Cons o_apply prod.case fold_store(2) [OF assms(2)] by simp
  then have n: "OutEventOffset (parse_ext ?new) = n" using parse_offset [OF ok] by (simp add: v_int_def)
  show "hashes_ok s1" using assms(3) ok unfolding hashes_ok_def e by simp
  show "cached_out s1 = (cached_out s)(room := n)" unfolding cached_out_def e fun_eq_iff using n by simp
qed

lemma log_same_numbers:
  assumes "log_same s s1"
  shows "hashes_ok s1 = hashes_ok s" "cached_out s1 = cached_out s" "outputs s1 = outputs s"
  using assms by (simp_all add: log_same_def hashes_ok_def cached_out_def fun_eq_iff)

lemma numbering_same:
  assumes "moves log_same m"
  shows "hoare (numbering c base) m (\<lambda>_. numbering c base) (numbering c base)"
  by (rule hoare_moves [OF assms]) (auto simp: numbering_def log_same_numbers)

subsection \<open>Loading\<close>

lemma FromDb_offset: "getRoomStateExtFromDb io room = Inr ext \<Longrightarrow> OutEventOffset ext = 0"
  by (auto simp: getRoomStateExtFromDb_def bindR_def empty_ext_def Let_def split: sum.splits if_splits)

lemma numbering_write:
  fixes env :: "('c, 'b, 'j) proc_env"
  assumes "starts c [w]"
  shows "hoare (numbering c base) (write_cache env w) (\<lambda>_. numbering c base) (numbering c base)"
proof (cases w)
  case (SetRoomState room b t)
  let ?R = "\<lambda>s s1. outputs s1 = outputs s \<and> ext_cache s1 = ext_cache s"
  have "moves ?R (write_cache env w)"
    unfolding SetRoomState write_cache_def call_set_def call_def moves_def by (simp add: bindS_def split: option.split)
  then show ?thesis
    by (rule hoare_moves) (simp_all add: numbering_def hashes_ok_def cached_out_def fun_eq_iff)
next
  case (SetRoomStateExt room ext)
  have z: "c room = 0" "OutEventOffset ext = 0" using assms by (auto simp: starts_def SetRoomStateExt)
  have sp: "ext_fields ext = [(''pre_state_id'', VStr (PreStateId ext)), (''last_state_id'', VStr (LastStateId ext)),
      (''pre_msg_id'', VStr (PreMsgId ext)), (''last_msg_id'', VStr (LastMsgId ext)),
      (''depth'', VInt (ext_Depth ext)), (''has_update'', VBool (HasUpdate ext))] @
      (''out_event_offset'', VInt 0) # map (\<lambda>(d, v). (EXT_DOMAIN_PROFIX @ d, VInt v)) (Domains ext)"
    using z by (simp add: ext_fields_def)
  have no: "''out_event_offset'' \<notin> fst ` set (map (\<lambda>(d, v). (EXT_DOMAIN_PROFIX @ d, VInt v)) (Domains ext))"
    by (auto simp: EXT_DOMAIN_PROFIX_def)
  let ?R = "\<lambda>s s1. outputs s1 = outputs s \<and> (ext_cache s1 = ext_cache s \<or> ext_cache s1 = hmset room (ext_fields ext) (ext_cache s))"
  have "moves ?R (write_cache env w)"
    unfolding SetRoomStateExt write_cache_def call_set_def call_def moves_def by (simp add: bindS_def split: option.split)
  then show ?thesis
  proof (rule hoare_moves)
    fix s s1 :: "('c, 'b, 'j) rserver" assume s: "numbering c base s" and R: "?R s s1"
    show "numbering c base s1"
    proof (cases "ext_cache s1 = ext_cache s")
      case True
      then show ?thesis using s R by (simp add: numbering_def hashes_ok_def cached_out_def fun_eq_iff)
    next
      case False
      then have e: "ext_cache s1 = hmset room (ext_fields ext) (ext_cache s)" using R by simp
      have "hashes_ok s" using s by (simp add: numbering_def)
      from hmset_offset [OF sp no this e] have "hashes_ok s1" "cached_out s1 = (cached_out s)(room := 0)" .
      then show ?thesis using s R z(1) by (auto simp: numbering_def fun_eq_iff)
    qed
  qed
qed

lemma numbering_with_writes:
  assumes "\<And>s x ws. numbering c base s \<Longrightarrow> f (io_of env s) = Inr (x, ws) \<Longrightarrow> starts c ws \<and> Q x"
  shows "hoare (numbering c base) (with_writes env f) (\<lambda>x s. numbering c base s \<and> Q x) (numbering c base)"
proof -
  let ?N = "numbering c base"
  have g: "hoare ?N (getS (io_of env)) (\<lambda>io s. ?N s \<and> (\<exists>s0. ?N s0 \<and> io = io_of env s0)) ?N"
    by (auto simp: hoare_def)
  have k: "hoare (\<lambda>s. ?N s \<and> A) (modifyS (\<lambda>s. s\<lparr>calls := calls s + 1\<rparr>)) (\<lambda>_ s. ?N s \<and> A) ?N" for A
    by (simp add: hoare_def numbering_def hashes_ok_def cached_out_def fun_eq_iff)
  have l: "hoare (\<lambda>s. ?N s \<and> (\<exists>s0. ?N s0 \<and> io = io_of env s0)) (liftS (f io)) (\<lambda>(x, ws) s. ?N s \<and> starts c ws \<and> Q x) ?N" for io
    using assms by (intro hoare_liftS) (auto split: prod.split)
  have loop: "hoare ?N (loopS (\<lambda>w _. write_cache env w) ws ()) (\<lambda>_. ?N) ?N" if "starts c ws" for ws
    using that by (induction ws) (auto simp: starts_def intro!: hoare_returnS hoare_bindS [OF numbering_write])
  have w: "hoare (\<lambda>s. ?N s \<and> starts c ws \<and> Q x) (loopS (\<lambda>w _. write_cache env w) ws ()) (\<lambda>_ s. ?N s \<and> Q x) ?N" for x ws
  proof (cases "starts c ws \<and> Q x")
    case True
    then show ?thesis by (intro hoare_weaken [OF loop]) auto
  qed (auto simp: hoare_def)
  show ?thesis unfolding with_writes_def
    by (intro hoare_bindS [OF g] hoare_bindS [OF k] hoare_bindS [OF l]) (auto split: prod.split intro!: hoare_bindS [OF w] hoare_returnS)
qed

lemma ext_entry:
  assumes "readable env" "numbering c base s"
  shows "cacheGetRoomStateExt (io_of env s) room = Inr (map_option parse_ext (map_of (ext_cache s) room))"
    "map_of (ext_cache s) room = None \<Longrightarrow> c room = 0"
    "map_of (ext_cache s) room = Some h \<Longrightarrow> c room = OutEventOffset (parse_ext h)"
  using assms by (auto simp: io_of_def readable_def numbering_def cached_out_def)

lemma flush_starts: "flush io rs = (ws, rs1) \<Longrightarrow> starts c ws \<and> rs_ext rs1 = rs_ext rs"
  by (auto simp: flush_def serialize_def Let_def starts_def split: sum.splits prod.splits)

lemma load_starts:
  assumes "load_state renv io room = Inr (st, ws)"
  shows "starts c ws"
proof -
  have "starts c ([] :: 'b cache_write list)" by (simp add: starts_def)
  then show ?thesis using assms
    by (auto simp: load_state_def split: sum.splits go_error.splits option.splits prod.splits dest: flush_starts)
qed

lemma GetRoomState_starts:
  assumes "readable env" "numbering c base s" "GetRoomState renv (io_of env s) room = Inr (st, ws)"
  shows "starts c ws"
proof -
  obtain st0 ws0 where l: "load_state renv (io_of env s) room = Inr (st0, ws0)"
    using assms(3) by (cases "load_state renv (io_of env s) room") (auto simp: GetRoomState_def bindR_def)
  have w: "starts c ws0" by (rule load_starts [OF l])
  have "starts c (ws0 @ [SetRoomStateExt room ext])" if "map_of (ext_cache s) room = None" "OutEventOffset ext = 0" for ext
    using w that ext_entry(2) [OF assms(1,2)] by (simp add: starts_def)
  then show ?thesis using assms(3) w
    by (auto simp: GetRoomState_def bindR_def l ext_entry(1) [OF assms(1,2)] Let_def
        split: option.splits sum.splits dest!: FromDb_offset)
qed

lemma numbering_GetRoomState:
  "readable env \<Longrightarrow> hoare (numbering c base) (repo_GetRoomState env room) (\<lambda>_. numbering c base) (numbering c base)"
  unfolding repo_GetRoomState_def
  by (rule hoare_weaken [OF numbering_with_writes [where Q = "\<lambda>_. True"]]) (auto dest: GetRoomState_starts)

lemma OnEvent_starts:
  assumes "readable env" "numbering c base s" "OnEvent renv (io_of env s) ev n rs = Inr (st, ws)"
  shows "starts c ws"
proof -
  have nil: "starts c ([] :: 'b cache_write list)" by (simp add: starts_def)
  show ?thesis using assms(3) nil GetRoomState_starts [OF assms(1,2)]
    by (auto simp: OnEvent_def bindR_def split: option.splits if_splits sum.splits)
qed

lemma numbering_OnEvent:
  "readable env \<Longrightarrow> hoare (numbering c base) (repo_OnEvent env ev n rs) (\<lambda>_. numbering c base) (numbering c base)"
  unfolding repo_OnEvent_def
  by (rule hoare_weaken [OF numbering_with_writes [where Q = "\<lambda>_. True"]]) (auto dest: OnEvent_starts)

lemma numbering_Flush:
  "hoare (numbering c base) (FlushRoomState env rs) (\<lambda>rs1 s. numbering c base s \<and> rs_ext rs1 = rs_ext rs) (numbering c base)"
  unfolding FlushRoomState_def by (rule numbering_with_writes) (auto dest: flush_starts split: prod.splits)

lemma numbering_ext:
  fixes env :: "('c, 'b, 'j) proc_env"
  assumes "readable env"
  shows "hoare (numbering c base) (tryS (repo_GetRoomStateExt env room))
    (\<lambda>r s. numbering c base s \<and> c room = (case r of Inr ext \<Rightarrow> OutEventOffset ext | Inl _ \<Rightarrow> 0)) E"
proof -
  have "hoare (\<lambda>s. numbering c base s) (repo_GetRoomStateExt env room)
      (\<lambda>ext s. numbering c base s \<and> c room = OutEventOffset ext) (\<lambda>s. numbering c base s \<and> c room = 0)"
  proof (rule hoareI)
    have sub: "starts c ws \<and> c room = OutEventOffset ext"
      if "numbering c base s" "GetRoomStateExt (io_of env s) room = Inr (ext, ws)" for s ext ws
      using that(2) ext_entry [OF assms that(1), of room]
      by (auto simp: GetRoomStateExt_def starts_def bindR_def split: option.splits sum.splits dest: FromDb_offset)
    have h: "hoare (numbering c base) (repo_GetRoomStateExt env room)
        (\<lambda>ext s. numbering c base s \<and> c room = OutEventOffset ext) (numbering c base)"
      unfolding repo_GetRoomStateExt_def by (rule numbering_with_writes) (rule sub)
    fix s :: "('c, 'b, 'j) rserver" assume s: "numbering c base s"
    show "numbering c base s1 \<and> c room = OutEventOffset x" if "repo_GetRoomStateExt env room s = (Inr x, s1)" for x s1
      using hoareD(1) [OF h s that] .
    show "numbering c base s1 \<and> c room = 0" if r: "repo_GetRoomStateExt env room s = (Inl e, s1)" for e s1
    proof (cases "map_of (ext_cache s) room")
      case None
      then show ?thesis using hoareD(2) [OF h s r] ext_entry(2) [OF assms s] by simp
    next
      case (Some h)
      then have "GetRoomStateExt (io_of env s) room = Inr (parse_ext h, [])"
        by (simp add: GetRoomStateExt_def ext_entry(1) [OF assms s])
      then show ?thesis using r by (simp add: repo_GetRoomStateExt_def with_writes_def bindS_def)
    qed
  qed
  from hoare_tryS [OF this] show ?thesis by (rule hoare_weaken) (auto split: sum.splits)
qed

lemma getOutEventOffset_above: "getOutEventOffset ids n lo = Some r \<Longrightarrow> lo < fst r"
  by (rule getOutEventOffset.raw_induct [of "\<lambda>ids n lo r. lo < fst r"]) (auto simp: Let_def split: if_splits)

lemma number_event_ext: "number_event domain ev ext = (ev1, u, ext1) \<Longrightarrow> OutEventOffset ext1 = OutEventOffset ext"
  unfolding number_event_def Let_def by (auto split: if_splits)

lemma link_event_ext: "link_event ev ext = (u, ext1) \<Longrightarrow> OutEventOffset ext1 = OutEventOffset ext"
  unfolding link_event_def by (auto split: if_splits)

lemma numbering_update:
  "hoare (\<lambda>s. numbering c base s \<and> A) (repo_UpdateRoomStateExt env room (us @ [(''out_event_offset'', VInt out)]))
    (\<lambda>_ s. numbering (c(room := out)) base s \<and> A) (numbering c base)"
proof (rule hoareI)
  fix s s1 x assume s: "numbering c base s \<and> A" and r: "repo_UpdateRoomStateExt env room (us @ [(''out_event_offset'', VInt out)]) s = (Inr x, s1)"
  have e: "ext_cache s1 = hmset room (us @ [(''out_event_offset'', VInt out)]) (ext_cache s)" "outputs s1 = outputs s"
    using r unfolding repo_UpdateRoomStateExt_def call_set_def call_def by (auto simp: bindS_def split: option.splits)
  show "numbering (c(room := out)) base s1 \<and> A"
    using hmset_offset [OF refl _ _ e(1)] s e(2) by (simp add: numbering_def)
next
  fix s s1 x assume s: "numbering c base s \<and> A" and r: "repo_UpdateRoomStateExt env room (us @ [(''out_event_offset'', VInt out)]) s = (Inl x, s1)"
  have "ext_cache s1 = ext_cache s" "outputs s1 = outputs s"
    using r unfolding repo_UpdateRoomStateExt_def call_set_def call_def by (auto simp: bindS_def split: option.splits)
  then show "numbering c base s1" using s by (simp add: numbering_def hashes_ok_def cached_out_def fun_eq_iff)
qed

lemma numbering_take:
  "hoare (\<lambda>s. numbering c base s \<and> A) (take_offset env lo) (\<lambda>out s. numbering c base s \<and> A \<and> lo < out) (numbering c base)"
  unfolding hoare_def take_offset_def
  by (auto simp: numbering_def hashes_ok_def cached_out_def fun_eq_iff split: option.split dest: getOutEventOffset_above)

lemma numbering_updateRoomStateExt:
  assumes "readable env"
  shows "hoare (numbering c base) (updateRoomStateExt env ev rs all_fields)
    (\<lambda>(ev1, r1) s. renumbered ev ev1 \<and> c (RoomID ev) < OutEventOffset (rs_ext r1) \<and>
      numbering (c(RoomID ev := OutEventOffset (rs_ext r1))) base s) (numbering c base)"
proof (cases "DomainFromID (Sender ev)")
  case (Inl e)
  then show ?thesis unfolding updateRoomStateExt_def by (auto intro: hoare_liftS)
next
  case (Inr domain)
  let ?c = "c (RoomID ev)"
  have pick: "hoare (\<lambda>s. numbering c base s \<and> ?c = (case r of Inr ext \<Rightarrow> OutEventOffset ext | Inl _ \<Rightarrow> 0))
      (liftS (case r of Inr ext \<Rightarrow> Inr ext | Inl e \<Rightarrow> if e = ErrNoRows \<and> EvType ev = ''m.room.create'' then Inr empty_ext else Inl e))
      (\<lambda>ext s. numbering c base s \<and> ?c = OutEventOffset ext) (numbering c base)" for r
    by (rule hoare_liftS) (auto simp: empty_ext_def split: sum.splits if_splits)
  have fin: "hoare (\<lambda>s. numbering c base s \<and> ?c = OutEventOffset ext)
     (bindS (take_offset env (OutEventOffset ext2)) (\<lambda>out.
        bindS (repo_UpdateRoomStateExt env (RoomID ev) ((us @ [(''has_update'', VBool b)]) @ [(''out_event_offset'', VInt out)]))
          (\<lambda>_. returnS (ev1, UpdateDomainExt d (UpdateDepth k (UpdateOutEventOffset out rs2))))))
     (\<lambda>(ev1, r1) s. renumbered ev ev1 \<and> ?c < OutEventOffset (rs_ext r1) \<and>
      numbering (c(RoomID ev := OutEventOffset (rs_ext r1))) base s) (numbering c base)"
    if "renumbered ev ev1" "OutEventOffset ext2 = OutEventOffset ext" for ext ext2 ev1 us b d k rs2
    using that
    by (intro hoare_bindS [OF numbering_take] hoare_bindS [OF numbering_update] hoare_returnS)
      (auto simp: UpdateDomainExt_def UpdateDepth_def UpdateOutEventOffset_def)
  show ?thesis unfolding updateRoomStateExt_def Inr sum.case Let_def
  proof (intro hoare_bindS [OF numbering_same [OF same_call]] hoare_bindS [OF numbering_ext [OF assms]] hoare_bindS [OF pick])
    fix u r ext
    obtain ev1 u1 ext1 where n: "number_event domain ev ext = (ev1, u1, ext1)" by (cases "number_event domain ev ext")
    obtain u2 ext2 where l: "(if all_fields then link_event ev1 ext1 else ([], ext1)) = (u2, ext2)"
      by (cases "if all_fields then link_event ev1 ext1 else ([], ext1)")
    have "OutEventOffset ext2 = OutEventOffset ext"
      using number_event_ext [OF n] link_event_ext [of ev1 ext1 u2 ext2] l by (simp split: if_splits)
    from fin [OF number_event_renumbered [OF n] this, of "u1 @ u2"]
    show "hoare (\<lambda>s. numbering c base s \<and> ?c = OutEventOffset ext) (case number_event domain ev ext of (ev1, u1, ext1) \<Rightarrow>
       (case if all_fields then link_event ev1 ext1 else ([], ext1) of (u2, ext2) \<Rightarrow>
          bindS (take_offset env (OutEventOffset ext2)) (\<lambda>out.
            bindS (repo_UpdateRoomStateExt env (RoomID ev)
               (u1 @ u2 @ [(''has_update'', VBool (HasUpdate (rs_ext (if all_fields
                          then UpdateMsgExt (PreStateId ext2) (LastStateId ext2) (PreMsgId ext2) (LastMsgId ext2) (replace_event ev ev1 rs)
                          else replace_event ev ev1 rs)))), (''out_event_offset'', VInt out)]))
             (\<lambda>_. returnS (ev1, UpdateDomainExt (Domains ext2) (UpdateDepth (ext_Depth ext2) (UpdateOutEventOffset out (if all_fields
                          then UpdateMsgExt (PreStateId ext2) (LastStateId ext2) (PreMsgId ext2) (LastMsgId ext2) (replace_event ev ev1 rs)
                          else replace_event ev ev1 rs))))))))
       (\<lambda>(ev1, r1) s. renumbered ev ev1 \<and> ?c < OutEventOffset (rs_ext r1) \<and>
      numbering (c(RoomID ev := OutEventOffset (rs_ext r1))) base s) (numbering c base)"
      by (simp only: n l prod.case append_assoc append.simps)
  qed
qed

lemma next_offset_raise:
  assumes "ordered c base" "c room < n"
  shows "next_offset room n (c(room := n)) base"
proof -
  have "0 \<le> c room" using assms(1) by (simp add: ordered_def)
  then show ?thesis using ordered_raise [OF assms] assms(2) by (simp add: next_offset_def)
qed

lemma order_same:
  assumes "moves log_same m" "ordered c base"
  shows "hoare (\<lambda>s. numbering c base s \<and> A) m (\<lambda>_ s. numbering c base s \<and> A) in_order"
  by (rule hoare_moves [OF assms(1)])
    (auto simp: numbering_def in_order_def log_same_numbers assms(2))

lemmas order_same1 = order_same [where A = True, simplified]

lemma in_order_same:
  assumes "moves log_same m"
  shows "hoare in_order m (\<lambda>_. in_order) in_order"
  by (rule hoare_moves [OF assms]) (auto simp: in_order_def log_same_numbers)

lemma order_write:
  assumes "next_offset (RoomID (out_Event u)) (EventOffset u) c base"
  shows "hoare (numbering c base) (WriteOutputEvents env [u]) (\<lambda>_. in_order) in_order"
proof -
  have o: "ordered c base" "ordered c (base @ [u])"
    using assms ordered_append [of c base u "RoomID (out_Event u)"] by (auto simp: next_offset_def)
  show ?thesis unfolding WriteOutputEvents_def call_set_def call_def hoare_def using o
    by (auto simp: bindS_def numbering_def in_order_def hashes_ok_def cached_out_def [abs_def] split: option.splits)
qed

lemma order_postProcessNew:
  assumes "next_offset (RoomID ev) (OutEventOffset (rs_ext rs)) c base"
  shows "hoare (numbering c base) (postProcessNew env ev pre nid rnid rs svr txn snap) (\<lambda>_. in_order) in_order"
proof -
  let ?n = "OutEventOffset (rs_ext rs)"
  have o: "ordered c base" "0 < ?n" using assms by (auto simp: next_offset_def)
  note same = order_same [OF _ o(1)]
  have mem: "hoare (numbering c base) (updateMemberShip env rnid nid ev pre) (\<lambda>_. numbering c base) in_order"
    using same [OF same_updateMemberShip, of True] by simp
  have fl: "hoare (numbering c base) (if IsStateEv ev then FlushRoomState env rs else returnS rs)
      (\<lambda>r1 s. numbering c base s \<and> OutEventOffset (rs_ext r1) = ?n) in_order"
    using numbering_Flush [of c base env rs] in_orderI [OF _ o(1)]
    by (auto intro: hoare_returnS elim!: hoare_weaken)
  have st: "hoare (\<lambda>s. numbering c base s \<and> A) (stamp_event env ev) (\<lambda>ev1 s. numbering c base s \<and> (A \<and> RoomID ev1 = RoomID ev)) in_order" for A
    unfolding stamp_event_def by (auto simp: hoare_def)
  have ext: "rs_ext (replace_event e e1 r) = rs_ext r" for e e1 r
    by (simp add: replace_event_def Let_def)
  have build: "hoare (\<lambda>s. numbering c base s \<and> (OutEventOffset (rs_ext r1) = ?n \<and> RoomID ev1 = RoomID ev))
      (buildOutputRoomEvent env txn svr (replace_event ev ev1 r1) ev1 pre)
      (\<lambda>u s. numbering c base s \<and> (RoomID (out_Event u) = RoomID ev \<and> EventOffset u = ?n)) in_order" for r1 ev1
    unfolding buildOutputRoomEvent_def event_offset_def ext using o(2)
    by (auto simp: hoare_def)
  have wr: "hoare (\<lambda>s. numbering c base s \<and> (RoomID (out_Event u) = RoomID ev \<and> EventOffset u = ?n)) (WriteOutputEvents env [u]) (\<lambda>_. in_order) in_order" for u
  proof (cases "RoomID (out_Event u) = RoomID ev \<and> EventOffset u = ?n")
    case True
    then show ?thesis using order_write [of u c base env] assms by (auto elim: hoare_weaken)
  qed (auto simp: hoare_def)
  show ?thesis unfolding postProcessNew_def Let_def
    by (intro hoare_bindS [OF mem] hoare_bindS [OF fl] hoare_bindS [OF st] hoare_bindS [OF build] hoare_bindS [OF same]
        hoare_bindS [OF wr] hoare_bindS [OF in_order_same] same_log hoare_returnS)
qed

lemma hoare_pre:
  assumes "\<And>c base. ordered c base \<Longrightarrow> hoare (numbering c base) m Q E"
  shows "hoare in_order m Q E"
proof (rule hoareI)
  fix s x s1 assume s: "in_order s" and m: "m s = (Inr x, s1)"
  then show "Q x s1" using hoareD(1) [OF assms [of "cached_out s" "outputs s"] _ m] by (simp add: in_order_def numbering_def)
next
  fix s e s1 assume s: "in_order s" and m: "m s = (Inl e, s1)"
  then show "E s1" using hoareD(2) [OF assms [of "cached_out s" "outputs s"] _ m] by (simp add: in_order_def numbering_def)
qed

lemma order_numbering:
  assumes "\<And>c base. hoare (numbering c base) m (\<lambda>_. numbering c base) (numbering c base)"
  shows "hoare in_order m (\<lambda>_. in_order) in_order"
  by (rule hoare_pre, rule hoare_weaken [OF assms]) (auto intro: in_orderI)

text \<open>The numbering of an event and what follows, for a new event and for a back-filled one.\<close>

lemma order_renumbered:
  assumes "readable env"
    and "\<And>ev1 r1 c base. RoomID ev1 = RoomID ev \<Longrightarrow> next_offset (RoomID ev) (OutEventOffset (rs_ext r1)) c base \<Longrightarrow>
      hoare (numbering c base) (f (ev1, r1)) (\<lambda>_. in_order) in_order"
  shows "hoare in_order (bindS (updateRoomStateExt env ev rs all_fields) f) (\<lambda>_. in_order) in_order"
proof (rule hoare_pre)
  fix c and base :: "'a OutputEvent list" assume o: "ordered c base"
  have f: "hoare (\<lambda>s. renumbered ev ev1 \<and> c (RoomID ev) < OutEventOffset (rs_ext r1) \<and>
      numbering (c(RoomID ev := OutEventOffset (rs_ext r1))) base s) (f (ev1, r1)) (\<lambda>_. in_order) in_order" for ev1 r1
  proof (cases "renumbered ev ev1 \<and> c (RoomID ev) < OutEventOffset (rs_ext r1)")
    case True
    then have "RoomID ev1 = RoomID ev" using renumbered_fields by blast
    from assms(2) [OF this next_offset_raise [OF o]] True show ?thesis by (auto elim: hoare_weaken)
  qed (auto simp: hoare_def)
  show "hoare (numbering c base) (bindS (updateRoomStateExt env ev rs all_fields) f) (\<lambda>_. in_order) in_order"
  proof (rule hoare_bindS)
    show "hoare (numbering c base) (updateRoomStateExt env ev rs all_fields)
        (\<lambda>(ev1, r1) s. renumbered ev ev1 \<and> c (RoomID ev) < OutEventOffset (rs_ext r1) \<and>
          numbering (c(RoomID ev := OutEventOffset (rs_ext r1))) base s) in_order"
      by (rule hoare_weaken [OF numbering_updateRoomStateExt [OF assms(1)]]) (auto intro: in_orderI [OF _ o])
  qed (auto split: prod.split intro: f)
qed

lemma order_apply_new:
  assumes "readable env"
  shows "hoare in_order (apply_new env ev txn svr rs rnid pre) (\<lambda>_. in_order) in_order"
proof -
  have add: "moves log_same (if IsStateEv e then AddState (pe_db env) n (GetLastState r2) else returnS (SnapId r2))" for e n r2
    by (auto intro: same_storage same_simple)
  have post: "hoare (numbering c base) (let r2 = r1\<lparr>RoomNid := rnid\<rparr> in
              bindS (if IsStateEv ev1 then AddState (pe_db env) rnid (GetLastState r2) else returnS (SnapId r2)) (\<lambda>curSnap.
                postProcessNew env ev1 pre (EventNID ev) rnid (r2\<lparr>SnapId := curSnap\<rparr>) svr txn curSnap)) (\<lambda>_. in_order) in_order"
    if "RoomID ev1 = RoomID ev" "next_offset (RoomID ev) (OutEventOffset (rs_ext r1)) c base" for ev1 r1 c base
    unfolding Let_def using that
    by (intro hoare_bindS [OF order_same1 [OF add] order_postProcessNew]) (simp_all add: next_offset_def)
  show ?thesis unfolding apply_new_def
    by (intro hoare_bindS [OF order_numbering [OF numbering_OnEvent [OF assms]]] hoare_bindS [OF in_order_same [OF same_ums]])
      (auto split: option.split intro!: hoare_liftS order_renumbered [OF assms] post)
qed

lemma order_processNew:
  assumes "readable env"
  shows "hoare in_order (processNew env ev txn svr trusted rs) (\<lambda>_. in_order) in_order"
  unfolding processNew_def
  by (auto split: prod.split intro!: hoare_returnS hoare_bindS [OF in_order_same [OF same_locate]]
      hoare_bindS [OF in_order_same [OF same_misc(1)]] hoare_bindS [OF in_order_same [OF same_simple(1)]]
      hoare_bindS [OF order_apply_new [OF assms]])

lemma order_processRoomNewEvent:
  assumes "readable env"
  shows "hoare in_order (processRoomNewEvent env ev trusted txn svr) (\<lambda>_. in_order) in_order"
proof -
  have lock: "moves log_same (if IsStateEv ev then bindS (tryS (call env ''LockRoomState'')) (\<lambda>_. returnS ()) else returnS ())"
    by (auto intro!: same_rules same_log)
  have find: "hoare in_order (find_room env ev) (\<lambda>_. in_order) in_order"
    unfolding find_room_def
    by (auto split: option.split intro!: hoare_returnS hoare_liftS hoare_bindS [OF in_order_same [OF same_simple(2)]]
        hoare_bindS [OF order_numbering [OF numbering_GetRoomState [OF assms]]])
  have one: "hoare in_order (process_one env txn svr trusted e r) (\<lambda>_. in_order) in_order" for e r
    unfolding process_one_def by (rule hoare_bindS [OF in_order_same [OF same_processFedInvite] order_processNew [OF assms]])
  show ?thesis unfolding processRoomNewEvent_def
    by (rule hoare_bindS [OF in_order_same [OF lock]], rule hoare_bindS [OF find])
      (auto split: prod.split intro!: hoare_returnS hoare_liftS
        hoare_bindS [OF in_order_same [OF same_direct]] hoare_bindS [OF hoare_loopS [OF one]] hoare_bindS [OF one])
qed

lemma order_processBackfill:
  assumes "readable env"
  shows "hoare in_order (processBackfill env ev txn svr) (\<lambda>_. in_order) in_order"
proof -
  have post: "hoare in_order (postProcessBackfill env ev n rs svr txn snap) (\<lambda>_. in_order) in_order" for n rs snap
    unfolding postProcessBackfill_def Let_def
  proof (rule order_renumbered [OF assms])
    fix ev1 :: "'a Event" and r1 :: "'a RoomServerState" and c and base :: "'a OutputEvent list"
    assume a: "RoomID ev1 = RoomID ev" "next_offset (RoomID ev) (OutEventOffset (rs_ext r1)) c base"
    then have o: "ordered c base" "event_offset env r1 = returnS (OutEventOffset (rs_ext r1))"
      by (auto simp: next_offset_def event_offset_def fun_eq_iff)
    show "hoare (numbering c base) (case (ev1, r1) of (ev1, rs1) \<Rightarrow>
        bindS (event_offset env rs1) (\<lambda>offset.
        bindS (StoreEvent (pe_db env) ev1 n snap (GetRefs ev rs)) (\<lambda>_.
        bindS (WriteOutputEvents env
          [\<lparr>out_Type = OutputBackfillRoomEvent, out_Event = ev1, EventOffset = offset, AddsStateEventIDs = [],
            RemovesStateEventIDs = [], SendAsServer = svr, TransactionID = txn, Joined = []\<rparr>]) (\<lambda>_.
        SaveRoomDomainsOffset (pe_db env) n (domain_of (Sender ev1))
          (GetLastDomainOffset ev1 (domain_of (Sender ev1)) rs1))))) (\<lambda>_. in_order) in_order"
      using a unfolding prod.case o(2) bindS_simps(2) [OF action_simps(1), abs_def]
      by (intro hoare_bindS [OF order_same1 [OF same_memberships(5) o(1)]] hoare_bindS [OF order_write] in_order_same same_log) simp
  qed
  show ?thesis unfolding processBackfill_def
    by (auto split: option.split prod.split intro!: hoare_returnS hoare_liftS post hoare_bindS [OF in_order_same [OF same_simple(2)]]
        hoare_bindS [OF order_numbering [OF numbering_GetRoomState [OF assms]]])
qed

lemma order_processInput:
  assumes "readable env"
  shows "hoare in_order (processInput env input) (\<lambda>_. in_order) in_order"
proof -
  have "hoare in_order (processRoomEvent env ev kind trusted txn svr) (\<lambda>_. in_order) in_order" for ev kind trusted txn svr
    unfolding processRoomEvent_def using order_processRoomNewEvent [OF assms] order_processBackfill [OF assms]
    by (auto split: event_kind.split intro: hoare_returnS)
  then show ?thesis unfolding processInput_def by (intro hoare_loopS hoare_bindS hoare_returnS)
qed

subsection \<open>The service\<close>

lemma same_requests [same_log]:
  "moves log_same (GetAliasRoomID env al)" "moves log_same (GetJoinMemberShip env user)"
  "moves log_same (RemoveRoomAlias db al)"
proof -
  show "moves log_same (GetAliasRoomID env al)"
    unfolding GetAliasRoomID_def by (auto intro!: same_rules same_log split: option.split list.split)
  have "moves log_same (getUserMemberShipFromDB env user)"
    unfolding getUserMemberShipFromDB_def by (auto intro!: same_rules same_log)
  then show "moves log_same (GetJoinMemberShip env user)"
    unfolding GetJoinMemberShip_def getUserMemberShip_def
    by (auto intro!: same_rules same_log split: sum.split option.split)
  show "moves log_same (RemoveRoomAlias db al)"
    unfolding RemoveRoomAlias_def by (auto intro!: same_rules same_log)
qed

lemma order_aliases:
  assumes "readable env"
  shows "hoare in_order (alias_SetRoomAlias env user al room) (\<lambda>_. in_order) in_order"
    "hoare in_order (alias_RemoveRoomAlias env user al) (\<lambda>_. in_order) in_order"
proof -
  note load = hoare_bindS [OF order_numbering [OF numbering_GetRoomState [OF assms]]]
  note same = hoare_bindS [OF in_order_same]
  have send: "hoare in_order (sendUpdatedAliasesEvent env u r) (\<lambda>_. in_order) in_order" for u r
    unfolding sendUpdatedAliasesEvent_def Let_def
    by (intro same same_log same_simple load)
      (auto split: option.split intro!: hoare_liftS same same_log same_simple hoare_bindS [OF order_processInput [OF assms]] hoare_returnS)
  then show "hoare in_order (alias_SetRoomAlias env user al room) (\<lambda>_. in_order) in_order"
    unfolding alias_SetRoomAlias_def by (intro same same_log hoare_bindS [OF send] hoare_returnS)
  have del: "moves log_same (call_set env ''DelAlias'' (\<lambda>s. s\<lparr>alias_cache := remove al (alias_cache s)\<rparr>))"
    by (auto intro!: same_rules)
  have room: "moves log_same (if cached = [] then bindS (call env ''GetRoomIDFromAlias'')
      (\<lambda>_. getS (\<lambda>s. selectRoomIDFromAlias al (db_tables s))) else returnS cached)" for cached
    by (auto intro!: same_rules same_log)
  show "hoare in_order (alias_RemoveRoomAlias env user al) (\<lambda>_. in_order) in_order"
    unfolding alias_RemoveRoomAlias_def
    by (intro same same_log same_simple room)
      (auto split: option.split intro!: hoare_liftS load same del same_log send)
qed

lemma in_order_serves:
  assumes "readable env" "serves env s s1" "in_order s"
  shows "in_order s1"
  using assms(2,3)
proof (induction rule: serves.induct)
  case serve_input
  then show ?case using hoare_keeps [OF order_processInput [OF assms(1)]] by blast
next
  case serve_alloc
  then show ?case using hoare_keeps [OF in_order_same [OF same_alias(1)]] by blast
next
  case serve_alias
  then show ?case using hoare_keeps [OF in_order_same [OF same_requests(1)]] by blast
next
  case serve_set_alias
  then show ?case using hoare_keeps [OF order_aliases(1) [OF assms(1)]] by blast
next
  case serve_remove_alias
  then show ?case using hoare_keeps [OF order_aliases(2) [OF assms(1)]] by blast
next
  case serve_rooms
  then show ?case using hoare_keeps [OF in_order_same [OF same_requests(2)]] by blast
qed

text \<open>
  C20. The output log of a room is in order. From an empty log and an empty cache of numbers, after any
  requests, with failures of the database, the locks, the transport and of every call of the cache but the reading of the
  numbers, the offsets of the events of one room increase strictly and do not exceed the
  number the cache holds for the room; this does not depend on the order in which the identifiers are generated.
\<close>

theorem output_log_in_order:
  assumes "(serves env)\<^sup>*\<^sup>* s s1" "outputs s = []" "ext_cache s = []" "\<forall>n. pe_fail env n ''GetRoomStateExt'' = None"
  shows "sorted_wrt (<) (room_offsets room (outputs s1)) \<and>
    (\<forall>x \<in> set (room_offsets room (outputs s1)). x \<le> cached_out s1 room)"
proof -
  have r: "readable env" using assms(4) by (simp add: readable_def)
  have "in_order s" using assms(2,3) by (simp add: in_order_def hashes_ok_def ordered_def cached_out_def room_offsets_def)
  with assms(1) have "in_order s1" by (induction rule: rtranclp_induct) (auto intro: in_order_serves [OF r])
  then show ?thesis by (auto simp: in_order_def ordered_def)
qed

end
