(* ===== verification/Room_Rebuild.thy ===== *)
theory Room_Rebuild
  imports Output_Order
begin

text \<open>
  What becomes of a room outside the common path: a room read back from the tables
  (\<open>getRoomStateFromDb\<close> of \<open>src/model/repos/roomserverStateRepo.go\<close> over
  \<open>src/storage/implements/roomserver\<close>), a room created a second time, and aliases that only the database knows.
\<close>

section \<open>Specification\<close>

definition state_part :: "'c Event list \<Rightarrow> 'c Event list" where
  "state_part evs = filter (\<lambda>e. EvType e \<in> set stored_state_types) evs"

text \<open>The codecs read back what they write.\<close>

definition codec_ok :: "('c, 'j) row_codec \<Rightarrow> 'c Event list \<Rightarrow> bool" where
  "codec_ok cd evs \<longleftrightarrow> (\<forall>j. Decrypt cd (Encrypt cd j) = j) \<and> (\<forall>ev \<in> set evs. NewEventFromUntrustedJSON cd (ev_JSON cd ev) = ev)"

text \<open>Nothing of the room and of the events is stored yet.\<close>

definition not_stored :: "int \<Rightarrow> 'c Event list \<Rightarrow> 'j tables \<Rightarrow> bool" where
  "not_stored nid evs t \<longleftrightarrow>
     (\<forall>r \<in> set (tb_events t). er_room_nid r \<noteq> nid \<and> er_nid r \<notin> EventNID ` set evs \<and> er_event_id r \<notin> EventID ` set evs) \<and>
     (\<forall>r \<in> set (tb_json t). fst r \<notin> EventNID ` set evs)"

definition json_row :: "('c, 'j) row_codec \<Rightarrow> 'c Event \<Rightarrow> int \<times> 'j" where
  "json_row cd ev = (EventNID ev, if CheckCrypto cd (EvType ev) then Encrypt cd (ev_JSON cd ev) else ev_JSON cd ev)"

text \<open>A state with nothing but a creation.\<close>

definition bare :: "string \<Rightarrow> 'c RoomServerState \<Rightarrow> bool" where
  "bare room rs \<longleftrightarrow> roomId rs = room \<and> rs_join rs = [] \<and> rs_leave rs = [] \<and> rs_invite rs = [] \<and> rs_Power rs = None"

text \<open>What the cache has of the room shows no member and no power levels.\<close>

definition emptied :: "('c, 'b, 'j) proc_env \<Rightarrow> string \<Rightarrow> ('c, 'b, 'j) rserver \<Rightarrow> bool" where
  "emptied env room s \<longleftrightarrow> (\<exists>c b token. map_of (room_cache s) room = Some (b, token) \<and> pe_marshal env c = Inr b \<and>
     JoinExport c = [] \<and> LeaveExport c = [] \<and> InviteExport c = [] \<and> cr_slots c ! 9 = None)"

section \<open>Lemmas\<close>

section \<open>Reading stored events\<close>

lemma StoreEvent_row:
  assumes "\<not> AsyncSave env" "\<forall>n. db_fail env n = None" "EventNID ev \<noteq> 0"
    "\<forall>r \<in> set (tb_events (db_tables s)). er_nid r \<noteq> EventNID ev \<and> er_event_id r \<noteq> EventID ev"
    "\<forall>r \<in> set (tb_json (db_tables s)). fst r \<noteq> EventNID ev"
  shows "\<exists>s1. StoreEvent env ev nid snap ref s = (Inr (), s1) \<and>
    tb_rooms (db_tables s1) = tb_rooms (db_tables s) \<and>
    tb_events (db_tables s1) = tb_events (db_tables s) @ [row_of ev nid snap ref] \<and>
    tb_json (db_tables s1) = tb_json (db_tables s) @ [json_row (db_codec env) ev]"
proof -
  have row: "er_nid (row_of ev nid snap ref) = EventNID ev" "er_event_id (row_of ev nid snap ref) = EventID ev"
    "(row_of ev nid snap ref)\<lparr>er_nid := EventNID ev\<rparr> = row_of ev nid snap ref"
    by (simp_all add: row_of_def)
  have e1: "\<not> (\<exists>r \<in> set (tb_events (db_tables s)). er_event_id r = EventID ev)"
    and e2: "\<not> (\<exists>r \<in> set (tb_events (db_tables s)). er_nid r = EventNID ev)"
    and e3: "\<not> (\<exists>r \<in> set (tb_json (db_tables s)). fst r = EventNID ev)"
    using assms(4,5) by blast+
  show ?thesis
    unfolding StoreEvent_def insertEvent_def bindS_def save_event_def Let_def
    using assms(1-3) by (simp add: row insertEventRaw_def e1 e2 e3 insertEventJSONRaw_def insert_json_def json_row_def)
qed

lemma store_run:
  assumes "\<not> AsyncSave env" "\<forall>n. db_fail env n = None" "\<forall>ev \<in> set evs. 0 < EventNID ev"
    "distinct (map EventNID evs)" "distinct (map EventID evs)"
    "\<forall>r \<in> set (tb_events (db_tables s)). er_nid r \<notin> EventNID ` set evs \<and> er_event_id r \<notin> EventID ` set evs"
    "\<forall>r \<in> set (tb_json (db_tables s)). fst r \<notin> EventNID ` set evs"
  shows "\<exists>s1. loopS (\<lambda>ev _. StoreEvent env ev nid (snap ev) (ref ev)) evs () s = (Inr (), s1) \<and>
    tb_rooms (db_tables s1) = tb_rooms (db_tables s) \<and>
    tb_events (db_tables s1) = tb_events (db_tables s) @ map (\<lambda>ev. row_of ev nid (snap ev) (ref ev)) evs \<and>
    tb_json (db_tables s1) = tb_json (db_tables s) @ map (json_row (db_codec env)) evs"
  using assms(3-7)
proof (induction evs arbitrary: s)
  case (Cons ev evs)
  have "\<forall>r \<in> set (tb_events (db_tables s)). er_nid r \<noteq> EventNID ev \<and> er_event_id r \<noteq> EventID ev"
    "\<forall>r \<in> set (tb_json (db_tables s)). fst r \<noteq> EventNID ev" "EventNID ev \<noteq> 0"
    using Cons.prems by auto
  from StoreEvent_row [OF assms(1,2) this(3,1,2), of nid "snap ev" "ref ev"] obtain s1 where
    s1: "StoreEvent env ev nid (snap ev) (ref ev) s = (Inr (), s1)"
    "tb_rooms (db_tables s1) = tb_rooms (db_tables s)"
    "tb_events (db_tables s1) = tb_events (db_tables s) @ [row_of ev nid (snap ev) (ref ev)]"
    "tb_json (db_tables s1) = tb_json (db_tables s) @ [json_row (db_codec env) ev]" by blast
  have "\<forall>r \<in> set (tb_events (db_tables s1)). er_nid r \<notin> EventNID ` set evs \<and> er_event_id r \<notin> EventID ` set evs"
    using Cons.prems by (auto simp: s1(3) row_of_def)
  moreover have "\<forall>r \<in> set (tb_json (db_tables s1)). fst r \<notin> EventNID ` set evs"
    using Cons.prems by (auto simp: s1(4) json_row_def)
  ultimately obtain s2 where "loopS (\<lambda>ev _. StoreEvent env ev nid (snap ev) (ref ev)) evs () s1 = (Inr (), s2)"
    "tb_rooms (db_tables s2) = tb_rooms (db_tables s1)"
    "tb_events (db_tables s2) = tb_events (db_tables s1) @ map (\<lambda>ev. row_of ev nid (snap ev) (ref ev)) evs"
    "tb_json (db_tables s2) = tb_json (db_tables s1) @ map (json_row (db_codec env)) evs"
    using Cons.IH [of s1] Cons.prems by auto
  then show ?case using s1 by simp
qed simp

text \<open>The rows of a room come back in the order of the event numbers.\<close>

lemma stored_events_read:
  assumes "not_stored nid evs t" "codec_ok cd evs" "sorted_wrt (<) (map EventNID evs)"
    "tb_events t1 = tb_events t @ map (\<lambda>ev. row_of ev nid (snap ev) (ref ev)) evs" "tb_json t1 = tb_json t @ map (json_row cd) evs"
  shows "bulkEvents cd (getRoomsStateEvNID nid t1) t1 = map (\<lambda>e. (e, EventNID e)) (state_part evs)"
proof -
  have d: "distinct (map EventNID evs)" using assms(3) by (simp add: strict_sorted_iff)
  have nids: "set (getRoomsStateEvNID nid t1) = EventNID ` set (state_part evs)"
  proof -
    have "filter (\<lambda>r. er_room_nid r = nid \<and> event_type_id r \<in> set stored_state_types) (tb_events t) = []"
      using assms(1) by (auto simp: not_stored_def filter_empty_conv)
    then show ?thesis by (simp add: getRoomsStateEvNID_def assms(4) filter_map o_def row_of_def state_part_def image_image)
  qed
  have inj: "inj_on EventNID (set evs)" using d by (simp add: distinct_map)
  have "filter (\<lambda>(n, _). n \<in> set (getRoomsStateEvNID nid t1)) (tb_json t) = []"
    using assms(1) unfolding nids by (auto simp: not_stored_def state_part_def filter_empty_conv)
  moreover have "filter (\<lambda>(n, _). n \<in> set (getRoomsStateEvNID nid t1)) (map (json_row cd) evs) = map (json_row cd) (state_part evs)"
    unfolding nids filter_map state_part_def
    by (rule arg_cong [where f = "map (json_row cd)"], rule filter_cong) (auto simp: json_row_def dest: inj_onD [OF inj])
  ultimately have js: "filter (\<lambda>(n, _). n \<in> set (getRoomsStateEvNID nid t1)) (tb_json t1) = map (json_row cd) (state_part evs)"
    by (simp add: assms(5))
  have one: "filter (\<lambda>r. er_nid r = EventNID e) (tb_events t1) = [row_of e nid (snap e) (ref e)]" if e: "e \<in> set evs" for e
  proof -
    have a: "filter (\<lambda>r. er_nid r = EventNID e) (tb_events t) = []"
      using assms(1) e by (auto simp: not_stored_def filter_empty_conv)
    have b: "filter (\<lambda>x. EventNID x = EventNID e) evs = [e]"
      using d e by (induction evs) (auto simp: filter_empty_conv image_iff)
    show ?thesis unfolding assms(4) by (simp add: a filter_map o_def row_of_def b)
  qed
  let ?rows = "map (\<lambda>e. (EventNID e, snd (json_row cd e), EvType e)) (state_part evs)"
  have "map (\<lambda>(n, json). map (\<lambda>r. (n, json, event_type_id r)) (filter (\<lambda>r. er_nid r = n) (tb_events t1))) (map (json_row cd) (state_part evs)) =
      map (\<lambda>e. [(EventNID e, snd (json_row cd e), EvType e)]) (state_part evs)"
    using one by (auto simp: state_part_def json_row_def row_of_def)
  then have cc: "concat (map (\<lambda>(n, json). map (\<lambda>r. (n, json, event_type_id r)) (filter (\<lambda>r. er_nid r = n) (tb_events t1))) (map (json_row cd) (state_part evs))) = ?rows"
    by (simp only: concat_map_singleton)
  have "sorted_wrt (\<lambda>x y. EventNID x < EventNID y) (state_part evs)"
    using assms(3) by (simp add: state_part_def sorted_wrt_map sorted_wrt_filter)
  then have "sorted_wrt (\<lambda>x y. EventNID x \<le> EventNID y) (state_part evs)"
    by (rule sorted_wrt_mono_rel [rotated]) simp
  then have "sorted (map fst ?rows)" by (simp add: sorted_wrt_map o_def)
  then have "sort_key fst ?rows = ?rows" by (rule sort_key_id_if_sorted)
  then show ?thesis unfolding bulkEvents_def js cc
    using assms(2) by (auto simp: codec_ok_def state_part_def read_json_def json_row_def)
qed

lemma AddEvent_state_part:
  "(\<And>t. fst t \<in> set stored_state_types \<Longrightarrow> A t = B t) \<Longrightarrow> fst t \<in> set stored_state_types \<Longrightarrow>
    fold (\<lambda>e a. snd (AddEvent e a)) (state_part evs) A t = fold (\<lambda>e a. snd (AddEvent e a)) evs B t"
proof (induction evs arbitrary: A B)
  case (Cons e evs)
  have "(if EvType e \<in> set stored_state_types then snd (AddEvent e A) else A) t = snd (AddEvent e B) t"
    if "fst t \<in> set stored_state_types" for t
    using Cons.prems(1) [OF that] that by (auto simp: AddEvent_def split: option.split)
  from Cons.IH [OF this Cons.prems(2)] show ?case by (auto simp: state_part_def split: if_splits)
qed (simp add: state_part_def)

lemma provider_state_part: "AuthEvents_provider (NewAuthEvents (state_part evs)) = AuthEvents_provider (NewAuthEvents evs)"
proof -
  have "NewAuthEvents (state_part evs) (ty, k) = NewAuthEvents evs (ty, k)" if "ty \<in> set stored_state_types" for ty k
    unfolding NewAuthEvents_def using that by (intro AddEvent_state_part) auto
  then show ?thesis by (simp add: AuthEvents_provider_def stored_state_types_def)
qed

lemma fold_put_event_other: "k \<notin> EvType ` set xs \<Longrightarrow> fold put_event xs Map.empty (k, x) = None"
proof -
  have "k \<notin> EvType ` set xs \<Longrightarrow> A (k, x) = None \<Longrightarrow> fold put_event xs A (k, x) = None" for A
    by (induction xs arbitrary: A) (auto simp: put_event_def room_key_def)
  then show "k \<notin> EvType ` set xs \<Longrightarrow> fold put_event xs Map.empty (k, x) = None" by simp
qed


section \<open>A second creation\<close>

lemma bare_updates:
  "bare room rs \<Longrightarrow> bare room (replace_event e e1 rs)" "bare room rs \<Longrightarrow> bare room (rs\<lparr>RoomNid := n\<rparr>)"
  "bare room rs \<Longrightarrow> bare room (rs\<lparr>SnapId := n\<rparr>)" "bare room rs \<Longrightarrow> bare room (UpdateMsgExt a b c d rs)"
  "bare room rs \<Longrightarrow> bare room (UpdateDomainExt ds rs)" "bare room rs \<Longrightarrow> bare room (UpdateDepth n rs)"
  "bare room rs \<Longrightarrow> bare room (UpdateOutEventOffset n rs)" "bare room rs \<Longrightarrow> bare room (rs\<lparr>domainTl := T\<rparr>)"
  by (simp_all add: bare_def replace_event_def Let_def UpdateMsgExt_def UpdateDomainExt_def UpdateDepth_def UpdateOutEventOffset_def)

lemma bare_create:
  assumes "onEvent env r ev n (init room) = Inr rs" "EvType ev = ''m.room.create''"
  shows "bare room rs"
proof -
  have i: "bare room ((init room)\<lparr>rs_ext := e\<rparr>)" "bare room (onCreateEv env ev ((init room)\<lparr>rs_ext := e\<rparr>))" for e
    by (simp_all add: bare_def init_def onCreateEv_def split: prod.split)
  have f: "add_feed d ev n rs0 = Inr rs \<Longrightarrow> bare room rs0 \<Longrightarrow> bare room rs" for d rs0
    by (auto simp: add_feed_def getDomainTL_def bindR_def Let_def bare_def split: sum.splits option.splits prod.splits if_splits)
  have "bare room (init room)" by (simp add: bare_def init_def)
  then show ?thesis using assms i f
    by (auto simp: onEvent_def bindR_def onEventUpdate_def Let_def split: sum.splits prod.splits if_splits)
qed

lemma bare_flush:
  assumes "bare room rs" "\<forall>n. pe_fail env n ''SetRoomState'' = None" "\<forall>c. \<exists>b. pe_marshal env c = Inr b"
  shows "hoare (\<lambda>_. True) (FlushRoomState env rs) (\<lambda>_ s. emptied env room s) (\<lambda>_. True)"
proof -
  obtain c rs1 where sz: "serialize rs = (c, rs1)" by (cases "serialize rs")
  obtain b where b: "pe_marshal env c = Inr b" using assms(3) by blast
  have c: "JoinExport c = []" "LeaveExport c = []" "InviteExport c = []" "cr_slots c ! 9 = None" "roomId rs1 = room"
    using sz assms(1) by (auto simp: serialize_def Let_def bare_def slots_def)
  have fl: "flush (io_of env s) rs = ([SetRoomState room b (calcToken rs1)], rs1)" for s
    by (simp add: flush_def sz io_of_def b c)
  show ?thesis unfolding FlushRoomState_def with_writes_def write_cache_def call_set_def call_def hoare_def
    using assms(2) c b by (auto simp: fl bindS_def emptied_def)
qed

lemma bare_updateRoomStateExt:
  assumes "bare room rs"
  shows "hoare (\<lambda>_. True) (updateRoomStateExt env ev rs True) (\<lambda>(ev1, r1) _. renumbered ev ev1 \<and> bare room r1) (\<lambda>_. True)"
proof (cases "DomainFromID (Sender ev)")
  case (Inl e)
  then show ?thesis unfolding updateRoomStateExt_def by (auto intro: hoare_liftS)
next
  case (Inr domain)
  show ?thesis unfolding updateRoomStateExt_def Inr sum.case
    by (intro hoare_bindS [OF hoare_triv])
      (auto simp: Let_def split: prod.split intro!: hoare_bindS [OF hoare_triv] hoare_returnS bare_updates assms dest: number_event_renumbered)
qed

lemma emptied_same:
  assumes "moves log_same m"
  shows "hoare (emptied env room) m (\<lambda>_. emptied env room) (\<lambda>_. True)"
  by (rule hoare_moves [OF assms]) (auto simp: log_same_def emptied_def)

lemma emptied_write: "hoare (emptied env room) (WriteOutputEvents env us) (\<lambda>_. emptied env room) (\<lambda>_. True)"
  unfolding WriteOutputEvents_def
  by (rule hoare_loopS, rule hoare_moves [where R = "\<lambda>s s1. room_cache s1 = room_cache s"])
    (auto simp: moves_def call_set_def call_def bindS_def emptied_def split: option.split)

lemma bare_postProcessNew:
  assumes "bare room rs" "IsStateEv ev" "\<forall>n. pe_fail env n ''SetRoomState'' = None" "\<forall>c. \<exists>b. pe_marshal env c = Inr b"
  shows "hoare (\<lambda>_. True) (postProcessNew env ev pre nid rnid rs svr txn snap) (\<lambda>_. emptied env room) (\<lambda>_. True)"
proof -
  have build: "moves log_same (buildOutputRoomEvent env txn svr r e pre)" for r e
    unfolding buildOutputRoomEvent_def by (intro same_bindS same_log same_simple)
  show ?thesis unfolding postProcessNew_def Let_def if_P [OF assms(2)]
    by (intro hoare_bindS [OF hoare_triv] hoare_bindS [OF bare_flush [OF assms(1,3,4)]] hoare_bindS [OF emptied_same]
        hoare_bindS [OF emptied_write] hoare_returnS same_log build)
qed

lemma with_writes_value:
  assumes "\<And>io x ws. f io = Inr (x, ws) \<Longrightarrow> Q x"
  shows "hoare (\<lambda>_. True) (with_writes env f) (\<lambda>x _. Q x) (\<lambda>_. True)"
proof -
  have l: "hoare (\<lambda>_. True) (liftS (f io)) (\<lambda>(x, ws) _. Q x) (\<lambda>_. True)" for io
    using assms by (intro hoare_liftS) (auto split: prod.split)
  have w: "hoare (\<lambda>_. A) (loopS (\<lambda>w _. write_cache env w) ws ()) (\<lambda>_ _. A) (\<lambda>_. True)" for A ws
    by (rule hoare_assume, rule hoare_weaken [OF hoare_triv]) auto
  show ?thesis unfolding with_writes_def
    by (intro hoare_bindS [OF hoare_triv] hoare_bindS [OF l]) (auto split: prod.split intro!: hoare_bindS [OF w] hoare_returnS)
qed

lemma bare_apply_new:
  assumes "EvType ev = ''m.room.create''" "\<forall>n. pe_fail env n ''SetRoomState'' = None" "\<forall>c. \<exists>b. pe_marshal env c = Inr b"
  shows "hoare (\<lambda>_. True) (apply_new env ev txn svr None rnid pre) (\<lambda>_. emptied env (RoomID ev)) (\<lambda>_. True)"
proof -
  let ?room = "RoomID ev"
  have on: "hoare (\<lambda>_. True) (repo_OnEvent env ev n None) (\<lambda>st _. case st of None \<Rightarrow> False | Some r \<Rightarrow> bare ?room r) (\<lambda>_. True)" for n
    unfolding repo_OnEvent_def using assms(1)
    by (intro with_writes_value) (auto simp: OnEvent_def bindR_def split: sum.splits dest: bare_create)
  have keep: "hoare (\<lambda>_. A) (ums_OnEvent env ev pre) (\<lambda>_ _. A) (\<lambda>_. True)" for A
    by (auto simp: hoare_def split: prod.split sum.split)
  have post: "hoare (\<lambda>_. renumbered ev ev1 \<and> bare ?room r1)
      (bindS m (\<lambda>c. postProcessNew env ev1 pre k rnid (r1\<lparr>RoomNid := rnid, SnapId := c\<rparr>) svr txn c)) (\<lambda>_. emptied env ?room) (\<lambda>_. True)"
    for ev1 r1 k m
  proof (rule hoare_assume, intro hoare_bindS [OF hoare_triv] bare_postProcessNew [OF _ _ assms(2,3)])
    fix c assume a: "renumbered ev ev1 \<and> bare ?room r1"
    then show "bare ?room (r1\<lparr>RoomNid := rnid, SnapId := c\<rparr>)" by (intro bare_updates) simp
    show "IsStateEv ev1" using renumbered_fields [of ev ev1] a assms(1) by (simp add: IsStateEv_def)
  qed
  show ?thesis unfolding apply_new_def
  proof (intro hoare_bindS [OF on] hoare_bindS [OF keep])
    fix st u
    show "hoare (\<lambda>_. case st of None \<Rightarrow> False | Some r \<Rightarrow> bare ?room r) (case st of
         None \<Rightarrow> liftS (Inl (Panic ''nil pointer dereference''))
       | Some r \<Rightarrow>
           bindS (updateRoomStateExt env ev r True) (\<lambda>(ev1, r1).
             (let r2 = r1\<lparr>RoomNid := rnid\<rparr> in
              bindS (if IsStateEv ev1 then AddState (pe_db env) rnid (GetLastState r2) else returnS (SnapId r2)) (\<lambda>curSnap.
                postProcessNew env ev1 pre (EventNID ev) rnid (r2\<lparr>SnapId := curSnap\<rparr>) svr txn curSnap))))
       (\<lambda>_. emptied env ?room) (\<lambda>_. True)"
      by (rule hoare_assume)
        (auto split: option.splits prod.split simp: Let_def
          intro!: hoare_bindS [OF bare_updateRoomStateExt] post)
  qed
qed

lemma bare_processRoomNewEvent:
  assumes "EvType ev = ''m.room.create''" "pe_isDirect env (Content ev) \<noteq> Inr (Some True)"
    "\<forall>n. pe_fail env n ''SetRoomState'' = None" "\<forall>c. \<exists>b. pe_marshal env c = Inr b"
  shows "hoare (\<lambda>_. True) (processRoomNewEvent env ev trusted txn svr) (\<lambda>_. emptied env (RoomID ev)) (\<lambda>_. True)"
proof -
  have one: "hoare (\<lambda>_. True) (process_one env txn svr trusted ev None) (\<lambda>_. emptied env (RoomID ev)) (\<lambda>_. True)"
  proof -
    have a: "hoare (\<lambda>_. True) (bindS (apply_new env ev txn svr None n pre) (\<lambda>r. returnS None)) (\<lambda>_. emptied env (RoomID ev)) (\<lambda>_. True)" for n pre
      by (rule hoare_bindS [OF bare_apply_new [OF assms(1,3,4)]]) (rule hoare_returnS)
    have "process_one env txn svr trusted ev None = bindS (locate env ev None) (\<lambda>(n, pre).
        bindS (if trusted then returnS () else authorise env ev None) (\<lambda>_. bindS (apply_new env ev txn svr None n pre) (\<lambda>r. returnS None)))"
      using assms(1) by (simp add: process_one_def processFedInvite_def processNew_def bindS_returnS)
    then show ?thesis
      by (simp only:) (rule hoare_bindS [OF hoare_triv], simp only: split: prod.split, intro allI impI hoare_bindS [OF hoare_triv] a)
  qed
  have find: "hoare (\<lambda>_. True) (find_room env ev) (\<lambda>(rs, d) _. rs = None \<and> \<not> d) (\<lambda>_. True)"
    using assms(1,2) unfolding find_room_def IsCreatingDirectRoomEv_def
    by (auto simp: hoare_def bindS_def bindR_def split: sum.split)
  show ?thesis unfolding processRoomNewEvent_def
  proof (rule hoare_bindS [OF hoare_triv], rule hoare_bindS [OF find])
    fix u x
    show "hoare (case x of (rs, d) \<Rightarrow> \<lambda>_. rs = None \<and> \<not> d) (case x of (rs, direct) \<Rightarrow>
       if direct \<and> direct_event ev then
         bindS (processDirectRoomCreateOrMemberEvent env ev) (\<lambda>(evs, succeed).
           if \<not> succeed then liftS (Inl (Error ''RCS Server error''))
           else bindS (loopS (process_one env txn svr trusted) evs rs) (\<lambda>_. returnS ()))
       else bindS (process_one env txn svr trusted ev rs) (\<lambda>_. returnS ())) (\<lambda>_. emptied env (RoomID ev)) (\<lambda>_. True)"
      using hoare_bindS [OF one, of "\<lambda>_. returnS ()"] hoare_returnS
      by (cases x) (auto simp: hoare_def)
  qed
qed

text \<open>
  C22. A second creation empties a room. The processor guards against a repeated create event by testing
  whether the room has a state, but for create events the state is never loaded, so the guard is dead: whatever the
  room was before, when a create event that is not of a direct room is processed, the cached state of the room
  has no joined, left or invited user and no power levels.
\<close>

theorem second_create_empties_room:
  assumes "processRoomNewEvent env ev trusted txn svr s = (Inr (), s1)" "EvType ev = ''m.room.create''"
    and "pe_isDirect env (Content ev) \<noteq> Inr (Some True)"
    and "\<forall>n. pe_fail env n ''SetRoomState'' = None" "\<forall>c. \<exists>b. pe_marshal env c = Inr b"
  shows "\<exists>c b token. map_of (room_cache s1) (RoomID ev) = Some (b, token) \<and> pe_marshal env c = Inr b \<and>
    JoinExport c = [] \<and> LeaveExport c = [] \<and> InviteExport c = [] \<and> cr_slots c ! 9 = None"
  using hoareD(1) [OF bare_processRoomNewEvent [OF assms(2-5)] TrueI assms(1)] by (simp add: emptied_def)

section \<open>Aliases\<close>

text \<open>
  Allocating an alias. A new alias is stored and found again, in the cache and, once the cache has lost it,
  in the database. But for an alias that the database has and the cache has not, the requester is told
  that it exists while the requester's room is put into the cache: look-ups then answer the requester's room
  instead of the owner's for as long as the entry is cached.
\<close>

theorem alias_allocation:
  assumes "\<forall>n what. pe_fail env n what = None" "\<not> AsyncSave (pe_db env)" "\<forall>n. db_fail (pe_db env) n = None"
    and "map_of (alias_cache s) al = None" "map_of (tb_aliases (db_tables s)) al \<noteq> Some []" "room \<noteq> []"
    and "owner = selectRoomIDFromAlias al (db_tables s)"
  shows "\<exists>s1. AllocRoomAlias env al room s = (Inr (owner \<noteq> []), s1) \<and>
    fst (GetAliasRoomID env al s1) = Inr room \<and>
    fst (GetAliasRoomID env al (s1\<lparr>alias_cache := []\<rparr>)) = Inr (if owner = [] then room else owner)"
proof -
  obtain c cs where room: "room = c # cs" using assms(6) by (cases room) auto
  show ?thesis
  proof (cases "map_of (tb_aliases (db_tables s)) al")
    case None
    then have ow: "owner = []" using assms(7) by (simp add: selectRoomIDFromAlias_def)
    have no: "\<not> (\<exists>r \<in> set (tb_aliases (db_tables s)). fst r = al)" using None by (auto simp: map_of_eq_None_iff)
    show ?thesis using assms(1-4) None ow
      by (simp add: AllocRoomAlias_def GetAliasRoomID_def SetRoomAlias_def save_event_def call_def call_set_def bindS_def
          insertRoomAliasRaw_def no selectRoomIDFromAlias_def room map_add_def)
  next
    case (Some r)
    then obtain d ds where r: "r = d # ds" using assms(5) by (cases r) auto
    then have ow: "owner = d # ds" using assms(7) Some by (simp add: selectRoomIDFromAlias_def)
    show ?thesis using assms(1-4) Some r ow
      by (simp add: AllocRoomAlias_def GetAliasRoomID_def call_def call_set_def bindS_def selectRoomIDFromAlias_def room)
  qed
qed

end
