(* ===== verification/Sample_Processor.thy ===== *)
theory Sample_Processor
  imports Room_Rebuild Sample_State
begin

text \<open>
  A concrete room server, with a codec that writes an event as itself and without failures, on which the properties
  of the tables and of the event processor are applied.
\<close>

section \<open>The server\<close>

definition plain_codec :: "('c, 'c Event) row_codec" where
  "plain_codec = \<lparr>CheckCrypto = (\<lambda>_. False), CheckMirror = (\<lambda>_. False), Encrypt = (\<lambda>j. j), Decrypt = (\<lambda>j. j),
     ev_JSON = (\<lambda>e. e), NewEventFromUntrustedJSON = (\<lambda>e. e)\<rparr>"

definition unit_codec :: "(unit, unit Event) row_codec" where
  "unit_codec = plain_codec"

definition sample_db :: "(sample_json, sample_json Event) db_env" where
  "sample_db = \<lparr>db_codec = plain_codec, AsyncSave = False, db_Next = (\<lambda>n. Inr (int n + 1)), db_fail = (\<lambda>_. None)\<rparr>"

definition sample_proc :: "(sample_json, sample_json cached_room, sample_json Event) proc_env" where
  "sample_proc = \<lparr>pe_db = sample_db, pe_auth = sample_env, pe_room = sample_renv, pe_ServerName = [''x''],
     pe_marshal = (\<lambda>c. Inr c), pe_unmarshal = (\<lambda>c. Inr c), pe_isDirect = (\<lambda>_. Inr None),
     pe_membership = (\<lambda>j. case j of JMember m \<Rightarrow> Inr (Some m) | _ \<Rightarrow> Inr None), pe_aliases = (\<lambda>_. Inr []),
     pe_aliases_content = (\<lambda>_. Inr (JText [])), pe_null = JInt 0, pe_SetUnsigned = (\<lambda>_ e. Inr e),
     pe_SendInvite = (\<lambda>_ _ e. (200, e, None)), pe_rcs = (\<lambda>_ e. Inr ([e], True)), pe_fail = (\<lambda>_ _. None),
     pe_now = (\<lambda>_. 5)\<rparr>"

definition sample_server :: "(sample_json, sample_json cached_room, sample_json Event) rserver" where
  "sample_server = \<lparr>db_tables = no_tables, sent = [], ids_taken = 0, calls = 0, room_cache = [], ext_cache = [],
     ums_cache = [], alias_cache = [], outputs = [], fed_outputs = [], skips = no_skip\<rparr>"

text \<open>The server with the sample room in the cache, a message of its creator, a second one and a second creation.\<close>

definition sample_full :: "(sample_json, sample_json cached_room, sample_json Event) rserver" where
  "sample_full = sample_server\<lparr>room_cache := [(''!r:x'', fst (serialize sample_state), [])]\<rparr>"

definition sample_talk :: "sample_json Event" where
  "sample_talk = numbered 8 ''$8:x'' (sample_event ''m.room.message'' ''@a:x'' None (JText ''hi''))"

definition sample_reply :: "sample_json Event" where
  "sample_reply = numbered 9 ''$9:x'' (sample_event ''m.room.message'' ''@a:x'' None (JText ''ho''))"

definition sample_again :: "sample_json Event" where
  "sample_again = numbered 10 ''$10:x'' (sample_event MRoomCreate ''@n:x'' (Some []) (JCreate ''@n:x''))"

definition sample_input :: "sample_json RawEvent" where
  "sample_input = \<lparr>raw_RoomID = ''!r:x'', raw_Kind = KindNew, raw_Trust = False, raw_TxnID = None,
     raw_Events = [sample_talk, sample_reply], raw_SvrName = ''x''\<rparr>"

text \<open>The history of the sample room with an encryption event, and the tables with a row for the room.\<close>

definition sample_encrypted :: "sample_json Event list" where
  "sample_encrypted = sample_history @ [numbered 6 ''$6:x'' (sample_event ''m.room.encryption'' ''@a:x'' (Some []) (JText []))]"

definition sample_rooms :: "(sample_json, sample_json cached_room, sample_json Event) rserver" where
  "sample_rooms = sample_server\<lparr>db_tables := no_tables\<lparr>tb_rooms := [\<lparr>rr_nid = 7, rr_id = ''!r:x'', latest_event_nids = [],
     last_event_sent_nid = 0, state_snapshot_nid = 0, rr_depth = 0, rr_version = 0\<rparr>]\<rparr>\<rparr>"

definition sample_aliased :: "(sample_json, sample_json cached_room, sample_json Event) rserver" where
  "sample_aliased = sample_server\<lparr>db_tables := no_tables\<lparr>tb_aliases := [(''#a:x'', ''!o:x'')]\<rparr>\<rparr>"

section \<open>Evaluation\<close>

lemma sample_talk_logged:
  "length (outputs (snd (processRoomNewEvent sample_proc sample_talk False None ''x'' sample_full))) = 1"
  by code_simp

lemma sample_input_logged:
  "length (room_offsets ''!r:x'' (outputs (snd (processInput sample_proc sample_input sample_full)))) = 2"
  by code_simp

lemma sample_again_accepted:
  "fst (processRoomNewEvent sample_proc sample_again False None ''x'' sample_full) = Inr ()"
  by code_simp

lemma sample_joined: "JoinExport (fst (serialize sample_state)) \<noteq> []"
  by code_simp

lemma sample_encrypted_state: "state_part sample_encrypted = sample_history"
  by (simp add: state_part_def sample_encrypted_def sample_history_def numbered_def sample_event_def stored_state_types_def)

section \<open>Witnesses\<close>

theorem only_members_write_witness:
  "\<exists>rs u me c. fst (repo_GetRoomState sample_proc ''!r:x'' (locked sample_proc sample_talk sample_full)) = Inr (Some rs) \<and>
    outputs (snd (processRoomNewEvent sample_proc sample_talk False None ''x'' sample_full)) = [u] \<and>
    renumbered sample_talk (out_Event u) \<and> Member ''@a:x'' rs = Some me \<and>
    dec_member sample_codec (Content me) = Some c \<and> Membership c = join"
proof -
  let ?s1 = "snd (processRoomNewEvent sample_proc sample_talk False None ''x'' sample_full)"
  have o: "outputs sample_full = []" by (simp add: sample_full_def sample_server_def)
  have "outputs ?s1 \<noteq> outputs sample_full" using sample_talk_logged by (auto simp: o)
  moreover have "EvType sample_talk \<notin> {MRoomCreate, MRoomAliases, MRoomMember}" "RoomID sample_talk = ''!r:x''"
    "Sender sample_talk = ''@a:x''" "env_codec (pe_auth sample_proc) = sample_codec"
    by (simp_all add: sample_talk_def numbered_def sample_event_def sample_proc_def sample_env_def)
  ultimately show ?thesis
    using only_members_write [OF prod.collapse [symmetric], of sample_proc sample_talk None "''x''" sample_full] unfolding o by auto
qed

theorem output_log_in_order_witness:
  "sorted_wrt (<) (room_offsets ''!r:x'' (outputs (snd (processInput sample_proc sample_input sample_full)))) \<and>
    length (room_offsets ''!r:x'' (outputs (snd (processInput sample_proc sample_input sample_full)))) = 2"
proof -
  have "(serves sample_proc)\<^sup>*\<^sup>* sample_full (snd (processInput sample_proc sample_input sample_full))"
    by (rule r_into_rtranclp, rule serve_input, rule prod.collapse [symmetric])
  then have "sorted_wrt (<) (room_offsets ''!r:x'' (outputs (snd (processInput sample_proc sample_input sample_full))))"
    by (rule output_log_in_order [THEN conjunct1]) (simp_all add: sample_full_def sample_server_def sample_proc_def)
  with sample_input_logged show ?thesis by blast
qed

theorem second_create_empties_room_witness:
  "JoinExport (fst (serialize sample_state)) \<noteq> [] \<and> map_of (room_cache sample_full) ''!r:x'' = Some (fst (serialize sample_state), []) \<and>
    (\<exists>c token. map_of (room_cache (snd (processRoomNewEvent sample_proc sample_again False None ''x'' sample_full))) ''!r:x'' =
      Some (c, token) \<and> JoinExport c = [])"
proof -
  let ?r = "processRoomNewEvent sample_proc sample_again False None ''x'' sample_full"
  have r: "?r = (Inr (), snd ?r)" using sample_again_accepted by (metis prod.collapse)
  have e: "EvType sample_again = ''m.room.create''" "RoomID sample_again = ''!r:x''"
    "pe_isDirect sample_proc (Content sample_again) \<noteq> Inr (Some True)" "\<forall>n. pe_fail sample_proc n ''SetRoomState'' = None"
    "\<forall>c. \<exists>b. pe_marshal sample_proc c = Inr b"
    by (simp_all add: sample_again_def numbered_def sample_event_def sample_proc_def)
  have m: "pe_marshal sample_proc c = Inr b \<longleftrightarrow> b = c" for b c by (auto simp: sample_proc_def)
  show ?thesis using sample_joined second_create_empties_room [OF r e(1,3-5)]
    unfolding e(2) m by (auto simp: sample_full_def)
qed

theorem alias_allocation_witness:
  "\<exists>s1. AllocRoomAlias sample_proc ''#a:x'' ''!r:x'' sample_aliased = (Inr True, s1) \<and>
    fst (GetAliasRoomID sample_proc ''#a:x'' s1) = Inr ''!r:x'' \<and>
    fst (GetAliasRoomID sample_proc ''#a:x'' (s1\<lparr>alias_cache := []\<rparr>)) = Inr ''!o:x''"
  using alias_allocation [of sample_proc sample_aliased "''#a:x''" "''!r:x''", OF _ _ _ _ _ _ refl]
  by (simp add: sample_proc_def sample_db_def sample_aliased_def sample_server_def selectRoomIDFromAlias_def)



end
